(* ===== verification/Prelude.thy ===== *)
theory Prelude
  imports Main "HOL-Library.Word" "HOL-Library.Sublist"
begin

text \<open>
  Shared vocabulary of the development: the machine-integer abbreviations, the error
  values every component returns, the result type, the theorem collections the component
  proofs draw on, and generic facts on lists, prefixes and results.
\<close>

section \<open>Types shared by the components\<close>

type_synonym u16 = "16 word"
type_synonym u32 = "32 word"
type_synonym u64 = "64 word"

text \<open>
  The error numbers the kernel hands back and the program distinguishes. Everything the
  source wraps with \<open>fmt.Errorf\<close> keeps its class and loses only its wording.
\<close>

datatype errno =
    ENOENT | ENOTDIR | EEXIST | ELOOP | EPERM | EISDIR | EINVAL | EBUSY | ENOSPC | EIO
  | ECHILD | EOther nat

text \<open>\<open>('e, 'a) res\<close> is Go's \<open>(value, error)\<close> pair: an error or a value, never both.\<close>

type_synonym ('e, 'a) res = "'e + 'a"

section \<open>Collections\<close>

named_theorems path_simps \<open>rewrite rules on slash-separated paths\<close>
named_theorems fs_intros \<open>introduction rules on file-system updates\<close>
named_theorems hoare_rules \<open>decomposition rules for programs over an environment\<close>

section \<open>Results\<close>

definition bind_res :: "('e, 'a) res \<Rightarrow> ('a \<Rightarrow> ('e, 'b) res) \<Rightarrow> ('e, 'b) res" where
  "bind_res r f = (case r of Inl e \<Rightarrow> Inl e | Inr a \<Rightarrow> f a)"

lemma bind_res_simps [simp]:
  "bind_res (Inl e) f = Inl e"
  "bind_res (Inr a) f = f a"
  by (simp_all add: bind_res_def)

lemma bind_res_eq_Inr: "bind_res r f = Inr b \<longleftrightarrow> (\<exists>a. r = Inr a \<and> f a = Inr b)"
  by (cases r) auto

definition is_ok :: "('e, 'a) res \<Rightarrow> bool" where
  "is_ok r = (case r of Inl _ \<Rightarrow> False | Inr _ \<Rightarrow> True)"

lemma is_ok_simps [simp]: "\<not> is_ok (Inl e)" "is_ok (Inr a)"
  by (simp_all add: is_ok_def)

lemma is_ok_iff: "is_ok r \<longleftrightarrow> (\<exists>a. r = Inr a)"
  by (cases r) auto

section \<open>Lists\<close>

lemma takeWhile_neq_stop: "c \<notin> set xs \<Longrightarrow> takeWhile (\<lambda>x. x \<noteq> c) (xs @ c # ys) = xs"
  by (induction xs) auto

lemma dropWhile_neq_stop: "c \<notin> set xs \<Longrightarrow> dropWhile (\<lambda>x. x \<noteq> c) (xs @ c # ys) = c # ys"
  by (induction xs) auto

lemma prefix_append_same [simp]: "prefix (xs @ ys) (xs @ zs) \<longleftrightarrow> prefix ys zs"
  by (rule same_prefix_prefix)

lemma prefix_take_iff: "prefix p xs \<longleftrightarrow> (\<exists>n \<le> length xs. p = take n xs)"
  by (metis append_eq_conv_conj prefix_def prefix_length_le take_is_prefix)

lemma prefix_snoc_cases:
  "prefix p (xs @ [x]) \<Longrightarrow> p = xs @ [x] \<or> prefix p xs"
  by (simp add: prefix_snoc)

end
