(* ===== verification/GoStrings.thy ===== *)
theory GoStrings
  imports Prelude
begin

text \<open>
  The part of Go's \<open>strings\<close> and \<open>strconv\<close> packages the program uses, over byte strings:
  a Go string is a list of bytes, which is what Isabelle's \<open>string\<close> is.
\<close>

section \<open>Searching and cutting\<close>

definition has_prefix :: "string \<Rightarrow> string \<Rightarrow> bool" where
  "has_prefix s p = prefix p s"

definition has_suffix :: "string \<Rightarrow> string \<Rightarrow> bool" where
  "has_suffix s p = prefix (rev p) (rev s)"

definition trim_prefix :: "string \<Rightarrow> string \<Rightarrow> string" where
  "trim_prefix s p = (if has_prefix s p then drop (length p) s else s)"

definition trim_suffix :: "string \<Rightarrow> string \<Rightarrow> string" where
  "trim_suffix s p = (if has_suffix s p then take (length s - length p) s else s)"

definition cut_prefix :: "string \<Rightarrow> string \<Rightarrow> string option" where
  "cut_prefix s p = (if has_prefix s p then Some (drop (length p) s) else None)"

definition cut_suffix :: "string \<Rightarrow> string \<Rightarrow> string option" where
  "cut_suffix s p = (if has_suffix s p then Some (take (length s - length p) s) else None)"

text \<open>\<open>strings.Cut\<close> on a one-byte separator: what is before its first occurrence, what is after.\<close>

definition cut_byte :: "char \<Rightarrow> string \<Rightarrow> (string \<times> string) option" where
  "cut_byte c s =
     (if c \<in> set s then Some (takeWhile (\<lambda>x. x \<noteq> c) s, tl (dropWhile (\<lambda>x. x \<noteq> c) s)) else None)"

text \<open>The same at the last occurrence (\<open>LastIndexByte\<close> and two slices).\<close>

definition cut_last_byte :: "char \<Rightarrow> string \<Rightarrow> (string \<times> string) option" where
  "cut_last_byte c s =
     (case cut_byte c (rev s) of None \<Rightarrow> None | Some (a, b) \<Rightarrow> Some (rev b, rev a))"

fun contains :: "string \<Rightarrow> string \<Rightarrow> bool" where
  "contains [] p = (p = [])"
| "contains (x # xs) p = (prefix p (x # xs) \<or> contains xs p)"

lemma contains_iff: "contains s p \<longleftrightarrow> (\<exists>u v. s = u @ p @ v)"
proof (induction s)
  case (Cons x s)
  show ?case
  proof
    assume "contains (x # s) p"
    then consider "prefix p (x # s)" | u v where "s = u @ p @ v" using Cons by auto
    then show "\<exists>u v. x # s = u @ p @ v" by cases (metis append_Nil prefixE, metis append_Cons)
  next
    assume "\<exists>u v. x # s = u @ p @ v"
    then obtain u v where "x # s = u @ p @ v" by blast
    then have "prefix p (x # s) \<or> (\<exists>u v. s = u @ p @ v)" by (cases u) (auto simp: prefix_def)
    then show "contains (x # s) p" using Cons by auto
  qed
qed auto

lemma has_prefix_append [simp]: "has_prefix (p @ s) p"
  by (simp add: has_prefix_def)

lemma trim_prefix_append [simp]: "trim_prefix (p @ s) p = s"
  by (simp add: trim_prefix_def)

lemma cut_prefix_Some: "cut_prefix s p = Some r \<longleftrightarrow> s = p @ r"
  by (auto simp: cut_prefix_def has_prefix_def prefix_def)

lemma cut_byte_Some:
  "cut_byte c s = Some (a, b) \<longleftrightarrow> s = a @ c # b \<and> c \<notin> set a"
proof
  assume h: "cut_byte c s = Some (a, b)"
  then have c: "c \<in> set s" by (auto simp: cut_byte_def split: if_splits)
  then obtain u v where "s = u @ c # v" "c \<notin> set u" by (metis split_list_first)
  with h c show "s = a @ c # b \<and> c \<notin> set a"
    by (auto simp: cut_byte_def takeWhile_neq_stop dropWhile_neq_stop)
next
  assume "s = a @ c # b \<and> c \<notin> set a"
  then show "cut_byte c s = Some (a, b)"
    by (auto simp: cut_byte_def takeWhile_neq_stop dropWhile_neq_stop)
qed

lemma cut_byte_None [simp]: "cut_byte c s = None \<longleftrightarrow> c \<notin> set s"
  by (simp add: cut_byte_def)

lemma cut_last_byte_Some:
  "cut_last_byte c s = Some (a, b) \<longleftrightarrow> s = a @ c # b \<and> c \<notin> set b"
proof -
  have "cut_last_byte c s = Some (a, b) \<longleftrightarrow> cut_byte c (rev s) = Some (rev b, rev a)"
    by (cases "cut_byte c (rev s)") (auto simp: cut_last_byte_def simp del: cut_byte_None)
  also have "\<dots> \<longleftrightarrow> rev s = rev b @ c # rev a \<and> c \<notin> set b"
    by (simp add: cut_byte_Some)
  also have "\<dots> \<longleftrightarrow> s = a @ c # b \<and> c \<notin> set b"
    by (metis append.assoc append_Cons append_Nil rev.simps(2) rev_append rev_rev_ident)
  finally show ?thesis .
qed

lemma cut_last_byte_None [simp]: "cut_last_byte c s = None \<longleftrightarrow> c \<notin> set s"
proof -
  have "cut_last_byte c s = None \<longleftrightarrow> cut_byte c (rev s) = None"
    by (cases "cut_byte c (rev s)") (auto simp: cut_last_byte_def simp del: cut_byte_None)
  then show ?thesis by simp
qed

lemma cut_byte_absent [simp]: "c \<notin> set s \<Longrightarrow> cut_byte c s = None"
  and cut_last_byte_absent [simp]: "c \<notin> set s \<Longrightarrow> cut_last_byte c s = None"
  by simp_all

section \<open>Splitting and joining\<close>

fun split_byte :: "char \<Rightarrow> string \<Rightarrow> string list" where
  "split_byte c [] = [[]]"
| "split_byte c (x # xs) =
     (if x = c then [] # split_byte c xs
      else (case split_byte c xs of [] \<Rightarrow> [[x]] | y # ys \<Rightarrow> (x # y) # ys))"

fun join_byte :: "char \<Rightarrow> string list \<Rightarrow> string" where
  "join_byte c [] = []"
| "join_byte c [x] = x"
| "join_byte c (x # y # zs) = x @ c # join_byte c (y # zs)"

lemma split_byte_nonempty [simp]: "split_byte c s \<noteq> []"
  by (induction s) (auto split: list.splits)

lemma split_byte_no_sep: "x \<in> set (split_byte c s) \<Longrightarrow> c \<notin> set x"
  by (induction s arbitrary: x) (auto split: list.splits if_splits)

lemma split_byte_whole: "c \<notin> set s \<Longrightarrow> split_byte c s = [s]"
  by (induction s) auto

lemma split_byte_append: "split_byte c (a @ c # b) = split_byte c a @ split_byte c b"
proof (induction a)
  case Nil
  then show ?case by simp
next
  case (Cons x a)
  show ?case
  proof (cases "split_byte c a")
    case Nil
    then show ?thesis by simp
  next
    case (Cons y ys)
    with Cons.IH show ?thesis by simp
  qed
qed

lemma join_byte_Cons: "xs \<noteq> [] \<Longrightarrow> join_byte c (x # xs) = x @ c # join_byte c xs"
  by (cases xs) auto

lemma join_byte_append:
  "xs \<noteq> [] \<Longrightarrow> ys \<noteq> [] \<Longrightarrow> join_byte c (xs @ ys) = join_byte c xs @ c # join_byte c ys"
  by (induction xs rule: induct_list012) (auto simp: join_byte_Cons)

lemma split_byte_join:
  "xs \<noteq> [] \<Longrightarrow> \<forall>x \<in> set xs. c \<notin> set x \<Longrightarrow> split_byte c (join_byte c xs) = xs"
proof (induction xs rule: induct_list012)
  case (3 x y zs)
  then show ?case by (simp add: split_byte_append split_byte_whole)
qed (auto simp: split_byte_whole)

lemma join_byte_split: "join_byte c (split_byte c s) = s"
proof (induction s)
  case (Cons x s)
  show ?case
  proof (cases "split_byte c s")
    case (Cons y ys)
    with Cons.IH show ?thesis by (cases ys) auto
  qed simp
qed simp

lemma join_byte_eq_Nil:
  "\<forall>x \<in> set xs. x \<noteq> [] \<Longrightarrow> join_byte c xs = [] \<longleftrightarrow> xs = []"
  by (induction xs rule: induct_list012) auto

section \<open>White space\<close>

text \<open>
  \<open>unicode.IsSpace\<close> on UTF-8 text: the six ASCII blanks and the encodings of the other
  code points with the White_Space property. A space sequence starts with a lead byte, so
  looking for it byte by byte finds exactly the runes a UTF-8 decoder would find.
\<close>

definition ascii_space :: "char \<Rightarrow> bool" where
  "ascii_space c = (c \<in> {CHR 0x09, CHR 0x0A, CHR 0x0B, CHR 0x0C, CHR 0x0D, CHR 0x20})"

definition wide_spaces :: "string list" where
  "wide_spaces =
     [[CHR 0xC2, CHR 0x85], [CHR 0xC2, CHR 0xA0], [CHR 0xE1, CHR 0x9A, CHR 0x80]] @
     map (\<lambda>b. [CHR 0xE2, CHR 0x80, b])
       [CHR 0x80, CHR 0x81, CHR 0x82, CHR 0x83, CHR 0x84, CHR 0x85, CHR 0x86, CHR 0x87,
        CHR 0x88, CHR 0x89, CHR 0x8A, CHR 0xA8, CHR 0xA9, CHR 0xAF] @
     [[CHR 0xE2, CHR 0x81, CHR 0x9F], [CHR 0xE3, CHR 0x80, CHR 0x80]]"

text \<open>The length of the space rune a list of candidate encodings finds at the front; 0 if none.\<close>

definition space_len :: "string list \<Rightarrow> string \<Rightarrow> nat" where
  "space_len wide s =
     (case s of [] \<Rightarrow> 0
      | c # _ \<Rightarrow> if ascii_space c then 1
                else (case find (\<lambda>w. prefix w s) wide of None \<Rightarrow> 0 | Some w \<Rightarrow> length w))"

function trim_with :: "string list \<Rightarrow> string \<Rightarrow> string" where
  "trim_with wide s =
     (if space_len wide s = 0 \<or> s = [] then s else trim_with wide (drop (space_len wide s) s))"
  by pat_completeness auto
termination
  by (relation "measure (\<lambda>(wide, s). length s)") auto

declare trim_with.simps [simp del]

definition trim_left_space :: "string \<Rightarrow> string" where
  "trim_left_space s = trim_with wide_spaces s"

definition trim_right_space :: "string \<Rightarrow> string" where
  "trim_right_space s = rev (trim_with (map rev wide_spaces) (rev s))"

definition trim_space :: "string \<Rightarrow> string" where
  "trim_space s = trim_right_space (trim_left_space s)"

text \<open>\<open>strings.Fields\<close>: the maximal runs of non-space runes. \<open>fields_from cur s\<close> holds the
  field being read, in reverse.\<close>

function fields_from :: "string \<Rightarrow> string \<Rightarrow> string list" where
  "fields_from cur s =
     (if s = [] then (if cur = [] then [] else [rev cur])
      else if space_len wide_spaces s = 0 then fields_from (hd s # cur) (tl s)
      else (if cur = [] then [] else [rev cur])
             @ fields_from [] (drop (space_len wide_spaces s) s))"
  by pat_completeness auto
termination
  by (relation "measure (\<lambda>(cur, s). length s)") auto

declare fields_from.simps [simp del]

definition fields :: "string \<Rightarrow> string list" where
  "fields s = fields_from [] s"

lemma trim_with_no_space: "space_len w s = 0 \<Longrightarrow> trim_with w s = s"
  by (subst trim_with.simps) simp

lemma trim_with_space_len: "space_len w (trim_with w s) = 0 \<or> trim_with w s = []"
proof (induction w s rule: trim_with.induct)
  case (1 w s)
  then show ?case by (subst (1 2) trim_with.simps) auto
qed

lemma fields_nonempty: "f \<in> set (fields_from cur s) \<Longrightarrow> f \<noteq> []"
proof (induction cur s rule: fields_from.induct)
  case (1 cur s)
  from "1.prems" show ?case
    by (subst (asm) fields_from.simps) (use "1.IH" in \<open>auto split: if_splits\<close>)
qed

text \<open>Printing ASCII is never a space.\<close>

definition plain_char :: "char \<Rightarrow> bool" where
  "plain_char c \<longleftrightarrow> 33 \<le> (of_char c :: nat) \<and> (of_char c :: nat) < 127"

lemma space_len_plain:
  assumes "\<forall>w \<in> set ws. w \<noteq> [] \<and> (of_char (hd w) :: nat) \<ge> 128" "plain_char c"
  shows "space_len ws (c # cs) = 0"
proof -
  have "\<not> ascii_space c" using assms(2) by (auto simp: ascii_space_def plain_char_def)
  moreover have "\<not> prefix w (c # cs)" if "w \<in> set ws" for w
    using assms that by (cases w) (auto simp: plain_char_def)
  then have "find (\<lambda>w. prefix w (c # cs)) ws = None" by (simp add: find_None_iff)
  ultimately show ?thesis by (simp add: space_len_def)
qed

lemma trim_space_plain:
  assumes "s \<noteq> []" "plain_char (hd s)" "plain_char (last s)"
  shows "trim_space s = s"
proof -
  obtain a u where a: "s = a # u" using assms(1) by (cases s) auto
  obtain b v where b: "rev s = b # v" using assms(1) by (cases "rev s") auto
  have "b = last s" using b by (metis last_snoc rev.simps(2) rev_rev_ident)
  then have "space_len (map rev wide_spaces) (rev s) = 0"
    unfolding b using assms(3) \<open>b = last s\<close>
    by (intro space_len_plain) (auto simp: wide_spaces_def)
  moreover have "space_len wide_spaces s = 0"
    unfolding a using assms(2) a by (intro space_len_plain) (auto simp: wide_spaces_def)
  ultimately show ?thesis
    by (simp add: trim_space_def trim_left_space_def trim_right_space_def trim_with_no_space)
qed

lemma fields_from_word:
  "\<forall>c \<in> set u. plain_char c \<Longrightarrow> fields_from cur (u @ s) = fields_from (rev u @ cur) s"
proof (induction u arbitrary: cur)
  case (Cons c u)
  have "space_len wide_spaces (c # u @ s) = 0"
    using Cons.prems by (intro space_len_plain) (auto simp: wide_spaces_def)
  then have "fields_from cur ((c # u) @ s) = fields_from (c # cur) (u @ s)"
    by (subst fields_from.simps) simp
  with Cons show ?case by simp
qed simp

lemma fields_two_words:
  assumes "u \<noteq> []" "v \<noteq> []" "\<forall>c \<in> set u. plain_char c" "\<forall>c \<in> set v. plain_char c"
  shows "fields (u @ CHR '' '' # v) = [u, v]"
proof -
  have e: "fields_from (rev v) [] = [v]" using assms(2) by (subst fields_from.simps) simp
  have "fields_from [] (v @ []) = fields_from (rev v @ []) []" by (rule fields_from_word [OF assms(4)])
  then have "fields_from [] v = [v]" using e by simp
  moreover have "space_len wide_spaces (CHR '' '' # v) = 1" by (simp add: space_len_def ascii_space_def)
  ultimately have "fields_from (rev u) (CHR '' '' # v) = [u, v]"
    using assms(1) by (subst fields_from.simps) simp
  moreover have "fields_from [] (u @ CHR '' '' # v) = fields_from (rev u @ []) (CHR '' '' # v)"
    by (rule fields_from_word [OF assms(3)])
  ultimately show ?thesis by (simp add: fields_def)
qed

section \<open>Numbers\<close>

datatype num_error = ErrSyntax | ErrRange

definition digit_val :: "char \<Rightarrow> nat option" where
  "digit_val c = (let n = of_char c in if 48 \<le> n \<and> n \<le> 57 then Some (n - 48) else (None :: nat option))"

text \<open>\<open>strconv.ParseUint(s, 10, bits)\<close>: the loop stops at the first bad byte or at the first
  digit that takes the value past \<open>2\<^sup>b\<^sup>i\<^sup>t\<^sup>s - 1\<close>.\<close>

fun parse_digits :: "nat \<Rightarrow> nat \<Rightarrow> string \<Rightarrow> (num_error, nat) res" where
  "parse_digits bits n [] = Inr n"
| "parse_digits bits n (c # cs) =
     (case digit_val c of
        None \<Rightarrow> Inl ErrSyntax
      | Some d \<Rightarrow> if 10 * n + d \<ge> 2 ^ bits then Inl ErrRange
                  else parse_digits bits (10 * n + d) cs)"

definition parse_uint :: "nat \<Rightarrow> string \<Rightarrow> (num_error, nat) res" where
  "parse_uint bits s = (if s = [] then Inl ErrSyntax else parse_digits bits 0 s)"

text \<open>\<open>strconv.Atoi\<close>: an optional sign, then digits, in the range of a 64-bit \<open>int\<close>.\<close>

definition atoi :: "string \<Rightarrow> (num_error, int) res" where
  "atoi s =
     (let neg = has_prefix s ''-'';
          ds = (if neg \<or> has_prefix s ''+'' then tl s else s)
      in case parse_uint 64 ds of
           Inl e \<Rightarrow> Inl e
         | Inr n \<Rightarrow> if neg then (if n > 2 ^ 63 then Inl ErrRange else Inr (- int n))
                    else (if n \<ge> 2 ^ 63 then Inl ErrRange else Inr (int n)))"

text \<open>Decimal printing (\<open>strconv.FormatUint\<close>, the \<open>%d\<close> verb).\<close>

definition digit_char :: "nat \<Rightarrow> char" where
  "digit_char d = char_of (48 + d)"

fun format_uint :: "nat \<Rightarrow> string" where
  "format_uint n = (if n < 10 then [digit_char n] else format_uint (n div 10) @ [digit_char (n mod 10)])"

declare format_uint.simps [simp del]

definition format_int :: "int \<Rightarrow> string" where
  "format_int i = (if i < 0 then CHR ''-'' # format_uint (nat (- i)) else format_uint (nat i))"

lemma digit_val_char [simp]: "d < 10 \<Longrightarrow> digit_val (digit_char d) = Some d"
  by (simp add: digit_val_def digit_char_def)

lemma digit_char_values [simp]:
  "digit_char 0 = CHR ''0''" "digit_char (Suc 0) = CHR ''1''" "digit_char 1 = CHR ''1''"
  "digit_char 2 = CHR ''2''" "digit_char 3 = CHR ''3''" "digit_char 4 = CHR ''4''"
  "digit_char 5 = CHR ''5''" "digit_char 6 = CHR ''6''" "digit_char 7 = CHR ''7''"
  "digit_char 8 = CHR ''8''" "digit_char 9 = CHR ''9''"
  by code_simp+

lemma digit_val_lt: "digit_val c = Some d \<Longrightarrow> d < 10"
  by (auto simp: digit_val_def Let_def split: if_splits)

lemma parse_digits_bound:
  "parse_digits bits n s = Inr v \<Longrightarrow> n < 2 ^ bits \<Longrightarrow> v < 2 ^ bits"
  by (induction s arbitrary: n) (auto split: option.splits if_splits)

lemma parse_uint_bound: "parse_uint bits s = Inr v \<Longrightarrow> v < 2 ^ bits"
  by (auto simp: parse_uint_def split: if_splits intro: parse_digits_bound)

lemma parse_digits_append:
  "parse_digits bits n (s @ t) = bind_res (parse_digits bits n s) (\<lambda>m. parse_digits bits m t)"
  by (induction s arbitrary: n) (auto split: option.splits)

lemma format_uint_nonempty [simp]: "format_uint n \<noteq> []"
  by (subst format_uint.simps) simp

lemma parse_digits_format: "n < 2 ^ bits \<Longrightarrow> parse_digits bits 0 (format_uint n) = Inr n"
proof (induction n rule: format_uint.induct)
  case (1 n)
  show ?case
  proof (cases "n < 10")
    case True
    with "1.prems" show ?thesis by (subst format_uint.simps) simp
  next
    case False
    have "n div 10 < 2 ^ bits" using "1.prems" by (meson div_le_dividend le_less_trans)
    with False "1.IH" have ih: "parse_digits bits 0 (format_uint (n div 10)) = Inr (n div 10)"
      by simp
    have "10 * (n div 10) + n mod 10 = n" by simp
    with False "1.prems" ih show ?thesis
      by (subst format_uint.simps) (simp add: parse_digits_append)
  qed
qed

lemma parse_uint_format: "n < 2 ^ bits \<Longrightarrow> parse_uint bits (format_uint n) = Inr n"
  by (simp add: parse_uint_def parse_digits_format)

section \<open>Lines\<close>

text \<open>\<open>bufio.Scanner\<close> with the default split function: lines without their line feed and one
  carriage return before it; what follows the last line feed is a line unless it is empty. A
  line of 65536 bytes or more fails the scan, after the lines before it.\<close>

definition drop_cr :: "string \<Rightarrow> string" where
  "drop_cr s = trim_suffix s [CHR 0x0D]"

definition raw_lines :: "string \<Rightarrow> string list" where
  "raw_lines s = (let ls = split_byte CHR 0x0A s in if last ls = [] then butlast ls else ls)"

definition scan_lines :: "string \<Rightarrow> string list" where
  "scan_lines s = map drop_cr (takeWhile (\<lambda>l. length l < 65536) (raw_lines s))"

definition scan_failed :: "string \<Rightarrow> bool" where
  "scan_failed s = (\<exists>l \<in> set (raw_lines s). length l \<ge> 65536)"

lemma raw_lines_concat:
  assumes "\<forall>l \<in> set ls. CHR 0x0A \<notin> set l"
  shows "raw_lines (concat (map (\<lambda>l. l @ [CHR 0x0A]) ls)) = ls"
proof -
  have "split_byte CHR 0x0A (concat (map (\<lambda>l. l @ [CHR 0x0A]) ls)) = ls @ [[]]"
    using assms by (induction ls) (simp_all add: split_byte_append split_byte_whole)
  then show ?thesis by (simp add: raw_lines_def)
qed

text \<open>Text written line by line is scanned back line by line.\<close>

lemma scan_lines_concat:
  assumes "\<forall>l \<in> set ls. CHR 0x0A \<notin> set l \<and> length l < 65536 \<and> (l \<noteq> [] \<longrightarrow> last l \<noteq> CHR 0x0D)"
  shows "scan_lines (concat (map (\<lambda>l. l @ [CHR 0x0A]) ls)) = ls"
proof -
  have "drop_cr l = l" if "l \<in> set ls" for l
    using assms that by (cases l rule: rev_cases) (auto simp: drop_cr_def trim_suffix_def has_suffix_def)
  then have "map drop_cr ls = ls" by (rule map_idI)
  moreover have "takeWhile (\<lambda>l. length l < 65536) ls = ls"
    using assms by (intro takeWhile_eq_all_conv [THEN iffD2]) simp
  moreover have "raw_lines (concat (map (\<lambda>l. l @ [CHR 0x0A]) ls)) = ls"
    using assms by (intro raw_lines_concat) simp
  ultimately show ?thesis by (simp only: scan_lines_def)
qed

lemma format_uint_digit: "c \<in> set (format_uint n) \<Longrightarrow> c \<noteq> CHR ''-'' \<and> c \<noteq> CHR ''+''"
proof (induction n rule: format_uint.induct)
  case (1 n)
  have o: "digit_char d \<noteq> c" if "of_char c < (48 :: nat)" "d < 10" for d c
    using that by (auto simp: digit_char_def)
  have d: "digit_char d \<noteq> CHR ''-'' \<and> digit_char d \<noteq> CHR ''+''" if "d < 10" for d
    using o [of "CHR ''-''" d] o [of "CHR ''+''" d] that by simp
  show ?case
  proof (cases "n < 10")
    case True
    with 1 d show ?thesis by (simp add: format_uint.simps [of n])
  next
    case False
    with 1 d show ?thesis by (auto simp: format_uint.simps [of n])
  qed
qed

lemma atoi_format: "n < 2 ^ 63 \<Longrightarrow> atoi (format_uint n) = Inr (int n)"
proof -
  assume n: "n < 2 ^ 63"
  obtain c cs where c: "format_uint n = c # cs" by (cases "format_uint n") simp_all
  then have "c \<noteq> CHR ''-'' \<and> c \<noteq> CHR ''+''" using format_uint_digit [of c n] by simp
  with c have "\<not> has_prefix (format_uint n) ''-''" "\<not> has_prefix (format_uint n) ''+''"
    by (auto simp: has_prefix_def)
  moreover have "parse_uint 64 (format_uint n) = Inr n" using n by (intro parse_uint_format) simp
  ultimately show ?thesis using n by (simp add: atoi_def Let_def)
qed

end
