(* ===== verification/GoPath.thy ===== *)
theory GoPath
  imports GoStrings
begin

text \<open>
  Go's \<open>path/filepath\<close> on a Unix system, over byte strings: \<open>Clean\<close>, \<open>Join\<close>, \<open>Split\<close>,
  \<open>Dir\<close>, \<open>Base\<close>, \<open>IsAbs\<close>; and the correspondence between clean path strings and lists of
  components, on which the file-system model and the containment proofs are stated.
\<close>

section \<open>Components\<close>

abbreviation slash :: char where "slash \<equiv> CHR ''/''"

text \<open>A name a directory entry can have.\<close>

definition normal :: "string \<Rightarrow> bool" where
  "normal c = (c \<noteq> [] \<and> c \<noteq> ''.'' \<and> c \<noteq> ''..'' \<and> slash \<notin> set c)"

definition comps :: "string \<Rightarrow> string list" where
  "comps s = filter (\<lambda>c. c \<noteq> []) (split_byte slash s)"

abbreviation rel_path :: "string list \<Rightarrow> string" where
  "rel_path cs \<equiv> join_byte slash cs"

abbreviation abs_path :: "string list \<Rightarrow> string" where
  "abs_path cs \<equiv> slash # join_byte slash cs"

section \<open>The functions of the package\<close>

definition clean_step :: "bool \<Rightarrow> string list \<Rightarrow> string \<Rightarrow> string list" where
  "clean_step rooted out c =
     (if c = [] \<or> c = ''.'' then out
      else if c = ''..'' then
        (case out of
           [] \<Rightarrow> if rooted then [] else [''..'']
         | d # ds \<Rightarrow> if d = ''..'' then ''..'' # out else ds)
      else c # out)"

definition is_abs :: "string \<Rightarrow> bool" where
  "is_abs s = has_prefix s ''/''"

definition clean :: "string \<Rightarrow> string" where
  "clean s =
     (if s = [] then ''.''
      else
        let out = rev (foldl (clean_step (is_abs s)) [] (split_byte slash s))
        in if is_abs s then abs_path out else if out = [] then ''.'' else rel_path out)"

definition path_join :: "string list \<Rightarrow> string" where
  "path_join es =
     (case dropWhile (\<lambda>e. e = []) es of [] \<Rightarrow> [] | e # rest \<Rightarrow> clean (rel_path (e # rest)))"

definition path_split :: "string \<Rightarrow> string \<times> string" where
  "path_split s =
     (case cut_last_byte slash s of None \<Rightarrow> ([], s) | Some (a, b) \<Rightarrow> (a @ [slash], b))"

definition path_dir :: "string \<Rightarrow> string" where
  "path_dir s = clean (fst (path_split s))"

definition path_base :: "string \<Rightarrow> string" where
  "path_base s =
     (if s = [] then ''.''
      else let t = rev (dropWhile (\<lambda>c. c = slash) (rev s));
               b = snd (path_split t)
           in if b = [] then ''/'' else b)"

section \<open>Components of strings\<close>

lemma normalD:
  assumes "normal c"
  shows "c \<noteq> []" "c \<noteq> ''.''" "c \<noteq> ''..''" "slash \<notin> set c"
  using assms by (simp_all add: normal_def)

lemma comps_Nil [simp]: "comps [] = []"
  by (simp add: comps_def)

lemma comps_slash_append [path_simps]: "comps (a @ slash # b) = comps a @ comps b"
  by (simp add: comps_def split_byte_append)

lemma comps_Cons_slash [simp]: "comps (slash # b) = comps b"
  using comps_slash_append [of "[]" b] by simp

lemma comps_component: "c \<noteq> [] \<Longrightarrow> slash \<notin> set c \<Longrightarrow> comps c = [c]"
  by (simp add: comps_def split_byte_whole)

lemma comps_members: "c \<in> set (comps s) \<Longrightarrow> c \<noteq> [] \<and> slash \<notin> set c"
  by (auto simp: comps_def dest: split_byte_no_sep)

lemma comps_rel_path [simp]:
  assumes "\<forall>c \<in> set cs. c \<noteq> [] \<and> slash \<notin> set c"
  shows "comps (rel_path cs) = cs"
proof (cases "cs = []")
  case False
  with assms have "split_byte slash (rel_path cs) = cs"
    by (intro split_byte_join) auto
  with assms show ?thesis by (simp add: comps_def filter_id_conv)
qed simp

lemma comps_rel_path_normal: "\<forall>c \<in> set cs. normal c \<Longrightarrow> comps (rel_path cs) = cs"
  by (rule comps_rel_path) (auto simp: normal_def)

lemma comps_abs_path_normal: "\<forall>c \<in> set cs. normal c \<Longrightarrow> comps (abs_path cs) = cs"
  by (simp add: comps_rel_path_normal)

section \<open>Clean\<close>

lemma clean_step_skip: "c = [] \<or> c = ''.'' \<Longrightarrow> clean_step r out c = out"
  by (auto simp: clean_step_def)

lemma clean_step_normal: "normal c \<Longrightarrow> clean_step r out c = c # out"
  by (simp add: clean_step_def normal_def)

lemma foldl_clean_filter:
  "foldl (clean_step r) out (filter (\<lambda>c. c \<noteq> []) cs) = foldl (clean_step r) out cs"
  by (induction cs arbitrary: out) (auto simp: clean_step_skip)

lemma foldl_clean_comps:
  "foldl (clean_step r) out (split_byte slash s) = foldl (clean_step r) out (comps s)"
  by (simp add: comps_def foldl_clean_filter)

lemma foldl_clean_normal:
  "\<forall>c \<in> set cs. normal c \<Longrightarrow> foldl (clean_step r) out cs = rev cs @ out"
  by (induction cs arbitrary: out) (auto simp: clean_step_normal)

lemma clean_step_rooted_normal:
  assumes "\<forall>d \<in> set out. normal d" "slash \<notin> set c"
  shows "\<forall>d \<in> set (clean_step True out c). normal d"
proof (cases "c = [] \<or> c = ''.'' \<or> c = ''..''")
  case True
  with assms(1) show ?thesis by (cases out) (auto simp: clean_step_def)
next
  case False
  with assms(2) have "normal c" by (simp add: normal_def)
  with assms(1) show ?thesis by (simp add: clean_step_normal)
qed

lemma foldl_clean_rooted_normal:
  assumes "\<forall>d \<in> set out. normal d" "\<forall>c \<in> set cs. slash \<notin> set c"
  shows "\<forall>d \<in> set (foldl (clean_step True) out cs). normal d"
  using assms
proof (induction cs arbitrary: out)
  case (Cons c cs)
  then have "\<forall>d \<in> set (clean_step True out c). normal d"
    by (intro clean_step_rooted_normal) auto
  with Cons show ?case by simp
qed simp

definition norm_comps :: "string list \<Rightarrow> string list" where
  "norm_comps cs = rev (foldl (clean_step True) [] cs)"

lemma norm_comps_normal:
  "\<forall>c \<in> set cs. slash \<notin> set c \<Longrightarrow> \<forall>d \<in> set (norm_comps cs). normal d"
  using foldl_clean_rooted_normal [of "[]" cs] by (simp add: norm_comps_def)

lemma norm_comps_id: "\<forall>c \<in> set cs. normal c \<Longrightarrow> norm_comps cs = cs"
  by (simp add: norm_comps_def foldl_clean_normal)

lemma is_abs_Cons [simp]: "is_abs (slash # s)"
  by (simp add: is_abs_def has_prefix_def)

lemma is_abs_iff: "is_abs s \<longleftrightarrow> (\<exists>t. s = slash # t)"
  by (cases s) (auto simp: is_abs_def has_prefix_def)

lemma not_is_abs_Nil [simp]: "\<not> is_abs []"
  by (simp add: is_abs_iff)

lemma clean_abs: "clean (slash # s) = abs_path (norm_comps (comps s))"
  by (simp add: clean_def norm_comps_def foldl_clean_comps [symmetric] clean_step_skip Let_def)

lemma clean_abs_normal: "\<forall>c \<in> set cs. normal c \<Longrightarrow> clean (abs_path cs) = abs_path cs"
  by (simp add: clean_abs comps_rel_path_normal norm_comps_id)

lemma rel_path_not_abs: "cs \<noteq> [] \<Longrightarrow> normal (hd cs) \<Longrightarrow> \<not> is_abs (rel_path cs)"
  by (cases cs rule: remdups_adj.cases)
    (auto simp: is_abs_iff normal_def append_eq_Cons_conv)

lemma rel_path_eq_Nil: "\<forall>c \<in> set cs. normal c \<Longrightarrow> rel_path cs = [] \<longleftrightarrow> cs = []"
  by (rule join_byte_eq_Nil) (auto simp: normal_def)

lemma clean_rel_normal:
  assumes "cs \<noteq> []" "\<forall>c \<in> set cs. normal c"
  shows "clean (rel_path cs) = rel_path cs"
proof -
  from assms have "\<not> is_abs (rel_path cs)" by (simp add: rel_path_not_abs)
  moreover from assms have "rel_path cs \<noteq> []" by (simp add: rel_path_eq_Nil)
  ultimately show ?thesis using assms
    by (simp add: clean_def foldl_clean_comps comps_rel_path_normal foldl_clean_normal)
qed

section \<open>Join, Split and Dir on clean paths\<close>

lemma join_rel_snoc:
  assumes "\<forall>c \<in> set cs. normal c" "normal c"
  shows "path_join [rel_path cs, c] = rel_path (cs @ [c])"
proof (cases "cs = []")
  case True
  with assms show ?thesis
    using clean_rel_normal [of "[c]"] by (simp add: path_join_def normal_def)
next
  case False
  with assms have "rel_path cs \<noteq> []" by (simp add: rel_path_eq_Nil)
  moreover have "rel_path cs @ slash # c = rel_path (cs @ [c])"
    using False by (simp add: join_byte_append)
  ultimately show ?thesis
    using assms False clean_rel_normal [of "cs @ [c]"] by (simp add: path_join_def)
qed

lemma join_abs_rel:
  assumes "\<forall>c \<in> set rs. normal c" "\<forall>c \<in> set cs. normal c"
  shows "path_join [abs_path rs, rel_path cs] = abs_path (rs @ cs)"
proof -
  have "\<forall>c \<in> set (rs @ cs). normal c" using assms by auto
  then have "norm_comps (rs @ cs) = rs @ cs" by (rule norm_comps_id)
  with assms show ?thesis
    by (simp add: path_join_def clean_abs path_simps comps_rel_path_normal)
qed

lemma join_abs_comp:
  "\<forall>c \<in> set rs. normal c \<Longrightarrow> normal c \<Longrightarrow> path_join [abs_path rs, c] = abs_path (rs @ [c])"
  using join_abs_rel [of rs "[c]"] by simp

lemma join_abs_any:
  "path_join [slash # r, s] = abs_path (norm_comps (comps r @ comps s))"
  by (simp add: path_join_def clean_abs path_simps)

lemma path_split_snoc:
  assumes "slash \<notin> set c"
  shows "path_split (rel_path (cs @ [c])) = ((if cs = [] then [] else rel_path cs @ [slash]), c)"
proof (cases "cs = []")
  case True
  with assms show ?thesis by (simp add: path_split_def)
next
  case False
  with assms have "cut_last_byte slash (rel_path (cs @ [c])) = Some (rel_path cs, c)"
    by (simp add: cut_last_byte_Some join_byte_append)
  with False show ?thesis by (simp add: path_split_def)
qed

lemma clean_trailing_slash:
  assumes "cs \<noteq> []" "\<forall>c \<in> set cs. normal c"
  shows "clean (rel_path cs @ [slash]) = rel_path cs"
proof -
  have c: "comps (rel_path cs @ [slash]) = cs"
    using assms comps_slash_append [of "rel_path cs" "[]"] by (simp add: comps_rel_path_normal)
  from assms have "\<not> is_abs (rel_path cs)" "rel_path cs \<noteq> []"
    by (simp_all add: rel_path_not_abs rel_path_eq_Nil)
  then have "\<not> is_abs (rel_path cs @ [slash])"
    by (cases "rel_path cs") (auto simp: is_abs_iff)
  with assms c show ?thesis
    by (simp add: clean_def foldl_clean_comps foldl_clean_normal)
qed

lemma dir_rel_snoc:
  assumes "\<forall>c \<in> set cs. normal c" "normal c"
  shows "path_dir (rel_path (cs @ [c])) = (if cs = [] then ''.'' else rel_path cs)"
  using assms clean_trailing_slash [of cs] normalD(4) [OF assms(2)]
  by (simp add: path_dir_def path_split_snoc clean_def)

lemma dir_Nil: "path_dir [] = ''.''"
  by (simp add: path_dir_def path_split_def clean_def)

end
