(* ===== verification/FileSystem.thy ===== *)
theory FileSystem
  imports GoPath "HOL-Library.List_Lexorder" "HOL-Library.Char_ord"
begin

unbundle bit_operations_syntax

text \<open>
  The part of the operating system the extraction code runs against: a tree of
  directories, files, symbolic links and device nodes, and the system calls and \<open>os\<close>
  functions the program uses, with the kernel's path resolution written out (symbolic
  links are followed from the real root, not from the directory being extracted into;
  that difference is what the containment proofs are about). A path is relative to \<open>/\<close>.
  Faults of the device (\<open>ENOSPC\<close>, \<open>EIO\<close>) do not arise in this model, and the caller is root.
\<close>

section \<open>The tree\<close>

type_synonym mode = "12 word"
type_synonym loc = "string list"

datatype dev_kind = CharDev | BlockDev | Fifo

datatype node =
    NDir mode
  | NFile mode string
  | NSym string
  | NDev dev_kind mode u32 u32

type_synonym fs = "(loc \<times> node) list"

abbreviation look :: "fs \<Rightarrow> loc \<Rightarrow> node option" where
  "look t p \<equiv> map_of t p"

definition put :: "fs \<Rightarrow> loc \<Rightarrow> node \<Rightarrow> fs" where
  "put t p n = (p, n) # filter (\<lambda>e. fst e \<noteq> p) t"

definition drop_tree :: "fs \<Rightarrow> loc \<Rightarrow> fs" where
  "drop_tree t p = filter (\<lambda>e. \<not> prefix p (fst e)) t"

definition drop_below :: "fs \<Rightarrow> loc \<Rightarrow> fs" where
  "drop_below t p = filter (\<lambda>e. \<not> strict_prefix p (fst e)) t"

definition child_names :: "fs \<Rightarrow> loc \<Rightarrow> string list" where
  "child_names t p =
     sort (remdups (map (\<lambda>e. last (fst e)) (filter (\<lambda>e. fst e \<noteq> [] \<and> butlast (fst e) = p) t)))"

definition umask :: mode where "umask = 0x12" \<comment> \<open>octal 022\<close>

definition masked :: "mode \<Rightarrow> mode" where
  "masked m = m AND NOT umask"

fun is_dir :: "node \<Rightarrow> bool" where
  "is_dir (NDir _) = True" | "is_dir _ = False"

fun is_sym :: "node \<Rightarrow> bool" where
  "is_sym (NSym _) = True" | "is_sym _ = False"

text \<open>What \<open>os.Readlink\<close> answers: the target, for a symbolic link only.\<close>

fun link_target :: "node \<Rightarrow> string option" where
  "link_target (NSym target) = Some target" | "link_target _ = None"

definition dir_at :: "fs \<Rightarrow> loc \<Rightarrow> bool" where
  "dir_at t p = (case look t p of Some n \<Rightarrow> is_dir n | None \<Rightarrow> False)"

definition sym_at :: "fs \<Rightarrow> loc \<Rightarrow> bool" where
  "sym_at t p = (case look t p of Some n \<Rightarrow> is_sym n | None \<Rightarrow> False)"

section \<open>Path resolution\<close>

text \<open>
  \<open>walk t follow links cur cs\<close> resolves the components \<open>cs\<close> from the location \<open>cur\<close>.
  The last component may be missing; a symbolic link there is followed only with \<open>follow\<close>.
\<close>

function walk :: "fs \<Rightarrow> bool \<Rightarrow> nat \<Rightarrow> loc \<Rightarrow> string list \<Rightarrow> (errno, loc) res" where
  "walk t follow links cur [] = Inr cur"
| "walk t follow links cur (c # cs) =
     (if \<not> dir_at t cur then Inl ENOTDIR
      else if c = [] \<or> c = ''.'' then walk t follow links cur cs
      else if c = ''..'' then walk t follow links (butlast cur) cs
      else (case look t (cur @ [c]) of
              None \<Rightarrow> if cs = [] then Inr (cur @ [c]) else Inl ENOENT
            | Some (NSym target) \<Rightarrow>
                if cs = [] \<and> \<not> follow then Inr (cur @ [c])
                else if links = 0 then Inl ELOOP
                else walk t follow (links - 1) (if is_abs target then [] else cur)
                       (split_byte slash target @ cs)
            | Some _ \<Rightarrow> walk t follow links (cur @ [c]) cs))"
  by pat_completeness auto
termination
  by (relation "measures [\<lambda>(t, follow, links, cur, cs). links, \<lambda>(t, follow, links, cur, cs). length cs]")
    auto

definition max_links :: nat where "max_links = 40"

definition resolve :: "fs \<Rightarrow> bool \<Rightarrow> string list \<Rightarrow> (errno, loc) res" where
  "resolve t follow cs = walk t follow max_links [] cs"

definition node_at :: "fs \<Rightarrow> (errno, loc) res \<Rightarrow> (errno, node) res" where
  "node_at t r = bind_res r (\<lambda>p. case look t p of None \<Rightarrow> Inl ENOENT | Some n \<Rightarrow> Inr n)"

definition lstat_c :: "fs \<Rightarrow> string list \<Rightarrow> (errno, node) res" where
  "lstat_c t cs = node_at t (resolve t False cs)"

definition stat_c :: "fs \<Rightarrow> string list \<Rightarrow> (errno, node) res" where
  "stat_c t cs = node_at t (resolve t True cs)"

section \<open>System calls\<close>

text \<open>Every call returns the error, if any, and the tree it leaves.\<close>

type_synonym outcome = "errno option \<times> fs"

definition at_new :: "fs \<Rightarrow> string list \<Rightarrow> node \<Rightarrow> outcome" where
  "at_new t cs n =
     (case resolve t False cs of
        Inl e \<Rightarrow> (Some e, t)
      | Inr p \<Rightarrow> (case look t p of Some _ \<Rightarrow> (Some EEXIST, t) | None \<Rightarrow> (None, put t p n)))"

definition sys_mkdir :: "fs \<Rightarrow> string list \<Rightarrow> mode \<Rightarrow> outcome" where
  "sys_mkdir t cs m = at_new t cs (NDir (masked m))"

definition sys_symlink :: "fs \<Rightarrow> string \<Rightarrow> string list \<Rightarrow> outcome" where
  "sys_symlink t target cs = (if target = [] then (Some ENOENT, t) else at_new t cs (NSym target))"

definition sys_mknod :: "fs \<Rightarrow> string list \<Rightarrow> dev_kind \<Rightarrow> mode \<Rightarrow> u32 \<Rightarrow> u32 \<Rightarrow> outcome" where
  "sys_mknod t cs k m major minor = at_new t cs (NDev k (masked m) major minor)"

definition sys_link :: "fs \<Rightarrow> string list \<Rightarrow> string list \<Rightarrow> outcome" where
  "sys_link t old new =
     (case lstat_c t old of
        Inl e \<Rightarrow> (Some e, t)
      | Inr n \<Rightarrow> if is_dir n then (Some EPERM, t) else at_new t new n)"

definition set_mode :: "node \<Rightarrow> mode \<Rightarrow> node" where
  "set_mode n m =
     (case n of NDir _ \<Rightarrow> NDir m | NFile _ c \<Rightarrow> NFile m c | NSym l \<Rightarrow> NSym l
      | NDev k _ a b \<Rightarrow> NDev k m a b)"

definition sys_chmod :: "fs \<Rightarrow> string list \<Rightarrow> mode \<Rightarrow> outcome" where
  "sys_chmod t cs m =
     (case resolve t True cs of
        Inl e \<Rightarrow> (Some e, t)
      | Inr p \<Rightarrow> (case look t p of None \<Rightarrow> (Some ENOENT, t)
                 | Some n \<Rightarrow> (None, put t p (set_mode n m))))"

text \<open>\<open>os.OpenFile(path, O_WRONLY|O_CREATE|O_EXCL, m)\<close>, then writing \<open>content\<close>.\<close>

definition create_excl :: "fs \<Rightarrow> string list \<Rightarrow> mode \<Rightarrow> string \<Rightarrow> outcome" where
  "create_excl t cs m content = at_new t cs (NFile (masked m) content)"

text \<open>\<open>os.OpenFile(path, O_WRONLY|O_CREATE|O_TRUNC, m)\<close>, then writing \<open>content\<close>: it follows
  a symbolic link at the end of the path.\<close>

definition create_trunc :: "fs \<Rightarrow> string list \<Rightarrow> mode \<Rightarrow> string \<Rightarrow> outcome" where
  "create_trunc t cs m content =
     (case resolve t True cs of
        Inl e \<Rightarrow> (Some e, t)
      | Inr p \<Rightarrow> (case look t p of
                   None \<Rightarrow> (None, put t p (NFile (masked m) content))
                 | Some (NFile m0 _) \<Rightarrow> (None, put t p (NFile m0 content))
                 | Some (NDir _) \<Rightarrow> (Some EISDIR, t)
                 | Some _ \<Rightarrow> (None, t)))"

section \<open>Functions of package \<open>os\<close>\<close>

function mkdir_all_c :: "fs \<Rightarrow> string list \<Rightarrow> mode \<Rightarrow> outcome" where
  "mkdir_all_c t cs m =
     (case stat_c t cs of
        Inr n \<Rightarrow> if is_dir n then (None, t) else (Some ENOTDIR, t)
      | Inl _ \<Rightarrow>
          (case (if length cs \<le> 1 then (None, t) else mkdir_all_c t (butlast cs) m) of
             (Some e, t1) \<Rightarrow> (Some e, t1)
           | (None, t1) \<Rightarrow>
               (case sys_mkdir t1 cs m of
                  (None, t2) \<Rightarrow> (None, t2)
                | (Some e, t2) \<Rightarrow>
                    (case lstat_c t2 cs of
                       Inr n \<Rightarrow> if is_dir n then (None, t2) else (Some e, t2)
                     | Inl _ \<Rightarrow> (Some e, t2)))))"
  by pat_completeness auto
termination
  by (relation "measure (\<lambda>(t, cs, m). length cs)") auto

declare mkdir_all_c.simps [simp del]

definition remove_all_c :: "fs \<Rightarrow> string list \<Rightarrow> outcome" where
  "remove_all_c t cs =
     (case resolve t False cs of
        Inl e \<Rightarrow> if e = ENOENT then (None, t) else (Some e, t)
      | Inr p \<Rightarrow> if p = [] then (Some EBUSY, drop_below t p) else (None, drop_tree t p))"

definition read_dir_c :: "fs \<Rightarrow> string list \<Rightarrow> (errno, string list) res" where
  "read_dir_c t cs =
     bind_res (resolve t True cs)
       (\<lambda>p. case look t p of
              None \<Rightarrow> Inl ENOENT
            | Some n \<Rightarrow> if is_dir n then Inr (child_names t p) else Inl ENOTDIR)"

text \<open>The string interface: a path string is resolved from \<open>/\<close>, component by component.\<close>

definition lstat :: "fs \<Rightarrow> string \<Rightarrow> (errno, node) res" where
  "lstat t path = lstat_c t (comps path)"
definition stat :: "fs \<Rightarrow> string \<Rightarrow> (errno, node) res" where
  "stat t path = stat_c t (comps path)"
definition mkdir_all :: "fs \<Rightarrow> string \<Rightarrow> mode \<Rightarrow> outcome" where
  "mkdir_all t path m = mkdir_all_c t (comps path) m"
definition remove_all :: "fs \<Rightarrow> string \<Rightarrow> outcome" where
  "remove_all t path = remove_all_c t (comps path)"
definition read_dir :: "fs \<Rightarrow> string \<Rightarrow> (errno, string list) res" where
  "read_dir t path = read_dir_c t (comps path)"

section \<open>Looking up after an update\<close>

lemma map_of_filter_key: "map_of (filter (\<lambda>e. P (fst e)) t) q = (if P q then map_of t q else None)"
  by (induction t) auto

lemma look_put [simp]: "look (put t p n) q = (if q = p then Some n else look t q)"
  by (simp add: put_def map_of_filter_key [of "\<lambda>x. x \<noteq> p"])

lemma look_drop_tree [simp]: "look (drop_tree t p) q = (if prefix p q then None else look t q)"
  by (simp add: drop_tree_def map_of_filter_key [of "\<lambda>x. \<not> prefix p x"])

lemma look_drop_below [simp]:
  "look (drop_below t p) q = (if strict_prefix p q then None else look t q)"
  by (simp add: drop_below_def map_of_filter_key [of "\<lambda>x. \<not> strict_prefix p x"])

lemma dir_at_put: "dir_at (put t p n) q = (if q = p then is_dir n else dir_at t q)"
  by (simp add: dir_at_def)

lemma sym_at_put: "sym_at (put t p n) q = (if q = p then is_sym n else sym_at t q)"
  by (simp add: sym_at_def)

lemma dir_not_sym: "dir_at t p \<Longrightarrow> \<not> sym_at t p"
  by (cases "look t p") (auto simp: dir_at_def sym_at_def elim: is_dir.elims)

end
