(* ===== verification/Containment.thy ===== *)
theory Containment
  imports FileSystem
begin

text \<open>
  What confines an operation to a directory. A location below a root \<open>r\<close> is \<^emph>\<open>plain\<close> when no
  component between the root and it is a symbolic link; the kernel resolves the path of a
  plain location to that location or fails. Each system call on a plain location changes
  nothing outside the root.
\<close>

section \<open>Roots and plain locations\<close>

text \<open>Every proper ancestor of \<open>r\<close> is a directory, its components are names, and \<open>r\<close> itself
  is not a symbolic link (it may be missing).\<close>

definition anchored :: "fs \<Rightarrow> loc \<Rightarrow> bool" where
  "anchored t r \<longleftrightarrow>
     r \<noteq> [] \<and> (\<forall>c \<in> set r. normal c) \<and> (\<forall>n < length r. dir_at t (take n r)) \<and> \<not> sym_at t r"

text \<open>No symbolic link strictly between the root and the end of \<open>cs\<close>.\<close>

definition plain_to :: "fs \<Rightarrow> loc \<Rightarrow> string list \<Rightarrow> bool" where
  "plain_to t r cs \<longleftrightarrow> (\<forall>c \<in> set cs. normal c) \<and> (\<forall>n < length cs. \<not> sym_at t (r @ take n cs))"

definition plain :: "fs \<Rightarrow> loc \<Rightarrow> string list \<Rightarrow> bool" where
  "plain t r cs \<longleftrightarrow> (\<forall>c \<in> set cs. normal c) \<and> (\<forall>n \<le> length cs. \<not> sym_at t (r @ take n cs))"

definition same_outside :: "loc \<Rightarrow> fs \<Rightarrow> fs \<Rightarrow> bool" where
  "same_outside r t t' \<longleftrightarrow> (\<forall>q. \<not> prefix r q \<longrightarrow> look t' q = look t q)"

lemma same_outside_refl [simp, fs_intros]: "same_outside r t t"
  by (simp add: same_outside_def)

lemma same_outside_trans [trans]:
  "same_outside r t u \<Longrightarrow> same_outside r u v \<Longrightarrow> same_outside r t v"
  by (simp add: same_outside_def)

lemma same_outside_put [fs_intros]: "prefix r p \<Longrightarrow> same_outside r t (put t p n)"
  by (auto simp: same_outside_def)

lemma same_outside_drop_tree [fs_intros]: "prefix r p \<Longrightarrow> same_outside r t (drop_tree t p)"
  by (auto simp: same_outside_def dest: prefix_order.trans)

lemma same_outside_drop_below [fs_intros]: "prefix r p \<Longrightarrow> same_outside r t (drop_below t p)"
  by (auto simp: same_outside_def dest: prefix_order.trans prefix_order.less_imp_le)

lemma plain_append_snoc:
  "plain t r cs \<Longrightarrow> normal c \<Longrightarrow> plain_to t r (cs @ [c])"
  by (auto simp: plain_def plain_to_def)

lemma plain_imp_plain_to: "plain t r cs \<Longrightarrow> plain_to t r cs"
  by (auto simp: plain_def plain_to_def)

lemma plain_iff: "plain t r cs \<longleftrightarrow> plain_to t r cs \<and> \<not> sym_at t (r @ cs)"
  by (auto simp: plain_def plain_to_def le_less)

lemma plain_butlast: "plain_to t r (cs @ [c]) \<Longrightarrow> plain t r cs"
  by (auto simp: plain_def plain_to_def)

lemma plain_Nil: "anchored t r \<Longrightarrow> plain t r []"
  by (simp add: plain_def anchored_def)

lemma plain_take: "plain t r cs \<Longrightarrow> plain t r (take n cs)"
  by (auto simp: plain_def min_def dest: in_set_takeD)

lemma anchored_normal: "anchored t r \<Longrightarrow> \<forall>c \<in> set r. normal c"
  by (simp add: anchored_def)

text \<open>Changes outside the proper ancestors of the root, away from links at it, keep it anchored.\<close>

lemma anchored_same_outside:
  assumes "anchored t r" "same_outside r t t'" "\<not> sym_at t' r"
  shows "anchored t' r"
proof -
  have "look t' (take n r) = look t (take n r)" if "n < length r" for n
  proof -
    from that have "\<not> prefix r (take n r)"
      by (auto dest: prefix_length_le)
    with assms(2) show ?thesis by (simp add: same_outside_def)
  qed
  with assms show ?thesis by (simp add: anchored_def dir_at_def)
qed

section \<open>Resolution of plain locations\<close>

lemma walk_dirs:
  assumes "\<forall>c \<in> set q. normal c" "\<forall>n < length q. dir_at t (p @ take n q)"
    "\<forall>n. 0 < n \<and> n \<le> length q \<longrightarrow> look t (p @ take n q) \<noteq> None \<and> \<not> sym_at t (p @ take n q)"
  shows "walk t f l p (q @ cs) = walk t f l (p @ q) cs"
  using assms
proof (induction q arbitrary: p)
  case (Cons c q)
  have c: "normal c" and d: "dir_at t p" using Cons.prems(1) Cons.prems(2) [rule_format, of 0] by auto
  have s: "look t (p @ [c]) \<noteq> None" "\<not> sym_at t (p @ [c])"
    using Cons.prems(3) [rule_format, of 1] by auto
  then obtain n where n: "look t (p @ [c]) = Some n" "\<not> is_sym n"
    by (auto simp: sym_at_def)
  have ih: "walk t f l (p @ [c]) (q @ cs) = walk t f l ((p @ [c]) @ q) cs"
  proof (rule Cons.IH)
    show "\<forall>c \<in> set q. normal c" using Cons.prems(1) by simp
    show "\<forall>n < length q. dir_at t ((p @ [c]) @ take n q)"
      using Cons.prems(2) by (auto dest: spec [of _ "Suc _"])
    show "\<forall>n. 0 < n \<and> n \<le> length q \<longrightarrow>
        look t ((p @ [c]) @ take n q) \<noteq> None \<and> \<not> sym_at t ((p @ [c]) @ take n q)"
      using Cons.prems(3) by (auto dest: spec [of _ "Suc _"])
  qed
  with c d n show ?case by (cases n) (simp_all add: normal_def)
qed simp

lemma dir_at_look: "dir_at t p \<Longrightarrow> look t p \<noteq> None"
  by (auto simp: dir_at_def split: option.splits)

lemma walk_ancestors:
  assumes "\<forall>c \<in> set r. normal c" "\<forall>n \<le> length r. dir_at t (take n r)"
  shows "walk t f l [] (r @ cs) = walk t f l r cs"
  using walk_dirs [of r t "[]" f l cs] assms by (auto dest: dir_at_look dir_not_sym)

text \<open>The walk from a place over names that are not links ends at the place they name,
  or fails with \<open>ENOENT\<close> or \<open>ENOTDIR\<close>.\<close>

lemma walk_plain:
  assumes "\<forall>c \<in> set cs. normal c" "\<forall>n. 0 < n \<and> n < length cs \<longrightarrow> \<not> sym_at t (p @ take n cs)"
    "f \<Longrightarrow> cs \<noteq> [] \<Longrightarrow> \<not> sym_at t (p @ cs)"
  shows "walk t f l p cs \<in> {Inr (p @ cs), Inl ENOENT, Inl ENOTDIR}"
  using assms
proof (induction cs arbitrary: p)
  case (Cons c cs)
  have c: "normal c" using Cons.prems(1) by simp
  show ?case
  proof (cases "\<not> dir_at t p \<or> look t (p @ [c]) = None")
    case True
    with c show ?thesis by (auto simp: normal_def)
  next
    case False
    then obtain n where n: "look t (p @ [c]) = Some n" and d: "dir_at t p" by auto
    show ?thesis
    proof (cases "is_sym n")
      case True
      then have sym: "sym_at t (p @ [c])" using n by (simp add: sym_at_def)
      have e: "cs = []"
      proof (rule ccontr)
        assume "cs \<noteq> []"
        with Cons.prems(2) [rule_format, of 1] sym show False by (cases cs) auto
      qed
      with Cons.prems(3) sym have "\<not> f" by auto
      with e True n d c show ?thesis by (cases n) (auto simp: normal_def)
    next
      case notsym: False
      have "walk t f l (p @ [c]) cs \<in> {Inr ((p @ [c]) @ cs), Inl ENOENT, Inl ENOTDIR}"
      proof (rule Cons.IH)
        show "\<forall>c \<in> set cs. normal c" using Cons.prems(1) by simp
        show "\<forall>n. 0 < n \<and> n < length cs \<longrightarrow> \<not> sym_at t ((p @ [c]) @ take n cs)"
          using Cons.prems(2) by (auto dest: spec [of _ "Suc _"])
        show "f \<Longrightarrow> cs \<noteq> [] \<Longrightarrow> \<not> sym_at t ((p @ [c]) @ cs)" using Cons.prems(3) by auto
      qed
      with notsym n d c show ?thesis by (cases n) (auto simp: normal_def)
    qed
  qed
qed simp

lemma resolve_plain:
  assumes "anchored t r" "plain_to t r cs" "f \<Longrightarrow> \<not> sym_at t (r @ cs)"
  shows "resolve t f (r @ cs) \<in> {Inr (r @ cs), Inl ENOENT, Inl ENOTDIR}"
proof -
  from assms(1) obtain r0 c where r: "r = r0 @ [c]" by (cases r rule: rev_cases) (auto simp: anchored_def)
  have r0: "\<forall>c \<in> set r0. normal c" "\<forall>n \<le> length r0. dir_at t (take n r0)"
    using assms(1) r by (auto simp: anchored_def dest: spec [of _ "_ :: nat"])
  have "resolve t f (r @ cs) = walk t f max_links r0 (c # cs)"
    using walk_ancestors [OF r0, of f max_links "c # cs"] r by (simp add: resolve_def)
  moreover have "walk t f max_links r0 (c # cs) \<in> {Inr (r0 @ c # cs), Inl ENOENT, Inl ENOTDIR}"
  proof (rule walk_plain)
    show "\<forall>x \<in> set (c # cs). normal x" using assms r by (simp add: plain_to_def anchored_def)
    show "\<forall>n. 0 < n \<and> n < length (c # cs) \<longrightarrow> \<not> sym_at t (r0 @ take n (c # cs))"
      using assms(2) r by (auto simp: plain_to_def take_Cons' dest: spec [of _ "_ - 1"])
    show "f \<Longrightarrow> c # cs \<noteq> [] \<Longrightarrow> \<not> sym_at t (r0 @ c # cs)" using assms(3) r by simp
  qed
  ultimately show ?thesis using r by simp
qed

text \<open>When the parent is a directory the location of a new name below it is found for certain.\<close>

lemma resolve_below_dir:
  assumes "\<forall>c \<in> set p. normal c" "\<forall>n \<le> length p. dir_at t (take n p)" "normal c"
    "f \<Longrightarrow> \<not> sym_at t (p @ [c])"
  shows "resolve t f (p @ [c]) = Inr (p @ [c])"
proof -
  have "resolve t f (p @ [c]) = walk t f max_links p [c]"
    unfolding resolve_def using assms(1,2) by (rule walk_ancestors)
  moreover have "dir_at t p" using assms(2) by (metis le_refl take_all)
  ultimately show ?thesis using assms(3,4)
    by (auto simp: normal_def sym_at_def split: option.splits node.splits)
qed


section \<open>Well-formed trees\<close>

text \<open>The root is a directory, every name is a name, and every entry sits in a directory.\<close>

definition tree_ok :: "fs \<Rightarrow> bool" where
  "tree_ok t \<longleftrightarrow>
     dir_at t [] \<and>
     (\<forall>p n. look t p = Some n \<longrightarrow>
        (\<forall>c \<in> set p. normal c) \<and> (p \<noteq> [] \<longrightarrow> dir_at t (butlast p)))"

lemma tree_ok_parent: "tree_ok t \<Longrightarrow> look t p = Some n \<Longrightarrow> p \<noteq> [] \<Longrightarrow> dir_at t (butlast p)"
  by (simp add: tree_ok_def)

lemma tree_ok_normal: "tree_ok t \<Longrightarrow> look t p = Some n \<Longrightarrow> c \<in> set p \<Longrightarrow> normal c"
  by (auto simp: tree_ok_def)

lemma tree_ok_root: "tree_ok t \<Longrightarrow> dir_at t []"
  by (simp add: tree_ok_def)

lemma dir_at_Some: "dir_at t p \<Longrightarrow> \<exists>n. look t p = Some n \<and> is_dir n"
  by (auto simp: dir_at_def split: option.splits)

lemma tree_ok_ancestors:
  "tree_ok t \<Longrightarrow> look t p = Some n \<Longrightarrow> k < length p \<Longrightarrow> dir_at t (take k p)"
proof (induction p arbitrary: n k rule: rev_induct)
  case (snoc c p)
  then have d: "dir_at t p" using tree_ok_parent [of t "p @ [c]" n] by simp
  then obtain n' where n': "look t p = Some n'" by (auto dest: dir_at_Some)
  show ?case
  proof (cases "k = length p")
    case True
    with d show ?thesis by simp
  next
    case False
    with snoc.prems have "k < length p" by simp
    with snoc.IH [OF snoc.prems(1) n'] show ?thesis by simp
  qed
qed simp

lemma resolve_existing:
  assumes "tree_ok t" "look t p = Some n" "f \<Longrightarrow> \<not> is_sym n"
  shows "resolve t f p = Inr p"
proof (cases p rule: rev_cases)
  case Nil
  then show ?thesis by (simp add: resolve_def)
next
  case (snoc q c)
  have d: "dir_at t (take k q)" if "k \<le> length q" for k
    using tree_ok_ancestors [OF assms(1,2), of k] snoc that by simp
  show ?thesis unfolding snoc
  proof (rule resolve_below_dir)
    show "\<forall>c \<in> set q. normal c" "normal c"
      using tree_ok_normal [OF assms(1,2)] snoc by auto
    show "\<forall>n \<le> length q. dir_at t (take n q)" using d by simp
    show "f \<Longrightarrow> \<not> sym_at t (q @ [c])" using assms snoc by (simp add: sym_at_def)
  qed
qed

lemma sym_at_exists: "sym_at t p \<Longrightarrow> \<exists>n. look t p = Some n \<and> is_sym n"
  by (auto simp: sym_at_def split: option.splits)

text \<open>On a plain location \<open>lstat\<close> reports what is there.\<close>

lemma lstat_plain:
  assumes "tree_ok t" "anchored t r" "plain_to t r cs"
  shows "lstat_c t (r @ cs) =
      (case look t (r @ cs) of Some n \<Rightarrow> Inr n | None \<Rightarrow> lstat_c t (r @ cs))"
    and "look t (r @ cs) = None \<Longrightarrow> lstat_c t (r @ cs) \<in> {Inl ENOENT, Inl ENOTDIR}"
proof -
  show "lstat_c t (r @ cs) =
      (case look t (r @ cs) of Some n \<Rightarrow> Inr n | None \<Rightarrow> lstat_c t (r @ cs))"
    using resolve_existing [OF assms(1), of "r @ cs" _ False]
    by (auto simp: lstat_c_def node_at_def split: option.splits)
next
  assume "look t (r @ cs) = None"
  then show "lstat_c t (r @ cs) \<in> {Inl ENOENT, Inl ENOTDIR}"
    using resolve_plain [OF assms(2,3), of False] by (auto simp: lstat_c_def node_at_def)
qed

text \<open>A resolution that ends at a free location ends in a directory, at a proper name.\<close>

lemma walk_free:
  assumes "tree_ok t" "walk t f l cur cs = Inr p" "look t p = None"
    "\<forall>c \<in> set cs. slash \<notin> set c" "look t cur \<noteq> None"
  shows "p \<noteq> [] \<and> dir_at t (butlast p) \<and> (\<forall>c \<in> set p. normal c)"
  using assms
proof (induction t f l cur cs rule: walk.induct)
  case (1 t f l cur)
  then show ?case by simp
next
  case (2 t f l cur c cs)
  show ?case
  proof (cases "dir_at t cur")
    case False
    with "2.prems" show ?thesis by simp
  next
    case d: True
    then obtain n where n: "look t cur = Some n" by (auto dest: dir_at_Some)
    note ok = "2.prems"(1)
    consider (skip) "c = [] \<or> c = ''.''" | (up) "c = ''..''"
      | (name) "\<not> (c = [] \<or> c = ''.'')" "c \<noteq> ''..''" by blast
    then show ?thesis
    proof cases
      case skip
      with d "2.prems" "2.IH"(1) show ?thesis by auto
    next
      case up
      have "look t (butlast cur) \<noteq> None"
      proof (cases "cur = []")
        case True
        with n show ?thesis by simp
      next
        case False
        with tree_ok_parent [OF ok n] show ?thesis by (auto dest: dir_at_Some)
      qed
      with up d "2.prems" "2.IH"(2) show ?thesis by auto
    next
      case name
      then have c: "normal c" using "2.prems"(4) by (simp add: normal_def)
      show ?thesis
      proof (cases "look t (cur @ [c])")
        case None
        with name d "2.prems" have "p = cur @ [c]" by (auto split: if_splits)
        with d c tree_ok_normal [OF ok n] show ?thesis by auto
      next
        case (Some m)
        show ?thesis
        proof (cases "\<exists>target. m = NSym target")
          case True
          then obtain target where m: "m = NSym target" by blast
          show ?thesis
          proof (cases "(cs = [] \<and> \<not> f) \<or> l = 0")
            case True
            with name d Some m "2.prems" show ?thesis by (auto split: if_splits)
          next
            case False
            have s: "\<forall>c \<in> set (split_byte slash target @ cs). slash \<notin> set c"
              using "2.prems"(4) by (auto dest: split_byte_no_sep)
            have e: "look t (if is_abs target then [] else cur) \<noteq> None"
              using n tree_ok_root [OF ok] by (auto dest: dir_at_Some)
            have w: "walk t f (l - 1) (if is_abs target then [] else cur)
                (split_byte slash target @ cs) = Inr p"
              using name d Some m False "2.prems"(2) by (auto split: if_splits)
            show ?thesis
              using "2.IH"(5) [OF _ name Some m] d False ok w "2.prems"(3) s e by blast
          qed
        next
          case False
          with name d Some "2.prems" "2.IH"(3,4,6) show ?thesis by (cases m) auto
        qed
      qed
    qed
  qed
qed

lemma resolve_free:
  assumes "tree_ok t" "resolve t f cs = Inr p" "look t p = None" "\<forall>c \<in> set cs. slash \<notin> set c"
  shows "p \<noteq> [] \<and> dir_at t (butlast p) \<and> (\<forall>c \<in> set p. normal c)"
  using walk_free [of t f max_links "[]" cs p] assms tree_ok_root [OF assms(1)]
  by (auto simp: resolve_def dest: dir_at_Some)

lemma tree_ok_put_new:
  assumes "tree_ok t" "look t p = None" "p \<noteq> [] \<and> dir_at t (butlast p) \<and> (\<forall>c \<in> set p. normal c)"
  shows "tree_ok (put t p n)"
proof -
  have "p \<noteq> butlast p" using assms(3) by (metis append_butlast_last_id not_Cons_self2 self_append_conv)
  moreover have "butlast q \<noteq> p" if "look t q = Some m" "q \<noteq> []" for q m
    using tree_ok_parent [OF assms(1) that] assms(2) by (auto dest: dir_at_Some)
  ultimately show ?thesis using assms by (auto simp: tree_ok_def dir_at_put)
qed

lemma tree_ok_set_mode:
  assumes "tree_ok t" "look t p = Some n"
  shows "tree_ok (put t p (set_mode n m))"
proof -
  have "is_dir (set_mode n m) = is_dir n" by (cases n) (simp_all add: set_mode_def)
  then have "dir_at (put t p (set_mode n m)) q = dir_at t q" for q
    using assms(2) by (simp add: dir_at_put) (simp add: dir_at_def)
  with assms show ?thesis by (auto simp: tree_ok_def)
qed

lemma tree_ok_drop_tree: "tree_ok t \<Longrightarrow> p \<noteq> [] \<Longrightarrow> tree_ok (drop_tree t p)"
proof -
  assume ok: "tree_ok t" and p: "p \<noteq> []"
  have "\<not> prefix p (butlast q)" if "\<not> prefix p q" for q
    using that by (metis append_butlast_last_id butlast.simps(1) prefix_prefix)
  moreover have "dir_at (drop_tree t p) q = dir_at t q" if "\<not> prefix p q" for q
    using that by (simp add: dir_at_def)
  ultimately show ?thesis using ok p by (auto simp: tree_ok_def split: if_splits)
qed

lemma tree_ok_drop_below: "tree_ok t \<Longrightarrow> tree_ok (drop_below t p)"
proof -
  assume ok: "tree_ok t"
  have "\<not> strict_prefix p (butlast q)" if "\<not> strict_prefix p q" for q
    using that by (metis append_butlast_last_id butlast.simps(1) prefix_order.less_le_trans prefixI)
  moreover have "dir_at (drop_below t p) q = dir_at t q" if "\<not> strict_prefix p q" for q
    using that by (simp add: dir_at_def)
  ultimately show ?thesis using ok by (auto simp: tree_ok_def split: if_splits)
qed

lemma tree_ok_at_new:
  "tree_ok t \<Longrightarrow> \<forall>c \<in> set cs. slash \<notin> set c \<Longrightarrow> tree_ok (snd (at_new t cs n))"
  by (auto simp: at_new_def intro!: tree_ok_put_new dest: resolve_free split: sum.splits option.splits)

section \<open>The contract of a resolver\<close>

text \<open>
  What the extractor relies on when it asks for the place of an untrusted path below a root:
  an answer is a plain location below it.
\<close>

locale confined_resolver =
  fixes resolve_in :: "fs \<Rightarrow> string \<Rightarrow> string \<Rightarrow> ('e, string) res"
  assumes resolved_plain:
    "tree_ok t \<Longrightarrow> anchored t r \<Longrightarrow> resolve_in t (abs_path r) s = Inr q \<Longrightarrow>
      \<exists>cs. q = abs_path (r @ cs) \<and> plain t r cs"

end
