(* ===== verification/SecureJoin.thy ===== *)
theory SecureJoin
  imports Containment
begin

text \<open>
  \<open>secureJoin\<close> of \<open>internal/oci/extract.go\<close>, the containment primitive of the extractor, and
  the interface it offers the extractor: a resolver whose result is a plain location below
  the root. The loop is modelled on strings, as the code runs it; the proofs carry the list
  of components those strings spell.
\<close>

section \<open>The function\<close>

text \<open>The errors of the \<open>oci\<close> package, with the wording of the wrapping dropped.\<close>

datatype oci_error =
    Sys errno
  | TooManySymlinks
  | EscapesTarget
  | BadTarHeader errno

definition secure_max_links :: nat where "secure_max_links = 255"

text \<open>\<open>part, path = path[:i], path[i+1:]\<close>, or the whole of \<open>path\<close> and nothing.\<close>

definition next_part :: "string \<Rightarrow> string \<times> string" where
  "next_part path = (case cut_byte slash path of None \<Rightarrow> (path, []) | Some (a, b) \<Rightarrow> (a, b))"

definition parent_of :: "string \<Rightarrow> string" where
  "parent_of resolved =
     (let d = path_dir resolved in if d = ''.'' \<or> d = ''/'' then [] else d)"

lemma next_part_shorter [termination_simp]:
  "path \<noteq> [] \<Longrightarrow> next_part path = (a, b) \<Longrightarrow> length b < length path"
  by (auto simp: next_part_def cut_byte_Some split: option.splits)

function secure_join_loop ::
  "fs \<Rightarrow> string \<Rightarrow> nat \<Rightarrow> string \<Rightarrow> string \<Rightarrow> (oci_error, string) res" where
  "secure_join_loop t root linksWalked resolved path =
     (if path = [] then Inr (path_join [root, resolved])
      else case next_part path of (part, rest) \<Rightarrow>
        if part = [] \<or> part = ''.'' then secure_join_loop t root linksWalked resolved rest
        else if part = ''..'' then secure_join_loop t root linksWalked (parent_of resolved) rest
        else
          (case lstat t (path_join [root, path_join [resolved, part]]) of
             Inl e \<Rightarrow>
               if e = ENOENT
               then secure_join_loop t root linksWalked (path_join [resolved, part]) rest
               else Inl (Sys e)
           | Inr n \<Rightarrow>
               (case link_target n of
                  None \<Rightarrow> secure_join_loop t root linksWalked (path_join [resolved, part]) rest
                | Some dest \<Rightarrow>
                    if linksWalked + 1 > secure_max_links then Inl TooManySymlinks
                    else if is_abs dest
                    then secure_join_loop t root (linksWalked + 1) [] (path_join [dest, rest])
                    else secure_join_loop t root (linksWalked + 1) resolved (path_join [dest, rest]))))"
  by pat_completeness auto
termination
  by (relation "measures [\<lambda>(t, root, l, resolved, path). secure_max_links - l,
                          \<lambda>(t, root, l, resolved, path). length path]")
    (auto dest: next_part_shorter [OF _ sym])

declare secure_join_loop.simps [simp del]

definition secure_join :: "fs \<Rightarrow> string \<Rightarrow> string \<Rightarrow> (oci_error, string) res" where
  "secure_join t root unsafePath = secure_join_loop t root 0 [] unsafePath"

section \<open>Reading the loop on components\<close>

lemma next_part_no_slash: "next_part path = (a, b) \<Longrightarrow> slash \<notin> set a"
  by (auto simp: next_part_def cut_byte_Some split: option.splits)

lemma next_part_comps:
  assumes "next_part path = (a, b)"
  shows "comps path = (if a = [] then comps b else a # comps b)"
proof (cases "cut_byte slash path")
  case None
  with assms have "a = path" "b = []" "slash \<notin> set path" by (simp_all add: next_part_def)
  then show ?thesis by (simp add: comps_component)
next
  case (Some ab)
  with assms have "path = a @ slash # b" "slash \<notin> set a"
    by (auto simp: next_part_def cut_byte_Some)
  then show ?thesis by (simp add: comps_slash_append comps_component)
qed

lemma rel_path_not_special:
  assumes "\<forall>c \<in> set cs. normal c"
  shows "rel_path cs \<noteq> ''.''" "rel_path cs \<noteq> ''/''"
proof -
  have cs: "comps (rel_path cs) = cs" using assms by (rule comps_rel_path_normal)
  show "rel_path cs \<noteq> ''.''"
  proof
    assume "rel_path cs = ''.''"
    with cs have "cs = [''.'']" by (simp add: comps_component)
    with assms show False by (simp add: normal_def)
  qed
  show "rel_path cs \<noteq> ''/''"
  proof
    assume h: "rel_path cs = ''/''"
    with cs have "cs = []" by (simp add: comps_def)
    with h show False by simp
  qed
qed

lemma parent_of_rel:
  assumes "\<forall>c \<in> set cs. normal c"
  shows "parent_of (rel_path cs) = rel_path (butlast cs)"
proof (cases cs rule: rev_cases)
  case Nil
  then show ?thesis by (simp add: parent_of_def dir_Nil)
next
  case (snoc ds d)
  with assms have "path_dir (rel_path cs) = (if ds = [] then ''.'' else rel_path ds)"
    using dir_rel_snoc [of ds d] by simp
  moreover have "rel_path ds \<noteq> ''.''" "rel_path ds \<noteq> ''/''"
    using assms snoc rel_path_not_special [of ds] by simp_all
  ultimately show ?thesis using snoc by (simp add: parent_of_def Let_def)
qed

lemma plain_take_butlast: "plain t r cs \<Longrightarrow> plain t r (butlast cs)"
  by (simp add: butlast_conv_take plain_take)

section \<open>One turn of the loop\<close>

text \<open>The state of the loop, as the proofs carry it.\<close>

definition join_state :: "fs \<Rightarrow> loc \<Rightarrow> string list \<Rightarrow> bool" where
  "join_state t r cs \<longleftrightarrow> tree_ok t \<and> anchored t r \<and> plain t r cs"

lemma join_state_normal:
  assumes "join_state t r cs"
  shows "\<forall>c \<in> set r. normal c" "\<forall>c \<in> set cs. normal c"
  using assms by (simp_all add: join_state_def anchored_def plain_def)

lemma join_state_Nil: "join_state t r cs \<Longrightarrow> join_state t r []"
  by (simp add: join_state_def plain_Nil)

lemma join_state_butlast: "join_state t r cs \<Longrightarrow> join_state t r (butlast cs)"
  by (simp add: join_state_def plain_take_butlast)

lemma join_state_snoc:
  "join_state t r cs \<Longrightarrow> normal c \<Longrightarrow> \<not> sym_at t (r @ cs @ [c]) \<Longrightarrow> join_state t r (cs @ [c])"
  by (simp add: join_state_def plain_iff [of t r "cs @ [c]"] plain_append_snoc)

lemma join_lstat:
  assumes "join_state t r cs" "normal c"
  shows "lstat t (path_join [abs_path r, path_join [rel_path cs, c]]) = lstat_c t (r @ cs @ [c])"
proof -
  note n = join_state_normal [OF assms(1)]
  then have "\<forall>x \<in> set (cs @ [c]). normal x" "\<forall>x \<in> set (r @ cs @ [c]). normal x"
    using assms(2) by auto
  then show ?thesis using join_rel_snoc [OF n(2) assms(2)] join_abs_rel [OF n(1)]
    by (simp add: lstat_def comps_rel_path_normal)
qed

lemma loop_end:
  assumes "join_state t r cs"
  shows "secure_join_loop t (abs_path r) l (rel_path cs) [] = Inr (abs_path (r @ cs))"
  using join_abs_rel [OF join_state_normal [OF assms]] by (subst secure_join_loop.simps) simp

lemma loop_skip:
  "path \<noteq> [] \<Longrightarrow> next_part path = (part, rest) \<Longrightarrow> part = [] \<or> part = ''.'' \<Longrightarrow>
   secure_join_loop t root l res path = secure_join_loop t root l res rest"
  by (subst secure_join_loop.simps) auto

lemma loop_up:
  assumes "path \<noteq> []" "next_part path = (''..'', rest)" "\<forall>c \<in> set cs. normal c"
  shows "secure_join_loop t root l (rel_path cs) path =
    secure_join_loop t root l (rel_path (butlast cs)) rest"
  using assms parent_of_rel [of cs] by (subst secure_join_loop.simps) auto

lemma loop_name:
  assumes "join_state t r cs" "path \<noteq> []" "next_part path = (part, rest)" "normal part"
  shows "secure_join_loop t (abs_path r) l (rel_path cs) path =
    (case lstat_c t (r @ cs @ [part]) of
       Inl e \<Rightarrow> if e = ENOENT
                then secure_join_loop t (abs_path r) l (rel_path (cs @ [part])) rest
                else Inl (Sys e)
     | Inr n \<Rightarrow>
         (case link_target n of
            None \<Rightarrow> secure_join_loop t (abs_path r) l (rel_path (cs @ [part])) rest
          | Some dest \<Rightarrow>
              if l + 1 > secure_max_links then Inl TooManySymlinks
              else secure_join_loop t (abs_path r) (l + 1)
                     (rel_path (if is_abs dest then [] else cs)) (path_join [dest, rest])))"
  using assms normalD [OF assms(4)] join_lstat [OF assms(1,4)]
    join_rel_snoc [OF join_state_normal(2) [OF assms(1)] assms(4)]
  by (subst secure_join_loop.simps) (auto split: sum.splits option.splits)

lemma link_target_sym: "link_target n = None \<longleftrightarrow> \<not> is_sym n"
  by (cases n) auto

text \<open>What \<open>lstat\<close> says of the next name, in terms of the tree.\<close>

lemma join_lstat_cases:
  assumes "join_state t r cs" "normal c"
  obtains (free) "look t (r @ cs @ [c]) = None" "lstat_c t (r @ cs @ [c]) \<in> {Inl ENOENT, Inl ENOTDIR}"
      "join_state t r (cs @ [c])"
    | (here) n where "look t (r @ cs @ [c]) = Some n" "lstat_c t (r @ cs @ [c]) = Inr n"
      "link_target n = None \<Longrightarrow> join_state t r (cs @ [c])"
proof (cases "look t (r @ cs @ [c])")
  case None
  have "plain_to t r (cs @ [c])" using assms by (simp add: join_state_def plain_append_snoc)
  with None lstat_plain(2) [of t r "cs @ [c]"] assms(1)
  have "lstat_c t (r @ cs @ [c]) \<in> {Inl ENOENT, Inl ENOTDIR}" by (simp add: join_state_def)
  moreover have "join_state t r (cs @ [c])"
    using assms None by (intro join_state_snoc) (simp_all add: sym_at_def)
  ultimately show ?thesis by (rule free [OF None])
next
  case (Some n)
  have "lstat_c t (r @ cs @ [c]) = Inr n"
    using resolve_existing [OF _ Some, of False] Some assms(1)
    by (simp add: lstat_c_def node_at_def join_state_def)
  moreover have "join_state t r (cs @ [c])" if "link_target n = None"
    using assms Some that by (intro join_state_snoc) (simp_all add: sym_at_def link_target_sym)
  ultimately show ?thesis by (rule here [OF Some])
qed

section \<open>Containment\<close>

lemma secure_join_loop_plain:
  assumes "join_state t r cs" "secure_join_loop t (abs_path r) l (rel_path cs) path = Inr q"
  shows "\<exists>ds. q = abs_path (r @ ds) \<and> join_state t r ds"
  using assms
proof (induction "(secure_max_links - l, length path)" arbitrary: l cs path
    rule: wf_induct_rule [OF wf_lex_prod [OF wf_less_than wf_less_than]])
  case 1
  note st = "1.prems"(1)
  have ih: ?thesis
    if "secure_join_loop t (abs_path r) l' (rel_path cs') path' = Inr q" "join_state t r cs'"
      "secure_max_links - l' < secure_max_links - l
        \<or> secure_max_links - l' = secure_max_links - l \<and> length path' < length path"
    for l' cs' path'
    using that "1.hyps" [of l' path' cs'] by auto
  show ?case
  proof (cases "path = []")
    case True
    with "1.prems" loop_end [OF st, of l] show ?thesis by auto
  next
    case ne: False
    obtain part rest where np: "next_part path = (part, rest)" by (cases "next_part path")
    note shorter = next_part_shorter [OF ne np]
    consider (skip) "part = [] \<or> part = ''.''" | (up) "part = ''..''" | (name) "normal part"
      using next_part_no_slash [OF np] by (auto simp: normal_def)
    then show ?thesis
    proof cases
      case skip
      with "1.prems"(2) loop_skip [OF ne np] st shorter show ?thesis by (intro ih) auto
    next
      case up
      with "1.prems"(2) loop_up [OF ne _ join_state_normal(2) [OF st]] np
        join_state_butlast [OF st] shorter
      show ?thesis by (intro ih [of l "butlast cs" rest]) auto
    next
      case name
      note eq = "1.prems"(2) [unfolded loop_name [OF st ne np name]]
      from st name show ?thesis
      proof (cases rule: join_lstat_cases)
        case free
        with eq shorter show ?thesis by (intro ih [of l "cs @ [part]" rest]) (auto split: if_splits)
      next
        case (here n)
        show ?thesis
        proof (cases "link_target n")
          case None
          with eq here shorter show ?thesis by (intro ih [of l "cs @ [part]" rest]) simp_all
        next
          case (Some dest)
          with eq here st join_state_Nil [OF st] show ?thesis
            by (intro ih [of "l + 1" "if is_abs dest then [] else cs" "path_join [dest, rest]"])
              (auto split: if_splits)
        qed
      qed
    qed
  qed
qed


lemma secure_join_plain:
  assumes "tree_ok t" "anchored t r" "secure_join t (abs_path r) s = Inr q"
  shows "\<exists>cs. q = abs_path (r @ cs) \<and> plain t r cs"
  using secure_join_loop_plain [of t r "[]" 0 s q] assms
  by (auto simp: secure_join_def join_state_def plain_Nil)

interpretation sj: confined_resolver secure_join
  by unfold_locales (rule secure_join_plain)

section \<open>A path without links is taken literally\<close>

lemma next_part_rel_path:
  assumes "\<forall>x \<in> set (c # cs). normal x"
  shows "next_part (rel_path (c # cs)) = (c, rel_path cs)"
proof (cases cs)
  case Nil
  with assms show ?thesis by (simp add: next_part_def normal_def)
next
  case (Cons d ds)
  moreover from assms have "slash \<notin> set c" by (simp add: normal_def)
  ultimately have "cut_byte slash (rel_path (c # cs)) = Some (c, rel_path cs)"
    by (simp add: cut_byte_Some)
  then show ?thesis by (simp add: next_part_def)
qed

end
