(* ===== verification/Confined.thy ===== *)
theory Confined
  imports SecureJoin
begin

text \<open>
  The effect of each system call on a plain location, and the contract between the resolver
  and the extractor: a resolver whose results are plain locations below the root confines
  every operation the extractor performs there.
\<close>

section \<open>Confinement\<close>

text \<open>
  \<open>confined modes r t t'\<close>: the step from \<open>t\<close> to \<open>t'\<close> leaves the tree well-formed, the root
  anchored, and everything outside the root as it was; with \<open>modes\<close>, the permission bits of
  directories outside it excepted.
\<close>

definition outside_kept :: "bool \<Rightarrow> loc \<Rightarrow> fs \<Rightarrow> fs \<Rightarrow> bool" where
  "outside_kept modes r t t' \<longleftrightarrow>
     (\<forall>q. \<not> prefix r q \<longrightarrow> look t' q = look t q \<or> modes \<and> dir_at t q \<and> dir_at t' q)"

definition confined :: "bool \<Rightarrow> loc \<Rightarrow> fs \<Rightarrow> fs \<Rightarrow> bool" where
  "confined modes r t t' \<longleftrightarrow>
     outside_kept modes r t t' \<and> (tree_ok t \<and> anchored t r \<longrightarrow> tree_ok t' \<and> anchored t' r)"

lemma outside_kept_refl [simp]: "outside_kept b r t t"
  by (simp add: outside_kept_def)

lemma outside_kept_trans:
  "outside_kept b r t u \<Longrightarrow> outside_kept b r u v \<Longrightarrow> outside_kept b r t v"
  unfolding outside_kept_def by (metis dir_at_def)

lemma confined_refl [simp, fs_intros]: "confined b r t t"
  by (simp add: confined_def)

lemma confined_trans [trans]: "confined b r t u \<Longrightarrow> confined b r u v \<Longrightarrow> confined b r t v"
  by (auto simp: confined_def intro: outside_kept_trans)

lemma confined_ok: "confined b r t t' \<Longrightarrow> tree_ok t \<Longrightarrow> anchored t r \<Longrightarrow> tree_ok t' \<and> anchored t' r"
  by (simp add: confined_def)

lemma outside_kept_same: "same_outside r t t' \<Longrightarrow> outside_kept b r t t'"
  by (simp add: outside_kept_def same_outside_def)

lemma confined_weaken: "confined False r t t' \<Longrightarrow> confined b r t t'"
  by (auto simp: confined_def outside_kept_def)

lemma confinedI:
  assumes "same_outside r t t'" "tree_ok t \<Longrightarrow> anchored t r \<Longrightarrow> tree_ok t'"
    "tree_ok t \<Longrightarrow> anchored t r \<Longrightarrow> \<not> sym_at t' r"
  shows "confined b r t t'"
  using assms anchored_same_outside [of t r t'] by (auto simp: confined_def outside_kept_same)

section \<open>System calls on plain locations\<close>

lemma anchored_nonempty: "anchored t r \<Longrightarrow> r \<noteq> []"
  by (simp add: anchored_def)

lemma anchored_not_sym: "anchored t r \<Longrightarrow> \<not> sym_at t r"
  by (simp add: anchored_def)

lemma sym_at_drop_tree: "sym_at (drop_tree t p) q \<Longrightarrow> sym_at t q"
  by (auto simp: sym_at_def split: if_splits)

lemma sym_at_drop_below: "sym_at (drop_below t p) q \<Longrightarrow> sym_at t q"
  by (auto simp: sym_at_def split: if_splits)

lemma confined_put_new:
  assumes "look t (r @ cs) = None" "is_sym n \<Longrightarrow> cs \<noteq> []"
    "r @ cs \<noteq> [] \<and> dir_at t (butlast (r @ cs)) \<and> (\<forall>c \<in> set (r @ cs). normal c)"
  shows "confined b r t (put t (r @ cs) n)"
proof (rule confinedI)
  show "same_outside r t (put t (r @ cs) n)" by (rule same_outside_put) simp
  show "tree_ok (put t (r @ cs) n)" if "tree_ok t" using that assms(1,3) by (rule tree_ok_put_new)
  show "\<not> sym_at (put t (r @ cs) n) r" if "anchored t r"
    using that assms(2) by (auto simp: sym_at_put anchored_not_sym)
qed

lemma slash_free: "\<forall>c \<in> set cs. normal c \<Longrightarrow> \<forall>c \<in> set cs. slash \<notin> set c"
  by (simp add: normal_def)

lemma confined_at_new:
  assumes "tree_ok t" "anchored t r" "plain_to t r cs" "is_sym n \<Longrightarrow> cs \<noteq> []"
  shows "confined b r t (snd (at_new t (r @ cs) n))"
proof -
  have nm: "\<forall>c \<in> set (r @ cs). normal c" using assms by (auto simp: anchored_def plain_to_def)
  consider (err) e where "resolve t False (r @ cs) = Inl e" | (ok) "resolve t False (r @ cs) = Inr (r @ cs)"
    using resolve_plain [OF assms(2,3), of False] by auto
  then show ?thesis
  proof cases
    case err
    then show ?thesis by (simp add: at_new_def)
  next
    case ok
    show ?thesis
    proof (cases "look t (r @ cs)")
      case None
      with ok resolve_free [OF assms(1) ok None slash_free [OF nm]] assms(4)
      show ?thesis by (simp add: at_new_def confined_put_new)
    qed (use ok in \<open>simp add: at_new_def\<close>)
  qed
qed

lemma confined_drop_tree:
  assumes "r \<noteq> []"
  shows "confined b r t (drop_tree t (r @ cs))"
  using assms
  by (intro confinedI) (auto intro: same_outside_drop_tree tree_ok_drop_tree
      dest: sym_at_drop_tree anchored_not_sym)

lemma confined_remove_all:
  assumes "anchored t r" "plain_to t r cs"
  shows "confined b r t (snd (remove_all_c t (r @ cs)))"
  using resolve_plain [OF assms, of False] anchored_nonempty [OF assms(1)]
  by (auto simp: remove_all_c_def intro: confined_drop_tree)

lemma confined_set_mode:
  assumes "look t (r @ cs) = Some n"
  shows "confined b r t (put t (r @ cs) (set_mode n m))"
proof (rule confinedI)
  show "same_outside r t (put t (r @ cs) (set_mode n m))" by (rule same_outside_put) simp
  show "tree_ok (put t (r @ cs) (set_mode n m))" if "tree_ok t"
    using that assms by (rule tree_ok_set_mode)
  have "is_sym (set_mode n m) = is_sym n" by (cases n) (simp_all add: set_mode_def)
  then show "\<not> sym_at (put t (r @ cs) (set_mode n m)) r" if "anchored t r"
    using that assms by (auto simp: sym_at_put anchored_def sym_at_def)
qed

text \<open>\<open>chmod\<close> on a plain location that is not a link stays inside; wherever it lands, on a
  directory it changes nothing but permission bits.\<close>

lemma confined_chmod:
  assumes "anchored t r" "plain_to t r cs" "\<not> sym_at t (r @ cs)"
  shows "confined b r t (snd (sys_chmod t (r @ cs) m))"
  using resolve_plain [OF assms(1,2), of True] assms(3)
  by (auto simp: sys_chmod_def intro: confined_set_mode split: option.splits)

lemma confined_chmod_dir:
  assumes "resolve t True cs = Inr p" "dir_at t p"
  shows "confined True r t (snd (sys_chmod t cs m))"
proof -
  obtain m0 where n: "look t p = Some (NDir m0)"
    using assms(2) by (auto dest!: dir_at_Some elim!: is_dir.elims)
  let ?t = "put t p (NDir m)"
  have e: "snd (sys_chmod t cs m) = ?t" using assms n by (simp add: sys_chmod_def set_mode_def)
  have d: "dir_at ?t q = dir_at t q" "sym_at ?t q = sym_at t q" for q
    using n by (auto simp: dir_at_put sym_at_put) (auto simp: dir_at_def sym_at_def)
  have "outside_kept True r t ?t" using n assms(2) by (auto simp: outside_kept_def d)
  moreover have "tree_ok ?t" if "tree_ok t"
    using tree_ok_set_mode [OF that n, of m] by (simp add: set_mode_def)
  moreover have "anchored ?t r" if "anchored t r" using that by (simp add: anchored_def d)
  ultimately show ?thesis by (simp add: confined_def e)
qed


section \<open>\<open>os.MkdirAll\<close>\<close>

text \<open>It adds directories and touches nothing that exists.\<close>

definition grows :: "fs \<Rightarrow> fs \<Rightarrow> bool" where
  "grows t t' \<longleftrightarrow> (\<forall>q. look t' q = look t q \<or> look t q = None \<and> dir_at t' q)"

lemma grows_refl [simp]: "grows t t"
  by (simp add: grows_def)

lemma grows_trans: "grows t u \<Longrightarrow> grows u v \<Longrightarrow> grows t v"
  unfolding grows_def by (metis dir_at_def)

lemma grows_mkdir: "grows t (snd (sys_mkdir t cs m))"
  by (auto simp: sys_mkdir_def at_new_def grows_def dir_at_put split: sum.splits option.splits)

lemma grows_sym: "grows t t' \<Longrightarrow> sym_at t' q = sym_at t q"
  unfolding grows_def by (metis dir_not_sym sym_at_def option.simps(4))

lemma grows_plain: "grows t t' \<Longrightarrow> plain t' r cs = plain t r cs"
  by (simp add: plain_def grows_sym)

lemma grows_plain_to: "grows t t' \<Longrightarrow> plain_to t' r cs = plain_to t r cs"
  by (simp add: plain_to_def grows_sym)

lemma grows_look: "grows t t' \<Longrightarrow> look t q = Some n \<Longrightarrow> look t' q = Some n"
  by (auto simp: grows_def dest: spec [of _ q])

lemma grows_dir: "grows t t' \<Longrightarrow> dir_at t q \<Longrightarrow> dir_at t' q"
  by (auto simp: dir_at_def dest: grows_look split: option.splits)

lemma grows_mkdir_all: "grows t (snd (mkdir_all_c t cs m))"
proof (induction t cs m rule: mkdir_all_c.induct)
  case (1 t cs m)
  let ?up = "if length cs \<le> 1 then (None, t) else mkdir_all_c t (butlast cs) m"
  show ?case
  proof (cases "stat_c t cs")
    case (Inr n)
    then show ?thesis by (subst mkdir_all_c.simps) simp
  next
    case (Inl e0)
    have up: "grows t (snd ?up)" using "1.IH" [OF Inl] by auto
    have "snd (mkdir_all_c t cs m) \<in> {snd ?up, snd (sys_mkdir (snd ?up) cs m)}"
      using Inl by (subst mkdir_all_c.simps) (auto split: prod.splits option.splits sum.splits)
    with up grows_trans [OF up grows_mkdir] show ?thesis by auto
  qed
qed

lemma stat_dir: "tree_ok t \<Longrightarrow> dir_at t p \<Longrightarrow> \<exists>n. stat_c t p = Inr n \<and> is_dir n"
  using resolve_existing [of t p _ True]
  by (auto dest!: dir_at_Some simp: stat_c_def node_at_def elim!: is_dir.elims)

lemma mkdir_all_existing: "tree_ok t \<Longrightarrow> dir_at t p \<Longrightarrow> mkdir_all_c t p m = (None, t)"
  by (subst mkdir_all_c.simps) (auto dest!: stat_dir)

lemma lstat_dir: "tree_ok t \<Longrightarrow> lstat_c t p = Inr n \<Longrightarrow> is_dir n \<Longrightarrow> plain_to t r cs \<Longrightarrow>
    anchored t r \<Longrightarrow> p = r @ cs \<Longrightarrow> dir_at t p"
  using resolve_plain [of t r cs False]
  by (auto simp: lstat_c_def node_at_def dir_at_def split: option.splits)

lemma mkdir_made:
  assumes "tree_ok t" "anchored t r" "plain t r cs" "sys_mkdir t (r @ cs) m = (None, t')"
  shows "dir_at t' (r @ cs)"
  using resolve_plain [OF assms(2) plain_imp_plain_to [OF assms(3)], of False] assms(4)
  by (auto simp: sys_mkdir_def at_new_def dir_at_put split: option.splits)

lemma stat_plain_dir:
  assumes "anchored t r" "plain t r cs" "stat_c t (r @ cs) = Inr n"
  shows "look t (r @ cs) = Some n"
  using resolve_plain [OF assms(1) plain_imp_plain_to [OF assms(2)], of True] assms(2,3)
  by (auto simp: stat_c_def node_at_def plain_iff split: option.splits)

text \<open>One level: the directory itself, once its parent has been dealt with.\<close>

lemma mkdir_all_level:
  assumes "tree_ok t" "anchored t r" "plain t r cs"
    "confined b r t t1" "grows t t1"
    "(if length (r @ cs) \<le> 1 then (None, t) else mkdir_all_c t (butlast (r @ cs)) m) = (e1, t1)"
    "mkdir_all_c t (r @ cs) m = (e, t')"
  shows "confined b r t t' \<and> (e = None \<longrightarrow> dir_at t' (r @ cs))"
proof (cases "stat_c t (r @ cs)")
  case (Inr n)
  with stat_plain_dir [OF assms(2,3) Inr] assms(7) show ?thesis
    by (subst (asm) mkdir_all_c.simps) (auto simp: dir_at_def split: if_splits)
next
  case (Inl e0)
  have st: "tree_ok t1" "anchored t1 r" "plain t1 r cs"
    using assms confined_ok [OF assms(4,1,2)] by (simp_all add: grows_plain)
  note pt = plain_imp_plain_to [OF st(3)]
  have cm: "confined b r t (snd (sys_mkdir t1 (r @ cs) m))"
    using assms(4) confined_at_new [OF st(1,2) pt, of "NDir (masked m)" b]
    by (auto simp: sys_mkdir_def intro: confined_trans)
  obtain e2 t2 where mk: "sys_mkdir t1 (r @ cs) m = (e2, t2)" by (cases "sys_mkdir t1 (r @ cs) m")
  have g: "grows t1 t2" using grows_mkdir [of t1 "r @ cs" m] mk by simp
  have st2: "tree_ok t2" "anchored t2 r" "plain_to t2 r cs"
    using cm mk confined_ok [OF _ assms(1,2)] pt g by (simp_all add: grows_plain_to)
  show ?thesis
  proof (cases e1)
    case (Some x)
    with assms(4,6,7) Inl show ?thesis by (auto simp: mkdir_all_c.simps [of t "r @ cs" m])
  next
    case None
    with assms(6,7) Inl mk have "t' = t2 \<and> (e = None \<longrightarrow> e2 = None \<or>
        (\<exists>n. lstat_c t2 (r @ cs) = Inr n \<and> is_dir n))"
      by (auto simp: mkdir_all_c.simps [of t "r @ cs" m] split: option.splits sum.splits if_splits)
    with cm mk mkdir_made [OF st] lstat_dir [OF st2(1) _ _ st2(3,2)] show ?thesis by auto
  qed
qed

lemma mkdir_all_plain:
  assumes "tree_ok t" "anchored t r" "plain t r cs" "mkdir_all_c t (r @ cs) m = (e, t')"
  shows "confined b r t t' \<and> (e = None \<longrightarrow> dir_at t' (r @ cs))"
  using assms
proof (induction cs arbitrary: e t' rule: rev_induct)
  case Nil
  have "dir_at t (butlast r)" if "length r > 1"
    using Nil.prems(2) that by (simp add: anchored_def butlast_conv_take)
  then have "(if length (r @ []) \<le> 1 then (None, t) else mkdir_all_c t (butlast (r @ [])) m) = (None, t)"
    using mkdir_all_existing [OF Nil.prems(1)] by simp
  from mkdir_all_level [OF Nil.prems(1-3) _ _ this Nil.prems(4)] show ?case by simp
next
  case (snoc c cs)
  obtain e1 t1 where up: "mkdir_all_c t (r @ cs) m = (e1, t1)" by (cases "mkdir_all_c t (r @ cs) m")
  have pl: "plain t r cs" using plain_take [OF snoc.prems(3), of "length cs"] by simp
  have c: "confined b r t t1" using snoc.IH [OF snoc.prems(1,2) pl up] by simp
  have g: "grows t t1" using grows_mkdir_all [of t "r @ cs" m] up by simp
  have "r \<noteq> []" using snoc.prems(2) by (rule anchored_nonempty)
  then have "(if length (r @ cs @ [c]) \<le> 1 then (None, t)
      else mkdir_all_c t (butlast (r @ cs @ [c])) m) = (e1, t1)"
    using up by (cases r) (simp_all add: butlast_append)
  from mkdir_all_level [OF snoc.prems(1-3) c g this snoc.prems(4)] show ?case .
qed

end
