(* ===== verification/Extract.thy ===== *)
theory Extract
  imports Confined
begin

text \<open>
  The tar extractor of \<open>internal/oci/extract.go\<close>, with \<open>makeDevice\<close> of \<open>device.go\<close>: one
  definition per function, one for the body of the loop, and one for the switch over the
  entry types. A tar stream is the list of what \<open>tar.Reader.Next\<close> hands back; the end of the
  list is \<open>io.EOF\<close>.
\<close>

section \<open>Entries\<close>

datatype typeflag =
    TypeReg | TypeRegA | TypeLink | TypeSymlink | TypeChar | TypeBlock | TypeDir | TypeFifo
  | TypeXGlobalHeader | TypeXHeader | TypeOther char

text \<open>The header fields the extractor reads. \<open>Mode\<close> and the device numbers are \<open>int64\<close>.\<close>

record tar_entry =
  Name :: string
  Typeflag :: typeflag
  Linkname :: string
  Mode :: u64
  Devmajor :: u64
  Devminor :: u64
  body :: string
  body_err :: "errno option" \<comment> \<open>an error while copying, after \<open>body\<close>\<close>

datatype tar_item = TarEntry tar_entry | TarError errno

type_synonym step_outcome = "oci_error option \<times> fs"

definition whiteoutPrefix :: string where "whiteoutPrefix = ''.wh.''"
definition whiteoutOpaque :: string where "whiteoutOpaque = ''.wh..wh..opq''"

section \<open>Helpers\<close>

definition sys_err :: "outcome \<Rightarrow> step_outcome" where
  "sys_err out = (map_option Sys (fst out), snd out)"

definition ensure_dir :: "fs \<Rightarrow> string \<Rightarrow> step_outcome" where
  "ensure_dir t dir = (if dir = [] then (None, t) else sys_err (mkdir_all t dir 0x1ED))"

definition chmod_entry :: "fs \<Rightarrow> string \<Rightarrow> tar_entry \<Rightarrow> step_outcome" where
  "chmod_entry t target h = sys_err (sys_chmod t (comps target) (ucast (Mode h)))"

fun remove_each :: "fs \<Rightarrow> string \<Rightarrow> string list \<Rightarrow> outcome" where
  "remove_each t dir [] = (None, t)"
| "remove_each t dir (name # names) =
     (case remove_all t (path_join [dir, name]) of
        (Some e, t1) \<Rightarrow> (Some e, t1)
      | (None, t1) \<Rightarrow> remove_each t1 dir names)"

definition clear_dir_contents :: "fs \<Rightarrow> string \<Rightarrow> outcome" where
  "clear_dir_contents t dir =
     (case read_dir t dir of Inl e \<Rightarrow> (Some e, t) | Inr names \<Rightarrow> remove_each t dir names)"

definition make_device :: "fs \<Rightarrow> string \<Rightarrow> tar_entry \<Rightarrow> outcome" where
  "make_device t target h =
     (let node = (\<lambda>k. sys_mknod t (comps target) k (ucast (Mode h AND 0x1FF))
                        (ucast (Devmajor h)) (ucast (Devminor h)))
      in case Typeflag h of
           TypeChar \<Rightarrow> node CharDev
         | TypeBlock \<Rightarrow> node BlockDev
         | TypeFifo \<Rightarrow> node Fifo
         | _ \<Rightarrow> (Some EINVAL, t))"

section \<open>One entry\<close>

definition extract_dir :: "fs \<Rightarrow> string \<Rightarrow> tar_entry \<Rightarrow> step_outcome" where
  "extract_dir t target h =
     (case mkdir_all t target 0x1ED of
        (Some e, t1) \<Rightarrow> (Some (Sys e), t1)
      | (None, t1) \<Rightarrow> chmod_entry t1 target h)"

definition extract_file :: "fs \<Rightarrow> string \<Rightarrow> tar_entry \<Rightarrow> step_outcome" where
  "extract_file t target h =
     (let t1 = snd (remove_all t target)
      in case create_excl t1 (comps target) 0x180 (body h) of
           (Some e, t2) \<Rightarrow> (Some (Sys e), t2)
         | (None, t2) \<Rightarrow>
             (case body_err h of
                Some e \<Rightarrow> (Some (Sys e), t2)
              | None \<Rightarrow> chmod_entry t2 target h))"

definition extract_symlink :: "fs \<Rightarrow> string \<Rightarrow> tar_entry \<Rightarrow> step_outcome" where
  "extract_symlink t target h =
     sys_err (sys_symlink (snd (remove_all t target)) (Linkname h) (comps target))"

definition extract_link :: "fs \<Rightarrow> string \<Rightarrow> string \<Rightarrow> tar_entry \<Rightarrow> step_outcome" where
  "extract_link t targetDir target h =
     (let t1 = snd (remove_all t target)
      in case secure_join t1 targetDir (Linkname h) of
           Inl e \<Rightarrow> (Some e, t1)
         | Inr source \<Rightarrow> sys_err (sys_link t1 (comps source) (comps target)))"

definition write_entry :: "fs \<Rightarrow> string \<Rightarrow> string \<Rightarrow> tar_entry \<Rightarrow> step_outcome" where
  "write_entry t targetDir target h =
     (case Typeflag h of
        TypeDir \<Rightarrow> extract_dir t target h
      | TypeReg \<Rightarrow> extract_file t target h
      | TypeRegA \<Rightarrow> extract_file t target h
      | TypeSymlink \<Rightarrow> extract_symlink t target h
      | TypeLink \<Rightarrow> extract_link t targetDir target h
      | TypeChar \<Rightarrow> (None, snd (make_device t target h))
      | TypeBlock \<Rightarrow> (None, snd (make_device t target h))
      | TypeFifo \<Rightarrow> (None, snd (make_device t target h))
      | TypeXGlobalHeader \<Rightarrow> (None, t)
      | TypeXHeader \<Rightarrow> (None, t)
      | TypeOther _ \<Rightarrow> (None, t))"

definition escapes :: "string \<Rightarrow> bool" where
  "escapes name = (name = ''..'' \<or> has_prefix name ''../'' \<or> contains name ''/../'')"

definition entry_name :: "tar_entry \<Rightarrow> string" where
  "entry_name h = trim_prefix (trim_prefix (clean (Name h)) ''/'') ''./''"

definition extract_opaque :: "fs \<Rightarrow> string \<Rightarrow> step_outcome" where
  "extract_opaque t parent =
     (case clear_dir_contents t parent of
        (Some e, t1) \<Rightarrow> if e = ENOENT then (None, t1) else (Some (Sys e), t1)
      | (None, t1) \<Rightarrow> (None, t1))"

definition extract_entry :: "fs \<Rightarrow> string \<Rightarrow> tar_entry \<Rightarrow> step_outcome" where
  "extract_entry t targetDir h =
     (if clean (Name h) = ''.'' \<or> clean (Name h) = ''/'' then (None, t)
      else if escapes (entry_name h) then (Some EscapesTarget, t)
      else case path_split (entry_name h) of (dir, base) \<Rightarrow>
        (case secure_join t targetDir (trim_suffix dir ''/'') of
           Inl e \<Rightarrow> (Some e, t)
         | Inr parent \<Rightarrow>
             if base = whiteoutOpaque then extract_opaque t parent
             else if has_prefix base whiteoutPrefix
             then sys_err (remove_all t (path_join [parent, trim_prefix base whiteoutPrefix]))
             else (case ensure_dir t parent of
                     (Some e, t1) \<Rightarrow> (Some e, t1)
                   | (None, t1) \<Rightarrow> write_entry t1 targetDir (path_join [parent, base]) h)))"

section \<open>The loop\<close>

fun extract_tar :: "fs \<Rightarrow> string \<Rightarrow> tar_item list \<Rightarrow> step_outcome" where
  "extract_tar t targetDir [] = (None, t)"
| "extract_tar t targetDir (TarError e # items) = (Some (BadTarHeader e), t)"
| "extract_tar t targetDir (TarEntry h # items) =
     (case extract_entry t targetDir h of
        (Some e, t1) \<Rightarrow> (Some e, t1)
      | (None, t1) \<Rightarrow> extract_tar t1 targetDir items)"

text \<open>\<open>ExtractImage\<close>: the layers of the image in order; \<open>layers\<close> is what the image library
  hands back, each an error or the stream of the uncompressed layer.\<close>

fun extract_layers :: "fs \<Rightarrow> string \<Rightarrow> (errno, tar_item list) res list \<Rightarrow> step_outcome" where
  "extract_layers t targetDir [] = (None, t)"
| "extract_layers t targetDir (Inl e # ls) = (Some (Sys e), t)"
| "extract_layers t targetDir (Inr items # ls) =
     (case extract_tar t targetDir items of
        (Some e, t1) \<Rightarrow> (Some e, t1)
      | (None, t1) \<Rightarrow> extract_layers t1 targetDir ls)"

definition extract_image ::
  "fs \<Rightarrow> (errno, (errno, tar_item list) res list) res \<Rightarrow> string \<Rightarrow> step_outcome" where
  "extract_image t layers targetDir =
     (case ensure_dir t targetDir of
        (Some e, t1) \<Rightarrow> (Some e, t1)
      | (None, t1) \<Rightarrow>
          (case layers of
             Inl e \<Rightarrow> (Some (Sys e), t1)
           | Inr ls \<Rightarrow> extract_layers t1 targetDir ls))"

text \<open>\<open>ExtractTarball\<close>. The gzip and tar readers are parameters: \<open>untar_gz\<close> opens the gzip
  stream, which fails on a bad gzip header, and hands back the entries in it; \<open>untar\<close> reads a
  plain archive. \<open>dev_bytes\<close> is what a device node, opened as the archive, would give.\<close>

definition gzip_magic :: string where "gzip_magic = [CHR 0x1F, CHR 0x8B]"

definition file_bytes :: "string \<Rightarrow> node \<Rightarrow> string" where
  "file_bytes dev_bytes n = (case n of NFile _ content \<Rightarrow> content | _ \<Rightarrow> dev_bytes)"

definition extract_tarball ::
  "fs \<Rightarrow> (string \<Rightarrow> (errno, tar_item list) res) \<Rightarrow> (string \<Rightarrow> tar_item list) \<Rightarrow> string \<Rightarrow>
   string \<Rightarrow> string \<Rightarrow> step_outcome" where
  "extract_tarball t untar_gz untar dev_bytes path targetDir =
     (case ensure_dir t targetDir of
        (Some e, t1) \<Rightarrow> (Some e, t1)
      | (None, t1) \<Rightarrow>
          (case stat t1 path of
             Inl e \<Rightarrow> (Some (Sys e), t1)
           | Inr n \<Rightarrow>
               if is_dir n then (Some (BadTarHeader EISDIR), t1)
               else let bytes = file_bytes dev_bytes n
                    in if take 2 bytes = gzip_magic
                       then (case untar_gz bytes of
                               Inl e \<Rightarrow> (Some (Sys e), t1)
                             | Inr items \<Rightarrow> extract_tar t1 targetDir items)
                       else extract_tar t1 targetDir (untar bytes)))"

end
