(* ===== verification/ExtractProofs.thy ===== *)
theory ExtractProofs
  imports Extract
begin

text \<open>
  What extraction guarantees: the shape of the names it works on, confinement of every
  operation of an entry to the directory being extracted into, the two ways out that remain,
  and the functional effect of each kind of entry.
\<close>

section \<open>The names the loop works on\<close>

text \<open>Cleaning a relative name leaves some leading \<open>..\<close> and then proper names.\<close>

lemma clean_step_relative:
  assumes "slash \<notin> set c" "out = rev ns @ replicate k ''..''" "\<forall>d \<in> set ns. normal d"
  shows "\<exists>k' ns'. clean_step False out c = rev ns' @ replicate k' ''..'' \<and> (\<forall>d \<in> set ns'. normal d)"
proof -
  consider (skip) "c = [] \<or> c = ''.''" | (up) "c = ''..''" | (name) "normal c"
    using assms(1) by (auto simp: normal_def)
  then show ?thesis
  proof cases
    case skip
    with assms show ?thesis by (auto simp: clean_step_skip)
  next
    case name
    with assms have "clean_step False out c = rev (ns @ [c]) @ replicate k ''..''"
      by (simp add: clean_step_normal)
    moreover have "\<forall>d \<in> set (ns @ [c]). normal d" using assms(3) name by simp
    ultimately show ?thesis by blast
  next
    case up
    show ?thesis
    proof (cases ns rule: rev_cases)
      case Nil
      then have "clean_step False out c = rev [] @ replicate (Suc k) ''..''"
        using up assms(2) by (cases k) (simp_all add: clean_step_def)
      then show ?thesis by (metis empty_iff list.set(1))
    next
      case (snoc ms m)
      with assms(3) have "m \<noteq> ''..''" "\<forall>d \<in> set ms. normal d" by (auto simp: normal_def)
      with up assms(2) snoc show ?thesis by (auto simp: clean_step_def)
    qed
  qed
qed

lemma foldl_clean_rel:
  assumes "\<forall>c \<in> set cs. slash \<notin> set c" "\<forall>d \<in> set ns. normal d"
  shows "\<exists>k' ns'. foldl (clean_step False) (rev ns @ replicate k ''..'') cs
      = rev ns' @ replicate k' ''..'' \<and> (\<forall>d \<in> set ns'. normal d)"
  using assms
proof (induction cs arbitrary: ns k)
  case Nil
  then show ?case by auto
next
  case (Cons c cs)
  obtain k' ns' where s: "clean_step False (rev ns @ replicate k ''..'') c = rev ns' @ replicate k' ''..''"
      "\<forall>d \<in> set ns'. normal d"
    using clean_step_relative [of c _ ns k] Cons.prems by auto
  with Cons.IH [of ns' k'] Cons.prems show ?case by simp
qed

lemma clean_shape:
  obtains (dot) "clean s = ''.''"
    | (root) "clean s = ''/''"
    | (abs) cs where "clean s = abs_path cs" "cs \<noteq> []" "\<forall>c \<in> set cs. normal c"
    | (rel) cs where "clean s = rel_path cs" "cs \<noteq> []" "\<forall>c \<in> set cs. normal c"
    | (up) cs where "clean s = rel_path (''..'' # cs)"
proof -
  note cases = that
  show thesis
  proof (cases "is_abs s")
    case True
    then obtain u where u: "s = slash # u" by (auto simp: is_abs_iff)
    have n: "\<forall>c \<in> set (norm_comps (comps u)). normal c"
      by (rule norm_comps_normal) (auto dest: comps_members)
    show thesis
    proof (cases "norm_comps (comps u) = []")
      case True
      with u cases(2) show thesis by (simp add: clean_abs)
    next
      case False
      with u n cases(3) show thesis by (simp add: clean_abs)
    qed
  next
    case False
    obtain k ns where f: "foldl (clean_step False) [] (split_byte slash s) = rev ns @ replicate k ''..''"
        and n: "\<forall>d \<in> set ns. normal d"
      using foldl_clean_rel [of "split_byte slash s" "[]" 0] by (auto dest: split_byte_no_sep)
    then have out: "rev (foldl (clean_step False) [] (split_byte slash s)) = replicate k ''..'' @ ns"
      by simp
    show thesis
    proof (cases k)
      case 0
      show thesis
      proof (cases "ns = []")
        case True
        with 0 out False cases(1) show thesis by (cases "s = []") (simp_all add: clean_def)
      next
        case ne: False
        with 0 out False n cases(4) [of ns] cases(1) show thesis
          by (cases "s = []") (simp_all add: clean_def)
      qed
    next
      case (Suc j)
      with out False cases(5) [of "replicate j ''..'' @ ns"] cases(1) show thesis
        by (cases "s = []") (simp_all add: clean_def)
    qed
  qed
qed

lemma rel_path_up_escapes: "escapes (rel_path (''..'' # cs))"
  by (cases cs) (auto simp: escapes_def has_prefix_def)

lemma trim_prefix_rel:
  assumes "cs \<noteq> []" "\<forall>c \<in> set cs. normal c"
  shows "trim_prefix (rel_path cs) ''/'' = rel_path cs" "trim_prefix (rel_path cs) ''./'' = rel_path cs"
proof -
  have "\<not> is_abs (rel_path cs)" using assms by (simp add: rel_path_not_abs)
  then show "trim_prefix (rel_path cs) ''/'' = rel_path cs"
    by (simp add: trim_prefix_def is_abs_def)
  have "\<not> has_prefix (rel_path cs) ''./''"
  proof
    assume "has_prefix (rel_path cs) ''./''"
    then obtain u where "rel_path cs = ''.'' @ slash # u" by (auto simp: has_prefix_def prefix_def)
    then have "comps (rel_path cs) = ''.'' # comps u"
      by (simp only: comps_slash_append) (simp add: comps_component)
    then have "cs = ''.'' # comps u" by (simp only: comps_rel_path_normal [OF assms(2)])
    then have "normal ''.''" using assms(2) by (metis list.set_intros(1))
    then show False by (simp add: normal_def)
  qed
  then show "trim_prefix (rel_path cs) ''./'' = rel_path cs" by (simp add: trim_prefix_def)
qed

lemma entry_name_cases:
  obtains (skip) "clean (Name h) = ''.'' \<or> clean (Name h) = ''/''"
    | (bad) "\<not> (clean (Name h) = ''.'' \<or> clean (Name h) = ''/'')" "escapes (entry_name h)"
    | (good) ds b where "\<not> (clean (Name h) = ''.'' \<or> clean (Name h) = ''/'')" "\<not> escapes (entry_name h)"
        "entry_name h = rel_path (ds @ [b])" "\<forall>c \<in> set ds. normal c" "normal b"
proof (cases "clean (Name h) = ''.'' \<or> clean (Name h) = ''/''")
  case True
  then show ?thesis by (rule skip)
next
  case ns: False
  show ?thesis
  proof (cases "escapes (entry_name h)")
    case True
    with ns show ?thesis by (rule bad)
  next
    case ne: False
    have "\<exists>cs. entry_name h = rel_path cs \<and> cs \<noteq> [] \<and> (\<forall>c \<in> set cs. normal c)"
    proof (cases "Name h" rule: clean_shape)
      case (abs cs)
      have "trim_prefix (abs_path cs) ''/'' = rel_path cs"
        using trim_prefix_append [of "''/''"] by simp
      with abs trim_prefix_rel [OF abs(2,3)] show ?thesis by (auto simp: entry_name_def)
    next
      case (rel cs)
      with trim_prefix_rel [OF rel(2,3)] show ?thesis by (auto simp: entry_name_def)
    next
      case (up cs)
      have "trim_prefix (trim_prefix (rel_path (''..'' # cs)) ''/'') ''./'' = rel_path (''..'' # cs)"
        by (cases cs) (simp_all add: trim_prefix_def has_prefix_def)
      with up ne rel_path_up_escapes show ?thesis by (simp add: entry_name_def)
    qed (use ns in auto)
    then obtain cs where cs: "entry_name h = rel_path cs" "cs \<noteq> []" "\<forall>c \<in> set cs. normal c" by blast
    then show ?thesis using good [OF ns ne, of "butlast cs" "last cs"]
      by (auto dest: in_set_butlastD)
  qed
qed

lemma entry_split:
  assumes "\<forall>c \<in> set ds. normal c" "normal b"
  shows "path_split (rel_path (ds @ [b])) = ((if ds = [] then [] else rel_path ds @ [slash]), b)"
    and "trim_suffix (if ds = [] then [] else rel_path ds @ [slash]) ''/'' = rel_path ds"
  using path_split_snoc [OF normalD(4) [OF assms(2)]]
  by (auto simp: trim_suffix_def has_suffix_def)

section \<open>Emptying a directory\<close>

lemma child_names_normal: "tree_ok t \<Longrightarrow> c \<in> set (child_names t p) \<Longrightarrow> normal c"
proof -
  assume ok: "tree_ok t" and "c \<in> set (child_names t p)"
  then obtain q n where q: "(q, n) \<in> set t" "q \<noteq> []" "c = last q" by (auto simp: child_names_def)
  then obtain m where "look t q = Some m" by (metis option.exhaust map_of_eq_None_iff fst_conv image_eqI)
  from tree_ok_normal [OF ok this] q show "normal c" by simp
qed

lemma plain_drop_tree: "plain t r cs \<Longrightarrow> plain (drop_tree t p) r cs"
  by (auto simp: plain_def dest: sym_at_drop_tree)

lemma plain_drop_below: "plain t r cs \<Longrightarrow> plain (drop_below t p) r cs"
  by (auto simp: plain_def dest: sym_at_drop_below)

lemma plain_remove_all: "plain t r cs \<Longrightarrow> plain (snd (remove_all_c t p)) r cs"
  by (auto simp: remove_all_c_def plain_drop_tree plain_drop_below split: sum.splits)

lemma comps_target:
  assumes "anchored t r" "plain t r cs" "normal b"
  shows "comps (path_join [abs_path (r @ cs), b]) = r @ cs @ [b]"
    and "comps (abs_path (r @ cs)) = r @ cs"
proof -
  have n: "\<forall>c \<in> set (r @ cs). normal c" "\<forall>c \<in> set (r @ cs @ [b]). normal c"
    using assms by (auto simp: anchored_def plain_def)
  from join_abs_comp [OF n(1) assms(3)] n(2)
  show "comps (path_join [abs_path (r @ cs), b]) = r @ cs @ [b]" by (simp add: comps_rel_path_normal)
  from n(1) show "comps (abs_path (r @ cs)) = r @ cs" by (simp add: comps_rel_path_normal)
qed

lemma confined_remove_each:
  assumes "tree_ok t" "anchored t r" "plain t r cs" "\<forall>c \<in> set names. normal c"
  shows "confined b r t (snd (remove_each t (abs_path (r @ cs)) names))"
  using assms
proof (induction names arbitrary: t)
  case (Cons c names)
  have "remove_all t (path_join [abs_path (r @ cs), c]) = remove_all_c t (r @ cs @ [c])"
    using comps_target(1) [of t r cs c] Cons.prems by (simp add: remove_all_def)
  moreover obtain e t1 where rm: "remove_all_c t (r @ cs @ [c]) = (e, t1)"
    by (cases "remove_all_c t (r @ cs @ [c])")
  moreover have c1: "confined b r t t1"
    using confined_remove_all [of t r "cs @ [c]" b] Cons.prems rm by (simp add: plain_append_snoc)
  moreover have "plain t1 r cs" using plain_remove_all [OF Cons.prems(3), of "r @ cs @ [c]"] rm by simp
  ultimately show ?case
    using Cons.IH [of t1] Cons.prems confined_ok [OF c1]
    by (auto intro: confined_trans split: option.splits)
qed simp

section \<open>Operations at the answer of a resolver\<close>

text \<open>The client side of the contract: whatever the resolver, what is done at its answers, or at
  one name below them, is confined.\<close>

context confined_resolver
begin

lemma remove_below:
  assumes "tree_ok t" "anchored t r" "resolve_in t (abs_path r) s = Inr q" "normal c"
  shows "confined b r t (snd (remove_all t (path_join [q, c])))"
proof -
  obtain cs where q: "q = abs_path (r @ cs)" "plain t r cs" using resolved_plain [OF assms(1-3)] by auto
  then show ?thesis
    using comps_target(1) [OF assms(2) q(2) assms(4)] confined_remove_all [of t r "cs @ [c]" b]
      assms(2,4) by (simp add: remove_all_def plain_append_snoc)
qed

lemma remove_answer:
  assumes "tree_ok t" "anchored t r" "resolve_in t (abs_path r) s = Inr q"
  shows "confined b r t (snd (remove_all t q))"
proof -
  obtain cs where q: "q = abs_path (r @ cs)" "plain t r cs" using resolved_plain [OF assms] by auto
  have "comps q = r @ cs"
    using q anchored_normal [OF assms(2)] comps_rel_path_normal [of "r @ cs"] by (auto simp: plain_def)
  then show ?thesis
    using confined_remove_all [OF assms(2) plain_imp_plain_to [OF q(2)], of b]
    by (simp add: remove_all_def)
qed

lemma clear_answer:
  assumes "tree_ok t" "anchored t r" "resolve_in t (abs_path r) s = Inr q"
  shows "confined b r t (snd (clear_dir_contents t q))"
proof -
  obtain cs where q: "q = abs_path (r @ cs)" "plain t r cs" using resolved_plain [OF assms] by auto
  show ?thesis
  proof (cases "read_dir t q")
    case (Inr names)
    then have "\<forall>c \<in> set names. normal c"
      by (auto simp: read_dir_def read_dir_c_def bind_res_eq_Inr child_names_normal [OF assms(1)]
          split: option.splits if_splits)
    with Inr confined_remove_each [OF assms(1,2) q(2)] q(1) show ?thesis
      by (simp add: clear_dir_contents_def)
  qed (simp add: clear_dir_contents_def)
qed

lemma mkdir_answer:
  assumes "tree_ok t" "anchored t r" "resolve_in t (abs_path r) s = Inr q"
    "mkdir_all t q m = (e, t')"
  shows "confined b r t t'"
    and "\<exists>cs. q = abs_path (r @ cs) \<and> plain t' r cs \<and> (e = None \<longrightarrow> dir_at t' (r @ cs))"
proof -
  obtain cs where q: "q = abs_path (r @ cs)" "plain t r cs" using resolved_plain [OF assms(1-3)] by auto
  have cq: "comps q = r @ cs"
    using q anchored_normal [OF assms(2)] comps_rel_path_normal [of "r @ cs"] by (auto simp: plain_def)
  then have mk: "mkdir_all_c t (r @ cs) m = (e, t')" using assms(4) by (simp add: mkdir_all_def)
  note post = mkdir_all_plain [OF assms(1,2) q(2) mk]
  show "confined b r t t'" using post by simp
  have "plain t' r cs" using grows_mkdir_all [of t "r @ cs" m] mk q(2) by (simp add: grows_plain)
  with q(1) post show "\<exists>cs. q = abs_path (r @ cs) \<and> plain t' r cs \<and> (e = None \<longrightarrow> dir_at t' (r @ cs))"
    by blast
qed

end

section \<open>Confinement of one entry\<close>

lemma join_nothing:
  assumes "\<forall>c \<in> set rs. normal c"
  shows "path_join [abs_path rs, []] = abs_path rs" "path_join [abs_path rs, ''.''] = abs_path rs"
  using join_abs_rel [OF assms, of "[]"] assms
  by (simp_all add: join_abs_any comps_rel_path_normal comps_component norm_comps_def
      foldl_clean_normal clean_step_skip)

lemma confined_whiteout:
  assumes "tree_ok t" "anchored t r" "secure_join t (abs_path r) s = Inr q" "normal b"
    "has_prefix b whiteoutPrefix" "b \<noteq> ''.wh...''"
  shows "confined m r t (snd (remove_all t (path_join [q, trim_prefix b whiteoutPrefix])))"
proof -
  obtain w where w: "b = whiteoutPrefix @ w" using assms(5) by (auto simp: has_prefix_def prefix_def)
  have "w \<noteq> ''..''" using w assms(6) by (auto simp: whiteoutPrefix_def)
  moreover have "slash \<notin> set w" using w assms(4) by (auto simp: normal_def)
  ultimately consider "w = [] \<or> w = ''.''" | "normal w" by (auto simp: normal_def)
  then show ?thesis
  proof cases
    case 1
    obtain cs where q: "q = abs_path (r @ cs)" "plain t r cs"
      using secure_join_plain [OF assms(1-3)] by blast
    then have "\<forall>c \<in> set (r @ cs). normal c" using assms(2) by (auto simp: anchored_def plain_def)
    from 1 join_nothing [OF this] q(1) w sj.remove_answer [OF assms(1-3), of m]
    show ?thesis by auto
  next
    case 2
    with w sj.remove_below [OF assms(1-3) 2, of m] show ?thesis by simp
  qed
qed

lemma at_new_made:
  assumes "anchored t r" "plain_to t r cs" "at_new t (r @ cs) n = (None, t')"
  shows "t' = put t (r @ cs) n"
  using resolve_plain [OF assms(1,2), of False] assms(3)
  by (auto simp: at_new_def split: option.splits)

lemma plain_to_put_end: "plain_to t r cs \<Longrightarrow> plain_to (put t (r @ cs) n) r cs"
  by (auto simp: plain_to_def sym_at_put)

text \<open>The place an entry is written to: one name below a plain directory.\<close>

definition entry_place :: "fs \<Rightarrow> loc \<Rightarrow> string list \<Rightarrow> string \<Rightarrow> bool" where
  "entry_place t r cs b \<longleftrightarrow> tree_ok t \<and> anchored t r \<and> plain t r cs \<and> normal b"

lemma entry_place_to: "entry_place t r cs b \<Longrightarrow> plain_to t r (cs @ [b])"
  by (simp add: entry_place_def plain_append_snoc)

lemma entry_place_removed:
  assumes "entry_place t r cs b"
  shows "entry_place (snd (remove_all_c t (r @ cs @ [b]))) r cs b"
    and "confined m r t (snd (remove_all_c t (r @ cs @ [b])))"
proof -
  show c: "confined m r t (snd (remove_all_c t (r @ cs @ [b])))" for m
    using assms confined_remove_all [OF _ entry_place_to [OF assms], of m] by (simp add: entry_place_def)
  from confined_ok [OF c] assms show "entry_place (snd (remove_all_c t (r @ cs @ [b]))) r cs b"
    by (simp add: entry_place_def plain_remove_all)
qed

lemma confined_create:
  assumes "entry_place t r cs b"
  shows "confined m r t (snd (at_new t (r @ cs @ [b]) n))"
  using assms confined_at_new [OF _ _ entry_place_to [OF assms], of n m] by (simp add: entry_place_def)

lemma confined_chmod_new:
  assumes "entry_place t r cs b" "at_new t (r @ cs @ [b]) n = (None, t')" "\<not> is_sym n"
  shows "confined m r t' (snd (sys_chmod t' (r @ cs @ [b]) mode))"
proof -
  note pt = entry_place_to [OF assms(1)]
  have t': "t' = put t (r @ cs @ [b]) n"
    using at_new_made [OF _ pt] assms(1,2) by (simp add: entry_place_def)
  have "anchored t' r"
    using confined_ok [OF confined_create [OF assms(1), of False n]] assms(1,2) by (simp add: entry_place_def)
  with confined_chmod [of t' r "cs @ [b]" m mode] plain_to_put_end [OF pt] assms(3)
  show ?thesis by (simp add: t' sym_at_put)
qed

lemma confined_file:
  assumes "entry_place t r cs b" "comps target = r @ cs @ [b]"
  shows "confined m r t (snd (extract_file t target h))"
proof -
  let ?t1 = "snd (remove_all_c t (r @ cs @ [b]))"
  note p1 = entry_place_removed [OF assms(1)]
  obtain e t2 where n: "at_new ?t1 (r @ cs @ [b]) (NFile (masked 0x180) (body h)) = (e, t2)"
    by (cases "at_new ?t1 (r @ cs @ [b]) (NFile (masked 0x180) (body h))")
  have c2: "confined m r t t2"
    using confined_trans [OF p1(2) confined_create [OF p1(1)]] n by (metis snd_conv)
  show ?thesis
  proof (cases e)
    case None
    have "confined m r t2 (snd (sys_chmod t2 (r @ cs @ [b]) (ucast (Mode h))))"
      using confined_chmod_new [OF p1(1)] n None by simp
    with c2 n None assms(2) show ?thesis
      by (auto simp: extract_file_def remove_all_def create_excl_def chmod_entry_def sys_err_def
          Let_def intro: confined_trans split: option.splits)
  qed (use c2 n assms(2) in \<open>simp add: extract_file_def remove_all_def create_excl_def Let_def\<close>)
qed

lemma confined_symlink:
  assumes "entry_place t r cs b" "comps target = r @ cs @ [b]"
  shows "confined m r t (snd (extract_symlink t target h))"
  using entry_place_removed [OF assms(1)] assms(2)
  by (auto simp: extract_symlink_def sys_err_def sys_symlink_def remove_all_def
      intro: confined_trans confined_create)

lemma confined_link:
  assumes "entry_place t r cs b" "comps target = r @ cs @ [b]"
  shows "confined m r t (snd (extract_link t root target h))"
  using entry_place_removed [OF assms(1)] assms(2)
  by (auto simp: extract_link_def sys_err_def sys_link_def remove_all_def Let_def
      intro: confined_trans confined_create split: sum.splits)

lemma confined_device:
  assumes "entry_place t r cs b" "comps target = r @ cs @ [b]"
  shows "confined m r t (snd (make_device t target h))"
  using assms by (auto simp: make_device_def sys_mknod_def Let_def intro: confined_create
      split: typeflag.splits)

text \<open>A directory entry over a symbolic link makes nothing: it succeeds only if the link leads
  to a directory, wherever that is.\<close>

lemma mkdir_all_over_link:
  assumes "entry_place t r cs b" "dir_at t (r @ cs)" "sym_at t (r @ cs @ [b])"
    "mkdir_all_c t (r @ cs @ [b]) m = (e, t')"
  shows "t' = t \<and> (e = None \<longrightarrow> (\<exists>p. resolve t True (r @ cs @ [b]) = Inr p \<and> dir_at t p))"
proof -
  have ok: "tree_ok t" using assms(1) by (simp add: entry_place_def)
  obtain n where n: "look t (r @ cs @ [b]) = Some n" "is_sym n" using assms(3) by (auto dest: sym_at_exists)
  have nd: "\<not> is_dir n" using n(2) by (cases n) auto
  have ls: "resolve t False (r @ cs @ [b]) = Inr (r @ cs @ [b])" using resolve_existing [OF ok n(1)] by simp
  have up: "mkdir_all_c t (butlast (r @ cs @ [b])) m = (None, t)"
    using mkdir_all_existing [OF ok assms(2)] by (simp add: butlast_append)
  have mk: "sys_mkdir t (r @ cs @ [b]) m = (Some EEXIST, t)"
    using ls n(1) by (simp add: sys_mkdir_def at_new_def)
  show ?thesis
  proof (cases "stat_c t (r @ cs @ [b])")
    case (Inr n')
    with assms(4) show ?thesis
      by (auto simp: mkdir_all_c.simps [of t "r @ cs @ [b]" m] stat_c_def node_at_def bind_res_eq_Inr
          dir_at_def split: option.splits if_splits)
  next
    case (Inl e0)
    with assms(4) up mk ls n(1) nd show ?thesis
      by (auto simp: mkdir_all_c.simps [of t "r @ cs @ [b]" m] lstat_c_def node_at_def split: if_splits)
  qed
qed

lemma confined_dir:
  assumes "entry_place t r cs b" "comps target = r @ cs @ [b]" "dir_at t (r @ cs)"
    "m \<or> \<not> sym_at t (r @ cs @ [b])"
  shows "confined m r t (snd (extract_dir t target h))"
proof -
  obtain e t1 where mk: "mkdir_all_c t (r @ cs @ [b]) 0x1ED = (e, t1)"
    by (cases "mkdir_all_c t (r @ cs @ [b]) 0x1ED")
  have x: "snd (extract_dir t target h) =
      (if e = None then snd (sys_chmod t1 (r @ cs @ [b]) (ucast (Mode h))) else t1)"
    using mk assms(2)
    by (simp add: extract_dir_def mkdir_all_def chmod_entry_def sys_err_def split: option.splits)
  show ?thesis
  proof (cases "sym_at t (r @ cs @ [b])")
    case True
    with mkdir_all_over_link [OF assms(1,3) True mk] assms(4) show ?thesis
      by (auto simp: x intro: confined_chmod_dir)
  next
    case False
    have pl: "plain t r (cs @ [b])"
      using entry_place_to [OF assms(1)] False by (simp add: plain_iff)
    have c: "confined m r t t1" and d: "e = None \<longrightarrow> dir_at t1 (r @ cs @ [b])" for m
      using mkdir_all_plain [OF _ _ pl mk] assms(1) by (auto simp: entry_place_def)
    have "grows t t1" using grows_mkdir_all [of t "r @ cs @ [b]" "0x1ED"] mk by simp
    then have "plain_to t1 r (cs @ [b])" using entry_place_to [OF assms(1)] by (simp add: grows_plain_to)
    moreover have "anchored t1 r" using confined_ok [OF c] assms(1) by (simp add: entry_place_def)
    ultimately have "e = None \<Longrightarrow> confined m r t1 (snd (sys_chmod t1 (r @ cs @ [b]) (ucast (Mode h))))"
      using d dir_not_sym confined_chmod [of t1 r "cs @ [b]" m] by simp
    with c show ?thesis by (auto simp: x intro: confined_trans)
  qed
qed

lemma confined_write_entry:
  assumes "entry_place t r cs b" "comps target = r @ cs @ [b]" "dir_at t (r @ cs)"
    "m \<or> \<not> (Typeflag h = TypeDir \<and> sym_at t (r @ cs @ [b]))"
  shows "confined m r t (snd (write_entry t root target h))"
  using assms confined_dir [OF assms(1-3)]
  by (auto simp: write_entry_def confined_file confined_symlink confined_link confined_device
      split: typeflag.split)

section \<open>Confinement of a whole archive\<close>

text \<open>The one entry name whose whiteout names the parent of its directory.\<close>

definition parent_whiteout :: "tar_entry \<Rightarrow> bool" where
  "parent_whiteout h = (snd (path_split (entry_name h)) = ''.wh...'')"

text \<open>A directory entry whose place is taken by a symbolic link, below the directory its parent
  path resolves to.\<close>

definition dir_over_link :: "fs \<Rightarrow> string \<Rightarrow> tar_entry \<Rightarrow> bool" where
  "dir_over_link t root h =
     (Typeflag h = TypeDir \<and>
      (case path_split (entry_name h) of (dir, base) \<Rightarrow>
        (case secure_join t root (trim_suffix dir ''/'') of
           Inl _ \<Rightarrow> False
         | Inr parent \<Rightarrow> sym_at t (comps (path_join [parent, base])))))"

lemma confined_opaque:
  assumes "tree_ok t" "anchored t r" "secure_join t (abs_path r) s = Inr q"
  shows "confined m r t (snd (extract_opaque t q))"
  using sj.clear_answer [OF assms, of m]
  by (auto simp: extract_opaque_def split: prod.splits option.splits)

lemma confined_ordinary:
  assumes "tree_ok t" "anchored t r" "secure_join t (abs_path r) s = Inr q" "normal b"
    "m \<or> \<not> (Typeflag h = TypeDir \<and> sym_at t (comps (path_join [q, b])))"
  shows "confined m r t (snd (case ensure_dir t q of (Some e, t1) \<Rightarrow> (Some e, t1)
      | (None, t1) \<Rightarrow> write_entry t1 (abs_path r) (path_join [q, b]) h))"
proof -
  obtain cs where q: "q = abs_path (r @ cs)" "plain t r cs"
    using secure_join_plain [OF assms(1-3)] by blast
  obtain e t1 where mk: "mkdir_all t q 0x1ED = (e, t1)" by (cases "mkdir_all t q 0x1ED")
  have c: "confined b' r t t1" for b' using sj.mkdir_answer(1) [OF assms(1-3) mk] .
  obtain cs' where q': "q = abs_path (r @ cs')" "plain t1 r cs'" "e = None \<longrightarrow> dir_at t1 (r @ cs')"
    using sj.mkdir_answer(2) [OF assms(1-3) mk] by blast
  have ok1: "tree_ok t1" "anchored t1 r" using confined_ok [OF c assms(1,2)] by simp_all
  have pl: "entry_place t1 r cs' b" using ok1 q'(2) assms(4) by (simp add: entry_place_def)
  have tg: "comps (path_join [q, b]) = r @ cs' @ [b]"
    using comps_target(1) [OF ok1(2) q'(2) assms(4)] q'(1) by simp
  have "grows t t1"
    using grows_mkdir_all [of t "comps q" "0x1ED"] mk by (simp add: mkdir_all_def)
  then have "sym_at t1 (r @ cs' @ [b]) = sym_at t (r @ cs' @ [b])" by (rule grows_sym)
  with assms(5) tg have "m \<or> \<not> (Typeflag h = TypeDir \<and> sym_at t1 (r @ cs' @ [b]))" by simp
  with confined_write_entry [OF pl tg] q'(3)
  have "e = None \<Longrightarrow> confined m r t1 (snd (write_entry t1 (abs_path r) (path_join [q, b]) h))" by simp
  with c mk q(1) show ?thesis
    by (auto simp: ensure_dir_def sys_err_def intro: confined_trans split: option.splits)
qed

lemma confined_entry:
  assumes "tree_ok t" "anchored t r" "\<not> parent_whiteout h"
    "m \<or> \<not> dir_over_link t (abs_path r) h"
  shows "confined m r t (snd (extract_entry t (abs_path r) h))"
proof (cases h rule: entry_name_cases)
  case skip
  then show ?thesis by (simp add: extract_entry_def)
next
  case bad
  then show ?thesis by (auto simp: extract_entry_def)
next
  case (good ds b)
  note sp = entry_split [OF good(4,5)]
  have b: "b \<noteq> ''.wh...''" using assms(3) good(3) sp(1) by (simp add: parent_whiteout_def)
  show ?thesis
  proof (cases "secure_join t (abs_path r) (rel_path ds)")
    case (Inl e)
    with good(1-3) sp show ?thesis by (simp add: extract_entry_def)
  next
    case (Inr q)
    have m: "m \<or> \<not> (Typeflag h = TypeDir \<and> sym_at t (comps (path_join [q, b])))"
      using assms(4) good(3) sp Inr by (simp add: dir_over_link_def)
    show ?thesis
      using good(1-3) sp Inr confined_opaque [OF assms(1,2) Inr, of m]
        confined_whiteout [OF assms(1,2) Inr good(5) _ b, of m]
        confined_ordinary [OF assms(1,2) Inr good(5) m]
      by (simp add: extract_entry_def sys_err_def)
  qed
qed

fun no_dir_over_link :: "fs \<Rightarrow> string \<Rightarrow> tar_item list \<Rightarrow> bool" where
  "no_dir_over_link t root [] = True"
| "no_dir_over_link t root (TarError e # items) = True"
| "no_dir_over_link t root (TarEntry h # items) =
     (\<not> dir_over_link t root h \<and>
      (case extract_entry t root h of (Some _, _) \<Rightarrow> True | (None, t1) \<Rightarrow> no_dir_over_link t1 root items))"

lemma confined_tar:
  assumes "tree_ok t" "anchored t r" "\<forall>h. TarEntry h \<in> set items \<longrightarrow> \<not> parent_whiteout h"
    "m \<or> no_dir_over_link t (abs_path r) items"
  shows "confined m r t (snd (extract_tar t (abs_path r) items))"
  using assms
proof (induction t "abs_path r" items rule: extract_tar.induct)
  case (3 t h items)
  obtain e t1 where x: "extract_entry t (abs_path r) h = (e, t1)" by (cases "extract_entry t (abs_path r) h")
  have nw: "\<not> parent_whiteout h" "\<forall>h. TarEntry h \<in> set items \<longrightarrow> \<not> parent_whiteout h"
    using "3.prems"(3) by auto
  have nd: "m \<or> \<not> dir_over_link t (abs_path r) h"
    "e = None \<Longrightarrow> m \<or> no_dir_over_link t1 (abs_path r) items"
    using "3.prems"(4) x by auto
  have c: "confined m r t t1"
    using confined_entry [OF "3.prems"(1,2) nw(1) nd(1)] x by simp
  show ?case
  proof (cases e)
    case None
    have "confined m r t1 (snd (extract_tar t1 (abs_path r) items))"
      using "3.hyps" [OF x [symmetric] None] confined_ok [OF c "3.prems"(1,2)] nw(2) nd(2) None
      by blast
    with c x None show ?thesis by (auto intro: confined_trans)
  qed (use c x in simp)
qed simp_all

end
