(* ===== verification/ExtractEffects.thy ===== *)
theory ExtractEffects
  imports ExtractProofs
begin

text \<open>
  The functional effect of one entry whose parent directory exists and is reached without
  symbolic links: what is there afterwards, and that nothing else changed. The properties of
  extraction are stated at the end, over these facts and the confinement facts.
\<close>

section \<open>Resolution in a link-free directory\<close>

lemma tree_ok_take: "tree_ok t \<Longrightarrow> dir_at t p \<Longrightarrow> dir_at t (take n p)"
  by (cases "n < length p") (auto dest!: dir_at_Some dest: tree_ok_ancestors)

lemma tree_ok_names: "tree_ok t \<Longrightarrow> dir_at t p \<Longrightarrow> \<forall>c \<in> set p. normal c"
  by (auto dest!: dir_at_Some dest: tree_ok_normal)

lemma dir_plain:
  assumes "tree_ok t" "dir_at t (r @ ds)"
  shows "plain t r ds"
proof -
  have "dir_at t (r @ take n ds)" for n
    using tree_ok_take [OF assms, of "length r + n"] by simp
  then show ?thesis using tree_ok_names [OF assms] by (auto simp: plain_def dest: dir_not_sym)
qed

lemma dir_anchored: "tree_ok t \<Longrightarrow> dir_at t r \<Longrightarrow> r \<noteq> [] \<Longrightarrow> anchored t r"
  using tree_ok_take [of t r] tree_ok_names [of t r] by (auto simp: anchored_def dest: dir_not_sym)

lemma loop_dirs:
  assumes "tree_ok t" "anchored t r" "dir_at t (r @ cs @ ds)"
  shows "secure_join_loop t (abs_path r) l (rel_path cs) (rel_path ds) = Inr (abs_path (r @ cs @ ds))"
  using assms
proof (induction ds arbitrary: cs)
  case Nil
  then have "join_state t r cs" by (simp add: join_state_def dir_plain)
  then show ?case by (simp add: loop_end)
next
  case (Cons d ds)
  have n: "\<forall>c \<in> set (d # ds). normal c" using tree_ok_names [OF Cons.prems(1,3)] by auto
  have "dir_at t (r @ cs)" "dir_at t (r @ cs @ [d])"
    using tree_ok_take [OF Cons.prems(1,3), of "length r + length cs"]
      tree_ok_take [OF Cons.prems(1,3), of "length r + length cs + 1"] by simp_all
  then have st: "join_state t r cs" and "lstat_c t (r @ cs @ [d]) = Inr n \<Longrightarrow> link_target n = None"
      and "\<exists>n. look t (r @ cs @ [d]) = Some n \<and> is_dir n" for n
    using Cons.prems(1,2) dir_plain [of t r cs]
    by (auto simp: join_state_def dir_at_Some)
       (use resolve_existing [of t "r @ cs @ [d]" _ False] in
         \<open>auto simp: lstat_c_def node_at_def dest!: dir_at_Some elim!: is_dir.elims split: option.splits\<close>)
  then obtain n where nd: "look t (r @ cs @ [d]) = Some n" "is_dir n" by blast
  have ls: "lstat_c t (r @ cs @ [d]) = Inr n"
    using resolve_existing [OF Cons.prems(1) nd(1), of False] nd(1) by (simp add: lstat_c_def node_at_def)
  have "link_target n = None" using nd(2) by (cases n) auto
  moreover have "rel_path (d # ds) \<noteq> []" using n rel_path_eq_Nil by blast
  ultimately show ?case
    using loop_name [OF st _ next_part_rel_path [OF n]] n ls Cons.IH [of "cs @ [d]"] Cons.prems by simp
qed

lemma secure_join_dir:
  "tree_ok t \<Longrightarrow> anchored t r \<Longrightarrow> dir_at t (r @ ds) \<Longrightarrow>
    secure_join t (abs_path r) (rel_path ds) = Inr (abs_path (r @ ds))"
  using loop_dirs [of t r "[]" ds 0] by (simp add: secure_join_def)

text \<open>The setting of the effect lemmas: an entry named \<open>ds/b\<close> below an existing directory.\<close>

definition entry_at :: "fs \<Rightarrow> loc \<Rightarrow> string list \<Rightarrow> string \<Rightarrow> tar_entry \<Rightarrow> bool" where
  "entry_at t r ds b h \<longleftrightarrow>
     tree_ok t \<and> r \<noteq> [] \<and> dir_at t (r @ ds) \<and> Name h = rel_path (ds @ [b]) \<and> normal b"

lemma entry_atD:
  assumes "entry_at t r ds b h"
  shows "tree_ok t" "anchored t r" "dir_at t (r @ ds)" "entry_place t r ds b"
    "\<forall>c \<in> set (ds @ [b]). normal c" "normal b"
proof -
  show ok: "tree_ok t" "dir_at t (r @ ds)" "normal b" using assms by (simp_all add: entry_at_def)
  then have "dir_at t r" using tree_ok_take [of t "r @ ds" "length r"] by simp
  then show an: "anchored t r" using assms by (auto simp: entry_at_def intro: dir_anchored)
  show "entry_place t r ds b" using ok an dir_plain [OF ok(1,2)] by (simp add: entry_place_def)
  show "\<forall>c \<in> set (ds @ [b]). normal c" using tree_ok_names [OF ok(1,2)] ok(3) by auto
qed

lemma not_escapes_normal:
  assumes "\<forall>c \<in> set cs. normal c" "cs \<noteq> []"
  shows "\<not> escapes (rel_path cs)"
proof -
  have c: "comps (rel_path cs) = cs" using assms(1) by (rule comps_rel_path_normal)
  have up: "''..'' \<notin> set cs" using assms(1) by (auto simp: normal_def)
  have "''..'' \<in> set (comps s)" if "contains s ''/../''" for s
  proof -
    from that obtain u v where "s = u @ slash # (''..'' @ slash # v)" by (auto simp: contains_iff)
    then have "comps s = comps u @ comps ''..'' @ comps v" by (simp only: comps_slash_append)
    then show ?thesis by (simp add: comps_component)
  qed
  moreover have "''..'' \<in> set (comps s)" if "has_prefix s ''../''" for s
  proof -
    from that obtain v where "s = ''..'' @ slash # v" by (auto simp: has_prefix_def prefix_def)
    then have "comps s = comps ''..'' @ comps v" by (simp only: comps_slash_append)
    then show ?thesis by (simp add: comps_component)
  qed
  moreover have "rel_path cs \<noteq> ''..''"
  proof
    assume "rel_path cs = ''..''"
    with c have "cs = [''..'']" by (simp add: comps_component)
    with up show False by simp
  qed
  moreover have "''..'' \<notin> set (comps (rel_path cs))" using c up by (simp only:) simp
  ultimately show ?thesis unfolding escapes_def by blast
qed

lemma entry_at_name:
  assumes "entry_at t r ds b h"
  shows "\<not> (clean (Name h) = ''.'' \<or> clean (Name h) = ''/'')" "entry_name h = rel_path (ds @ [b])"
    "\<not> escapes (entry_name h)"
proof -
  note n = entry_atD(5) [OF assms]
  have c: "clean (Name h) = rel_path (ds @ [b])"
    using assms n by (simp add: entry_at_def clean_rel_normal)
  then show e: "entry_name h = rel_path (ds @ [b])" using trim_prefix_rel [OF _ n] by (simp add: entry_name_def)
  show "\<not> (clean (Name h) = ''.'' \<or> clean (Name h) = ''/'')"
    using c rel_path_not_special [OF n] by simp
  show "\<not> escapes (entry_name h)" using not_escapes_normal [OF n] e by simp
qed

text \<open>What the loop body does for such an entry, with the parent resolved and made.\<close>

lemma extract_entry_at:
  assumes "entry_at t r ds b h"
  shows "extract_entry t (abs_path r) h =
    (if b = whiteoutOpaque then extract_opaque t (abs_path (r @ ds))
     else if has_prefix b whiteoutPrefix
     then sys_err (remove_all t (path_join [abs_path (r @ ds), trim_prefix b whiteoutPrefix]))
     else write_entry t (abs_path r) (path_join [abs_path (r @ ds), b]) h)"
proof -
  note d = entry_atD [OF assms]
  have "\<forall>c \<in> set ds. normal c" using d(5) by simp
  note sp = entry_split [OF this d(6)]
  have "comps (abs_path (r @ ds)) = r @ ds" using d(1,3) by (intro comps_abs_path_normal tree_ok_names)
  then have mk: "mkdir_all t (abs_path (r @ ds)) m = (None, t)" for m
    using mkdir_all_existing [OF d(1,3)] by (simp add: mkdir_all_def)
  show ?thesis
    using entry_at_name [OF assms] sp secure_join_dir [OF d(1-3)] mk
    by (simp add: extract_entry_def ensure_dir_def sys_err_def)
qed

section \<open>The effect of each kind of entry\<close>

lemma put_put [simp]: "put (put t p a) p b = put t p b"
  by (simp add: put_def)

lemma resolve_child:
  assumes "tree_ok t" "dir_at t p" "normal c" "f \<Longrightarrow> \<not> sym_at t (p @ [c])"
  shows "resolve t f (p @ [c]) = Inr (p @ [c])"
  using resolve_below_dir [OF tree_ok_names [OF assms(1,2)] _ assms(3,4)] tree_ok_take [OF assms(1,2)]
  by simp

lemma remove_child:
  assumes "tree_ok t" "dir_at t p" "normal c"
  shows "remove_all t (path_join [abs_path p, c]) = (None, drop_tree t (p @ [c]))"
  using resolve_child [OF assms, of False] tree_ok_names [OF assms(1,2)]
    comps_abs_path_normal [of "p @ [c]"] join_abs_comp [OF _ assms(3)] assms(3)
  by (simp add: remove_all_def remove_all_c_def)

lemma dir_at_drop_tree: "dir_at (drop_tree t p) q = (dir_at t q \<and> \<not> prefix p q)"
  by (simp add: dir_at_def)

lemma removed_child:
  assumes "tree_ok t" "dir_at t p"
  shows "tree_ok (drop_tree t (p @ [c]))" "dir_at (drop_tree t (p @ [c])) p"
    "look (drop_tree t (p @ [c])) (p @ [c]) = None"
  using assms by (simp_all add: tree_ok_drop_tree dir_at_drop_tree prefix_def)

lemma new_child:
  assumes "tree_ok t" "dir_at t p" "normal c" "look t (p @ [c]) = None"
  shows "at_new t (p @ [c]) n = (None, put t (p @ [c]) n)" "tree_ok (put t (p @ [c]) n)"
    "dir_at (put t (p @ [c]) n) p"
proof -
  note rs = resolve_child [OF assms(1-3), of False]
  then show "at_new t (p @ [c]) n = (None, put t (p @ [c]) n)" using assms(4) by (simp add: at_new_def)
  then show "tree_ok (put t (p @ [c]) n)"
    using tree_ok_at_new [of t "p @ [c]" n] assms tree_ok_names [OF assms(1,2)] by (auto simp: normal_def)
  show "dir_at (put t (p @ [c]) n) p" using assms(2) by (simp add: dir_at_put)
qed

lemma chmod_child:
  assumes "tree_ok t" "dir_at t p" "normal c" "look t (p @ [c]) = Some n" "\<not> is_sym n"
  shows "sys_chmod t (p @ [c]) m = (None, put t (p @ [c]) (set_mode n m))"
  using resolve_child [OF assms(1-3), of True] assms(4,5) by (simp add: sys_chmod_def sym_at_def)

lemma comps_child: "tree_ok t \<Longrightarrow> dir_at t p \<Longrightarrow> normal c \<Longrightarrow>
    comps (path_join [abs_path p, c]) = p @ [c]"
  using tree_ok_names [of t p] comps_abs_path_normal [of "p @ [c]"] join_abs_comp [of p c] by simp

lemma file_effect:
  assumes "entry_at t r ds b h" "\<not> has_prefix b whiteoutPrefix"
    "Typeflag h = TypeReg \<or> Typeflag h = TypeRegA"
  shows "extract_entry t (abs_path r) h =
    (case body_err h of
       None \<Rightarrow> (None, put (drop_tree t (r @ ds @ [b])) (r @ ds @ [b]) (NFile (ucast (Mode h)) (body h)))
     | Some e \<Rightarrow> (Some (Sys e),
         put (drop_tree t (r @ ds @ [b])) (r @ ds @ [b]) (NFile (masked 0x180) (body h))))"
proof -
  note d = entry_atD [OF assms(1)]
  note rm = removed_child [OF d(1,3), of b]
  note nw = new_child [OF rm(1,2) d(6) rm(3)]
  have "b \<noteq> whiteoutOpaque" using assms(2) by (auto simp: whiteoutOpaque_def whiteoutPrefix_def has_prefix_def)
  then show ?thesis
    using extract_entry_at [OF assms(1)] assms(2,3) remove_child [OF d(1,3,6)]
      comps_child [OF d(1,3,6)] nw(1) chmod_child [OF nw(2,3) d(6)]
    by (auto simp: write_entry_def extract_file_def create_excl_def chmod_entry_def sys_err_def
        set_mode_def split: option.splits)
qed

lemma symlink_effect:
  assumes "entry_at t r ds b h" "\<not> has_prefix b whiteoutPrefix" "Typeflag h = TypeSymlink"
    "Linkname h \<noteq> []"
  shows "extract_entry t (abs_path r) h =
    (None, put (drop_tree t (r @ ds @ [b])) (r @ ds @ [b]) (NSym (Linkname h)))"
proof -
  note d = entry_atD [OF assms(1)]
  note rm = removed_child [OF d(1,3), of b]
  have "b \<noteq> whiteoutOpaque" using assms(2) by (auto simp: whiteoutOpaque_def whiteoutPrefix_def has_prefix_def)
  then show ?thesis
    using extract_entry_at [OF assms(1)] assms(2-4) remove_child [OF d(1,3,6)]
      comps_child [OF d(1,3,6)] new_child(1) [OF rm(1,2) d(6) rm(3)]
    by (simp add: write_entry_def extract_symlink_def sys_symlink_def sys_err_def)
qed

lemma whiteout_effect:
  assumes "entry_at t r ds (whiteoutPrefix @ w) h" "normal w" "whiteoutPrefix @ w \<noteq> whiteoutOpaque"
  shows "extract_entry t (abs_path r) h = (None, drop_tree t (r @ ds @ [w]))"
  using extract_entry_at [OF assms(1)] assms(3) entry_atD [OF assms(1)] remove_child [OF _ _ assms(2)]
  by (simp add: sys_err_def)

text \<open>The opaque marker: every child goes, with everything below it.\<close>

lemma remove_each_children:
  assumes "tree_ok t" "dir_at t p" "\<forall>c \<in> set cs. normal c"
  shows "\<exists>t'. remove_each t (abs_path p) cs = (None, t') \<and>
    (\<forall>q. look t' q = (if \<exists>c \<in> set cs. prefix (p @ [c]) q then None else look t q))"
  using assms
proof (induction cs arbitrary: t)
  case (Cons c cs)
  have "normal c" using Cons.prems by simp
  from remove_child [OF Cons.prems(1,2) this] Cons.IH [OF removed_child(1,2) [OF Cons.prems(1,2), of c]]
    Cons.prems(3) show ?case by auto
qed simp

lemma child_of_below:
  assumes "tree_ok t" "look t q = Some n" "strict_prefix p q"
  obtains c where "c \<in> set (child_names t p)" "prefix (p @ [c]) q"
proof -
  obtain c u where q: "q = p @ c # u" using assms(3) by (auto elim: strict_prefixE')
  have "\<exists>m. look t (p @ [c]) = Some m"
  proof (cases u)
    case Nil
    with q assms(2) show ?thesis by auto
  next
    case (Cons a v)
    with tree_ok_ancestors [OF assms(1,2), of "length p + 1"] q show ?thesis by (auto dest: dir_at_Some)
  qed
  then obtain m where "(p @ [c], m) \<in> set t" by (auto dest: map_of_SomeD)
  then have "c \<in> set (child_names t p)" by (force simp: child_names_def)
  with q show thesis by (auto intro: that)
qed

lemma child_names_exact: "c \<in> set (child_names t p) \<Longrightarrow> \<exists>n. look t (p @ [c]) = Some n"
  by (auto simp: child_names_def) (metis append_butlast_last_id domI dom_map_of_conv_image_fst domD fst_conv image_eqI)

lemma remove_all_children:
  assumes "tree_ok t" "dir_at t p"
  shows "read_dir t (abs_path p) = Inr (child_names t p)"
    and "\<exists>t'. remove_each t (abs_path p) (child_names t p) = (None, t') \<and>
      (\<forall>q. look t' q = look (drop_below t p) q)"
proof -
  have c: "comps (abs_path p) = p" using assms by (intro comps_abs_path_normal tree_ok_names)
  obtain n where n: "look t p = Some n" "is_dir n" using assms(2) by (auto dest: dir_at_Some)
  then have "\<not> is_sym n" by (cases n) auto
  then show "read_dir t (abs_path p) = Inr (child_names t p)"
    using resolve_existing [OF assms(1) n(1), of True] c n by (simp add: read_dir_def read_dir_c_def)
  obtain t' where t': "remove_each t (abs_path p) (child_names t p) = (None, t')"
      "\<And>q. look t' q = (if \<exists>c \<in> set (child_names t p). prefix (p @ [c]) q then None else look t q)"
    using remove_each_children [OF assms] child_names_normal [OF assms(1)] by blast
  have "look t' q = look (drop_below t p) q" for q
  proof (cases "strict_prefix p q")
    case True
    then show ?thesis using child_of_below [OF assms(1) _ True] t'(2) [of q] by (cases "look t q") auto
  next
    case False
    then have "\<not> prefix (p @ [c]) q" for c by (auto simp: prefix_def strict_prefix_def)
    with False t'(2) [of q] show ?thesis by auto
  qed
  with t'(1) show "\<exists>t'. remove_each t (abs_path p) (child_names t p) = (None, t') \<and>
      (\<forall>q. look t' q = look (drop_below t p) q)" by blast
qed

lemma opaque_effect:
  assumes "entry_at t r ds whiteoutOpaque h"
  shows "\<exists>t'. extract_entry t (abs_path r) h = (None, t') \<and>
    (\<forall>q. look t' q = look (drop_below t (r @ ds)) q)"
  using extract_entry_at [OF assms] remove_all_children [OF entry_atD(1,3) [OF assms]]
  by (auto simp: extract_opaque_def clear_dir_contents_def)

section \<open>The ways out\<close>

lemma whiteout_of_parent:
  assumes "tree_ok t" "dir_at t r" "length r \<ge> 2" "Name h = ''.wh...''"
  shows "extract_entry t (abs_path r) h = (None, drop_tree t (butlast r))"
proof -
  obtain r0 c where r: "r = r0 @ [c]" "r0 \<noteq> []" using assms(3)
    by (cases r rule: rev_cases) (auto simp: Suc_le_eq)
  have n: "\<forall>d \<in> set r0. normal d" "normal c" using tree_ok_names [OF assms(1,2)] r by auto
  have at: "entry_at t r [] ''.wh...'' h" using assms r by (simp add: entry_at_def normal_def)
  have "norm_comps (r0 @ [c, ''..'']) = r0"
    using foldl_clean_normal [of r0 True "[]"] normalD [OF n(2)] n(1)
    by (simp add: norm_comps_def clean_step_def)
  moreover have "comps (rel_path (r0 @ [c])) = r0 @ [c]" using n by (intro comps_rel_path_normal) auto
  ultimately have j: "path_join [abs_path r, ''..''] = abs_path r0"
    using r by (simp add: join_abs_any comps_component)
  have d: "dir_at t r0" using tree_ok_take [OF assms(1,2), of "length r0"] r by simp
  then obtain m where "look t r0 = Some m" by (auto dest: dir_at_Some)
  then have "remove_all t (abs_path r0) = (None, drop_tree t r0)"
    using resolve_existing [OF assms(1), of r0 m False] r(2) n comps_rel_path_normal [of r0]
    by (simp add: remove_all_def remove_all_c_def)
  with extract_entry_at [OF at] j r show ?thesis
    by (simp add: whiteoutOpaque_def whiteoutPrefix_def has_prefix_def trim_prefix_def sys_err_def)
qed

lemma resolve_through:
  assumes "tree_ok t" "dir_at t r" "normal b" "look t (r @ [b]) = Some (NSym (abs_path ds))" "dir_at t ds"
    "f \<or> cs \<noteq> []"
  shows "resolve t f (r @ b # cs) = walk t f (max_links - 1) ds cs"
proof -
  have n: "\<forall>c \<in> set r. normal c" "\<forall>c \<in> set ds. normal c"
    using tree_ok_names assms(1,2,5) by blast+
  have up: "\<forall>n \<le> length r. dir_at t (take n r)" "\<forall>n \<le> length ds. dir_at t (take n ds)"
    using tree_ok_take assms(1,2,5) by blast+
  have "walk t f l [] (split_byte slash (rel_path ds) @ cs) = walk t f l [] (ds @ cs)" for l
  proof (cases "ds = []")
    case True
    then show ?thesis using tree_ok_root [OF assms(1)] by simp
  next
    case False
    with n(2) show ?thesis by (simp add: split_byte_join normal_def)
  qed
  then have "walk t f l [] (split_byte slash (rel_path ds) @ cs) = walk t f l ds cs" for l
    using walk_ancestors [OF n(2) up(2), of f l cs] by simp
  then show ?thesis
    using walk_ancestors [OF n(1) up(1), of f max_links "b # cs"] assms(2-4,6) tree_ok_root [OF assms(1)]
    by (auto simp: resolve_def max_links_def normal_def)
qed

lemma resolve_planted:
  assumes "tree_ok t" "dir_at t r" "normal b" "look t (r @ [b]) = Some (NSym (abs_path ds))" "dir_at t ds"
  shows "resolve t True (r @ [b]) = Inr ds"
  using resolve_through [OF assms, of True "[]"] by simp

lemma dir_entry_over_link:
  assumes "entry_at t r [] b h" "\<not> has_prefix b whiteoutPrefix" "Typeflag h = TypeDir"
    "look t (r @ [b]) = Some (NSym (abs_path ds))" "look t ds = Some (NDir m)"
  shows "extract_entry t (abs_path r) h = (None, put t ds (NDir (ucast (Mode h))))"
proof -
  note d = entry_atD [OF assms(1)]
  have dr: "dir_at t r" "dir_at t ds" using d(3) assms(5) by (simp_all add: dir_at_def)
  note rs = resolve_planted [OF d(1) dr(1) d(6) assms(4) dr(2)]
  have "mkdir_all_c t (r @ [b]) 0x1ED = (None, t)"
    using rs assms(5) by (subst mkdir_all_c.simps) (simp add: stat_c_def node_at_def)
  moreover have "b \<noteq> whiteoutOpaque"
    using assms(2) by (auto simp: whiteoutOpaque_def whiteoutPrefix_def has_prefix_def)
  ultimately show ?thesis
    using extract_entry_at [OF assms(1)] assms(2,3,5) comps_child [OF d(1) dr(1) d(6)] rs
    by (simp add: write_entry_def extract_dir_def mkdir_all_def chmod_entry_def sys_err_def
        sys_chmod_def set_mode_def)
qed

section \<open>Whole images\<close>

lemma confined_layers:
  assumes "tree_ok t" "anchored t r"
    "\<forall>items h. Inr items \<in> set ls \<and> TarEntry h \<in> set items \<longrightarrow> \<not> parent_whiteout h"
  shows "confined True r t (snd (extract_layers t (abs_path r) ls))"
  using assms
proof (induction t "abs_path r" ls rule: extract_layers.induct)
  case (3 t items ls)
  obtain e t1 where x: "extract_tar t (abs_path r) items = (e, t1)" by (cases "extract_tar t (abs_path r) items")
  have nw: "\<forall>h. TarEntry h \<in> set items \<longrightarrow> \<not> parent_whiteout h"
    "\<forall>items h. Inr items \<in> set ls \<and> TarEntry h \<in> set items \<longrightarrow> \<not> parent_whiteout h"
    using "3.prems"(3) by auto
  have c: "confined True r t t1" using confined_tar [OF "3.prems"(1,2) nw(1), of True] x by simp
  show ?case
  proof (cases e)
    case None
    have "confined True r t1 (snd (extract_layers t1 (abs_path r) ls))"
      using "3.hyps" [OF x [symmetric] None] confined_ok [OF c "3.prems"(1,2)] nw(2) by blast
    with c x None show ?thesis by (auto intro: confined_trans)
  qed (use c x in simp)
qed simp_all

lemma secure_join_Nil: "tree_ok t \<Longrightarrow> anchored t r \<Longrightarrow> secure_join t (abs_path r) [] = Inr (abs_path r)"
  using loop_end [of t r "[]" 0] by (simp add: secure_join_def join_state_def plain_Nil)

lemma confined_image:
  assumes "tree_ok t" "anchored t r"
    "\<forall>ls items h. layers = Inr ls \<and> Inr items \<in> set ls \<and> TarEntry h \<in> set items \<longrightarrow> \<not> parent_whiteout h"
  shows "confined True r t (snd (extract_image t layers (abs_path r)))"
proof -
  obtain e t1 where mk: "mkdir_all t (abs_path r) 0x1ED = (e, t1)" by (cases "mkdir_all t (abs_path r) 0x1ED")
  note c = sj.mkdir_answer(1) [OF assms(1,2) secure_join_Nil [OF assms(1,2)] mk]
  have "confined True r t (snd (extract_layers t1 (abs_path r) ls))" if "layers = Inr ls" for ls
    using confined_layers confined_ok [OF c assms(1,2)] assms(3) that confined_trans [OF c] by blast
  with mk c show ?thesis
    by (auto simp: extract_image_def ensure_dir_def sys_err_def split: option.splits sum.splits)
qed

lemma confined_tarball:
  assumes "tree_ok t" "anchored t r"
    "\<forall>bytes h. TarEntry h \<in> set (untar bytes) \<longrightarrow> \<not> parent_whiteout h"
    "\<forall>bytes items h. untar_gz bytes = Inr items \<and> TarEntry h \<in> set items \<longrightarrow> \<not> parent_whiteout h"
  shows "confined True r t (snd (extract_tarball t untar_gz untar dev_bytes path (abs_path r)))"
proof -
  obtain e t1 where mk: "mkdir_all t (abs_path r) 0x1ED = (e, t1)" by (cases "mkdir_all t (abs_path r) 0x1ED")
  note c = sj.mkdir_answer(1) [OF assms(1,2) secure_join_Nil [OF assms(1,2)] mk]
  have "confined True r t (snd (extract_tar t1 (abs_path r) items))"
    if "\<forall>h. TarEntry h \<in> set items \<longrightarrow> \<not> parent_whiteout h" for items
    using confined_tar [of t1 r items True] confined_ok [OF c assms(1,2)] that confined_trans [OF c] by blast
  with mk c assms(3,4) show ?thesis
    by (auto simp: extract_tarball_def ensure_dir_def sys_err_def Let_def split: option.splits sum.splits)
qed

end
