(* ===== verification/ExtractSafety.thy ===== *)
theory ExtractSafety
  imports ExtractEffects
begin

text \<open>
  The properties of the image extractor, each with a run on a small concrete tree that meets
  its hypotheses: the host tree below has a directory \<open>/r\<close> to extract into and a directory
  \<open>/etc\<close> with a file that extraction must not touch.
\<close>

section \<open>Trees written out\<close>

definition tree_listed :: "fs \<Rightarrow> bool" where
  "tree_listed t =
     (dir_at t [] \<and> list_all (\<lambda>(p, n). list_all normal p \<and> (p \<noteq> [] \<longrightarrow> dir_at t (butlast p))) t)"

lemma tree_okI: "tree_listed t \<Longrightarrow> tree_ok t"
  unfolding tree_listed_def tree_ok_def by (fastforce dest: map_of_SomeD simp: list_all_iff)

definition host :: fs where
  "host =
     [([], NDir 0x1ED), ([''r''], NDir 0x1ED), ([''r'', ''d''], NDir 0x1ED),
      ([''r'', ''d'', ''f''], NFile 0x1A4 ''old''), ([''r'', ''l''], NSym ''/etc''),
      ([''etc''], NDir 0x1ED), ([''etc'', ''shadow''], NFile 0x180 ''s'')]"

definition entry :: "string \<Rightarrow> typeflag \<Rightarrow> string \<Rightarrow> u64 \<Rightarrow> string \<Rightarrow> tar_entry" where
  "entry name flag link mode content =
     \<lparr>Name = name, Typeflag = flag, Linkname = link, Mode = mode, Devmajor = 0, Devminor = 0,
      body = content, body_err = None\<rparr>"

lemma entry_sel [simp]:
  "Name (entry n f l m c) = n" "Typeflag (entry n f l m c) = f" "Linkname (entry n f l m c) = l"
  "Mode (entry n f l m c) = m" "body (entry n f l m c) = c" "body_err (entry n f l m c) = None"
  by (simp_all add: entry_def)

lemma host_ok: "tree_ok host"
  by (rule tree_okI) (simp add: tree_listed_def host_def dir_at_def normal_def)

lemma host_dirs: "dir_at host [''r'']" "dir_at host [''r'', ''d'']" "dir_at host [''etc'']"
  by (simp_all add: host_def dir_at_def)

lemma host_anchored: "anchored host [''r'']"
  using dir_anchored [OF host_ok host_dirs(1)] by simp

lemma host_entry:
  "normal b \<Longrightarrow> Name h = ''d/'' @ b \<Longrightarrow> entry_at host [''r''] [''d''] b h"
  "normal b \<Longrightarrow> Name h = b \<Longrightarrow> entry_at host [''r''] [] b h"
  using host_ok host_dirs by (simp_all add: entry_at_def)

section \<open>Containment\<close>

text \<open>C2: Whatever \<open>secureJoin\<close> answers for a root and an untrusted path is a path below the
  root which the kernel resolves to exactly that location or not at all: no symbolic link in the
  tree, absolute or with \<open>..\<close>, can make an access to the answer land anywhere else.\<close>

theorem secure_join_contained:
  assumes "tree_ok t" "anchored t r" "secure_join t (abs_path r) unsafe = Inr q"
  shows "prefix r (comps q) \<and> q = abs_path (comps q) \<and>
    resolve t follow (comps q) \<in> {Inr (comps q), Inl ENOENT, Inl ENOTDIR}"
proof -
  obtain cs where q: "q = abs_path (r @ cs)" "plain t r cs" using secure_join_plain [OF assms] by blast
  then have "\<forall>c \<in> set (r @ cs). normal c" using assms(2) by (auto simp: anchored_def plain_def)
  then have "comps q = r @ cs" using q(1) comps_abs_path_normal by blast
  with q resolve_plain [OF assms(2) plain_imp_plain_to [OF q(2)], of follow] show ?thesis
    by (simp add: plain_iff)
qed

lemma host_join_link: "secure_join host ''/r'' ''l/../../etc/shadow'' = Inr ''/r/etc/shadow''"
  unfolding secure_join_def by code_simp

theorem secure_join_contained_witness:
  "prefix [''r''] [''r'', ''etc'', ''shadow''] \<and>
   resolve host True [''r'', ''etc'', ''shadow''] \<in>
     {Inr [''r'', ''etc'', ''shadow''], Inl ENOENT, Inl ENOTDIR}"
proof -
  have j: "secure_join host (abs_path [''r'']) ''l/../../etc/shadow'' = Inr ''/r/etc/shadow''"
    using host_join_link by simp
  have "comps ''/r/etc/shadow'' = [''r'', ''etc'', ''shadow'']" by (simp add: comps_def)
  with secure_join_contained [OF host_ok host_anchored j, of True] show ?thesis by simp
qed

text \<open>C1: Extracting an archive leaves every location outside the target directory exactly as
  it was, whatever the names, links and whiteouts in the archive, provided that no entry is a
  whiteout named \<open>.wh...\<close> and no directory entry takes the place of a symbolic link.\<close>

theorem extract_tar_contained:
  assumes "tree_ok t" "anchored t r" "\<forall>h. TarEntry h \<in> set items \<longrightarrow> \<not> parent_whiteout h"
    "no_dir_over_link t (abs_path r) items" "\<not> prefix r q"
  shows "look (snd (extract_tar t (abs_path r) items)) q = look t q"
  using confined_tar [OF assms(1-3), of False] assms(4,5) by (auto simp: confined_def outside_kept_def)

definition attack :: "tar_item list" where
  "attack =
     [TarEntry (entry ''x'' TypeSymlink ''/etc'' 0 []), TarEntry (entry ''x/shadow'' TypeReg [] 0x1FF ''mine''),
      TarEntry (entry ''l/.wh.shadow'' TypeReg [] 0 []), TarEntry (entry ''../etc/shadow'' TypeReg [] 0 [])]"

lemma attack_ok:
  "\<forall>h. TarEntry h \<in> set attack \<longrightarrow> \<not> parent_whiteout h" "no_dir_over_link host ''/r'' attack"
proof -
  have "\<not> parent_whiteout (entry ''x'' TypeSymlink ''/etc'' 0 [])"
    "\<not> parent_whiteout (entry ''x/shadow'' TypeReg [] 0x1FF ''mine'')"
    "\<not> parent_whiteout (entry ''l/.wh.shadow'' TypeReg [] 0 [])"
    "\<not> parent_whiteout (entry ''../etc/shadow'' TypeReg [] 0 [])"
    by code_simp+
  then show "\<forall>h. TarEntry h \<in> set attack \<longrightarrow> \<not> parent_whiteout h" by (auto simp: attack_def)
  show "no_dir_over_link host ''/r'' attack" by code_simp
qed

theorem extract_tar_contained_witness:
  "look (snd (extract_tar host ''/r'' attack)) [''etc'', ''shadow''] = Some (NFile 0x180 ''s'')"
  using extract_tar_contained [OF host_ok host_anchored, of attack "[''etc'', ''shadow'']"] attack_ok
  by (simp add: host_def)

text \<open>C3: Flattening an image, all its layers with whatever entries except whiteouts named
  \<open>.wh...\<close>, changes nothing outside the target directory but permission bits: every file, link
  and device outside is untouched, and every directory outside is still there.\<close>

theorem extract_image_contained:
  assumes "tree_ok t" "anchored t r" "\<not> prefix r q"
    "\<forall>ls items h. layers = Inr ls \<and> Inr items \<in> set ls \<and> TarEntry h \<in> set items \<longrightarrow> \<not> parent_whiteout h"
  shows "let t' = snd (extract_image t layers (abs_path r))
    in tree_ok t' \<and> (look t' q = look t q \<or> dir_at t q \<and> dir_at t' q)"
  using confined_image [OF assms(1,2,4)] assms(1-3) by (auto simp: confined_def outside_kept_def Let_def)

theorem extract_image_contained_witness:
  "let t' = snd (extract_image host (Inr [Inr attack, Inr attack]) ''/r'')
   in tree_ok t' \<and> (look t' [''etc''] = Some (NDir 0x1ED) \<or> dir_at host [''etc''] \<and> dir_at t' [''etc''])"
proof -
  have "\<forall>ls items h. Inr [Inr attack, Inr attack] = (Inr ls :: (errno, (errno, tar_item list) res list) res) \<and>
      Inr items \<in> set ls \<and> TarEntry h \<in> set items \<longrightarrow> \<not> parent_whiteout h"
    using attack_ok(1) by auto
  from extract_image_contained [OF host_ok host_anchored _ this, of "[''etc'']"] show ?thesis
    by (simp add: Let_def host_def)
qed

text \<open>The same for \<open>--rootfs\<close> archives: for any archive file, compressed or not, and any tar
  and gzip readers that hand back no whiteout named \<open>.wh...\<close>, extraction is contained.\<close>

theorem extract_tarball_contained:
  assumes "tree_ok t" "anchored t r" "\<not> prefix r q"
    "\<forall>bytes h. TarEntry h \<in> set (untar bytes) \<longrightarrow> \<not> parent_whiteout h"
    "\<forall>bytes items h. untar_gz bytes = Inr items \<and> TarEntry h \<in> set items \<longrightarrow> \<not> parent_whiteout h"
  shows "let t' = snd (extract_tarball t untar_gz untar dev_bytes path (abs_path r))
    in tree_ok t' \<and> (look t' q = look t q \<or> dir_at t q \<and> dir_at t' q)"
  using confined_tarball [OF assms(1,2,4,5), of dev_bytes path] assms(1-3)
  by (auto simp: confined_def outside_kept_def Let_def)

theorem extract_tarball_contained_witness:
  "let t' = snd (extract_tarball host (\<lambda>_. Inl EINVAL) (\<lambda>_. attack) [] ''/r/d/f'' ''/r'')
   in tree_ok t' \<and> (look t' [''etc''] = Some (NDir 0x1ED) \<or> dir_at host [''etc''] \<and> dir_at t' [''etc''])"
  using extract_tarball_contained [OF host_ok host_anchored, of "[''etc'']" "\<lambda>_. attack" "\<lambda>_. Inl EINVAL"
      "[]" "''/r/d/f''"] attack_ok(1)
  by (simp add: Let_def host_def)

section \<open>The two ways out\<close>

text \<open>C39: An archive entry named \<open>.wh...\<close> removes the parent of the target directory with
  everything in it: the whiteout handler joins \<open>..\<close>, what is left of the name after the
  \<open>.wh.\<close> prefix, to the resolved directory.\<close>

theorem whiteout_parent_escapes:
  assumes "tree_ok t" "dir_at t r" "length r \<ge> 2" "Name h = ''.wh...''"
  shows "extract_tar t (abs_path r) [TarEntry h] = (None, drop_tree t (butlast r))"
  using whiteout_of_parent [OF assms] by simp

theorem whiteout_parent_escapes_witness:
  "extract_tar host ''/r/d'' [TarEntry (entry ''.wh...'' TypeReg [] 0 [])] = (None, drop_tree host [''r''])"
  using whiteout_parent_escapes [OF host_ok host_dirs(2)] by simp

text \<open>Two entries of the same name, a symbolic link to a directory of the host and then a
  directory, set the permission bits of that host directory to the bits of the second entry.\<close>

theorem dir_entry_chmods_host:
  assumes "tree_ok t" "dir_at t r" "r \<noteq> []" "normal b" "\<not> has_prefix b whiteoutPrefix"
    "look t ds = Some (NDir m)" "\<not> prefix (r @ [b]) ds"
    "Name h = b" "Typeflag h = TypeSymlink" "Linkname h = abs_path ds"
    "Name h' = b" "Typeflag h' = TypeDir"
  shows "fst (extract_tar t (abs_path r) [TarEntry h, TarEntry h']) = None \<and>
    look (snd (extract_tar t (abs_path r) [TarEntry h, TarEntry h'])) ds = Some (NDir (ucast (Mode h')))"
proof -
  have at: "entry_at t r [] b h" using assms by (simp add: entry_at_def)
  let ?t1 = "put (drop_tree t (r @ [b])) (r @ [b]) (NSym (abs_path ds))"
  have one: "extract_entry t (abs_path r) h = (None, ?t1)"
    using symlink_effect [OF at assms(5,9)] assms(10) by simp
  note rm = removed_child [OF assms(1,2), of b]
  have "entry_at ?t1 r [] b h'"
    using assms(3,4,11) new_child [OF rm(1,2) assms(4) rm(3)] by (simp add: entry_at_def)
  moreover have "look ?t1 ds = Some (NDir m)" using assms(6,7) by auto
  ultimately have "extract_entry ?t1 (abs_path r) h' = (None, put ?t1 ds (NDir (ucast (Mode h'))))"
    using dir_entry_over_link [of ?t1 r b h' ds m] assms(5,12) by simp
  with one show ?thesis by simp
qed

theorem dir_entry_chmods_host_witness:
  "look (snd (extract_tar host ''/r'' [TarEntry (entry ''x'' TypeSymlink ''/etc'' 0 []),
     TarEntry (entry ''x'' TypeDir [] 0x1FF [])])) [''etc''] = Some (NDir 0x1FF)"
  using dir_entry_chmods_host [OF host_ok host_dirs(1), of "''x''" "[''etc'']" "0x1ED"
      "entry ''x'' TypeSymlink ''/etc'' 0 []" "entry ''x'' TypeDir [] 0x1FF []"]
  by (simp add: normal_def has_prefix_def whiteoutPrefix_def host_def)

section \<open>What each entry does\<close>

text \<open>A regular-file entry whose parent directory is there replaces whatever was at its
  place, a planted symbolic link or a whole directory included, by a fresh file with the entry's
  content and the entry's permission bits with set-uid, set-gid and sticky, and changes
  nothing else.\<close>

theorem file_entry_replaces:
  assumes "entry_at t r ds b h" "\<not> has_prefix b whiteoutPrefix"
    "Typeflag h \<in> {TypeReg, TypeRegA}" "body_err h = None"
  shows "\<exists>t'. extract_entry t (abs_path r) h = (None, t') \<and>
    (\<forall>q. look t' q =
       (if q = r @ ds @ [b] then Some (NFile (ucast (Mode h)) (body h))
        else if prefix (r @ ds @ [b]) q then None else look t q))"
  using file_effect [OF assms(1,2)] assms(3,4) by auto

theorem file_entry_replaces_witness:
  "\<exists>t'. extract_entry host ''/r'' (entry ''d/f'' TypeReg [] 0x9ED ''new'') = (None, t') \<and>
     look t' [''r'', ''d'', ''f''] = Some (NFile 0x9ED ''new'')"
proof -
  let ?h = "entry ''d/f'' TypeReg [] 0x9ED ''new''"
  have "entry_at host [''r''] [''d''] ''f'' ?h" by (rule host_entry) (simp_all add: normal_def)
  from file_entry_replaces [OF this] show ?thesis by (force simp: has_prefix_def whiteoutPrefix_def)
qed

text \<open>A whiteout entry removes the name it masks, with everything below it, and nothing else.\<close>

theorem whiteout_entry_removes:
  assumes "entry_at t r ds (whiteoutPrefix @ w) h" "normal w" "whiteoutPrefix @ w \<noteq> whiteoutOpaque"
  shows "\<exists>t'. extract_entry t (abs_path r) h = (None, t') \<and>
    (\<forall>q. look t' q = (if prefix (r @ ds @ [w]) q then None else look t q))"
  using whiteout_effect [OF assms] by simp

theorem whiteout_entry_removes_witness:
  "\<exists>t'. extract_entry host ''/r'' (entry ''d/.wh.f'' TypeReg [] 0 []) = (None, t') \<and>
     look t' [''r'', ''d'', ''f''] = None"
proof -
  let ?h = "entry ''d/.wh.f'' TypeReg [] 0 []"
  have "entry_at host [''r''] [''d''] (whiteoutPrefix @ ''f'') ?h"
    by (rule host_entry) (simp_all add: normal_def whiteoutPrefix_def)
  from whiteout_entry_removes [OF this] show ?thesis
    by (force simp: normal_def whiteoutPrefix_def whiteoutOpaque_def)
qed

text \<open>An opaque marker empties its directory, keeps the directory itself and changes nothing else.\<close>

theorem opaque_entry_clears:
  assumes "entry_at t r ds whiteoutOpaque h"
  shows "\<exists>t'. extract_entry t (abs_path r) h = (None, t') \<and>
    (\<forall>q. look t' q = (if strict_prefix (r @ ds) q then None else look t q))"
  using opaque_effect [OF assms] by simp

theorem opaque_entry_clears_witness:
  "\<exists>t'. extract_entry host ''/r'' (entry ''d/.wh..wh..opq'' TypeReg [] 0 []) = (None, t') \<and>
     look t' [''r'', ''d'', ''f''] = None \<and> dir_at t' [''r'', ''d'']"
proof -
  let ?h = "entry ''d/.wh..wh..opq'' TypeReg [] 0 []"
  have "entry_at host [''r''] [''d''] whiteoutOpaque ?h"
    by (rule host_entry) (simp_all add: normal_def whiteoutOpaque_def)
  from opaque_entry_clears [OF this] obtain t' where
    "extract_entry host ''/r'' ?h = (None, t')"
    "\<And>q. look t' q = (if strict_prefix [''r'', ''d''] q then None else look host q)" by auto
  then show ?thesis by (auto simp: host_def dir_at_def)
qed

end
