(* ===== verification/ImageRef.thy ===== *)
theory ImageRef
  imports GoPath
begin

text \<open>
  Layers and image references: \<open>internal/config/normalize.go\<close> with the \<open>Layer\<close> type of
  \<open>config.go\<close>, and the cache key of \<open>internal/rootfs/cache.go\<close> (SHA-256 itself is not part of
  the repository; the key is modelled by the bytes that are hashed).
\<close>

section \<open>Layers\<close>

datatype layer_kind = LayerImage | LayerRootfs

record layer =
  Kind :: layer_kind
  Ref :: string
  Path :: string

definition image_layer :: "string \<Rightarrow> layer" where
  "image_layer s = \<lparr>Kind = LayerImage, Ref = s, Path = []\<rparr>"

definition rootfs_layer :: "string \<Rightarrow> layer" where
  "rootfs_layer s = \<lparr>Kind = LayerRootfs, Ref = [], Path = s\<rparr>"

lemma layer_sel [simp]:
  "Kind (image_layer s) = LayerImage" "Ref (image_layer s) = s"
  "Kind (rootfs_layer s) = LayerRootfs" "Path (rootfs_layer s) = s"
  by (simp_all add: image_layer_def rootfs_layer_def)

section \<open>Normalizing a reference\<close>

abbreviation colon :: char where "colon \<equiv> CHR '':''"

definition defaultRegistry :: string where "defaultRegistry = ''registry-1.docker.io''"

text \<open>The three steps of the function: what is before the digest, the tag, the registry.\<close>

definition strip_digest :: "string \<Rightarrow> string" where
  "strip_digest s = (case cut_byte CHR ''@'' s of None \<Rightarrow> s | Some (a, _) \<Rightarrow> a)"

definition split_tag :: "string \<Rightarrow> string \<times> string" where
  "split_tag s =
     (case cut_last_byte colon s of
        Some (a, cand) \<Rightarrow> if slash \<in> set cand then (s, ''latest'') else (a, cand)
      | None \<Rightarrow> (s, ''latest''))"

definition host_like :: "string \<Rightarrow> bool" where
  "host_like cand \<longleftrightarrow> CHR ''.'' \<in> set cand \<or> colon \<in> set cand \<or> cand = ''localhost''"

definition split_registry :: "string \<Rightarrow> string \<times> string" where
  "split_registry s =
     (case cut_byte slash s of
        Some (cand, rest) \<Rightarrow> if host_like cand then (cand, rest) else (defaultRegistry, s)
      | None \<Rightarrow> (defaultRegistry, s))"

definition normalize_image_ref :: "string \<Rightarrow> string" where
  "normalize_image_ref ref =
     (case split_tag (strip_digest ref) of (remaining, tag) \<Rightarrow>
        (case split_registry remaining of (registry, repository) \<Rightarrow>
           if registry = defaultRegistry \<and> slash \<notin> set repository
           then registry @ ''/library/'' @ repository @ colon # tag
           else registry @ slash # repository @ colon # tag))"

text \<open>A reference in canonical form: registry, repository and tag can be read back.\<close>

definition canonical_ref :: "string \<Rightarrow> string \<Rightarrow> string \<Rightarrow> bool" where
  "canonical_ref registry repository tag \<longleftrightarrow>
     CHR ''@'' \<notin> set registry \<union> set repository \<union> set tag \<and>
     slash \<notin> set registry \<and> host_like registry \<and>
     (registry = defaultRegistry \<longrightarrow> slash \<in> set repository) \<and>
     slash \<notin> set tag \<and> colon \<notin> set tag"

lemma strip_digest_free: "CHR ''@'' \<notin> set (strip_digest s)"
proof (cases "cut_byte CHR ''@'' s")
  case None
  then show ?thesis by (simp add: strip_digest_def)
next
  case (Some ab)
  then obtain a b where "cut_byte CHR ''@'' s = Some (a, b)" by (cases ab) simp
  moreover from this have "CHR ''@'' \<notin> set a" by (simp add: cut_byte_Some)
  ultimately show ?thesis by (simp add: strip_digest_def)
qed

lemma split_tag_sets:
  assumes "split_tag s = (a, t)" "CHR ''@'' \<notin> set s"
  shows "CHR ''@'' \<notin> set a" "CHR ''@'' \<notin> set t" "slash \<notin> set t" "colon \<notin> set t"
  using assms
  by (auto simp: split_tag_def cut_last_byte_Some simp del: cut_last_byte_None
      split: option.splits if_splits)

lemma split_registry_sets:
  assumes "split_registry s = (r, p)" "CHR ''@'' \<notin> set s"
  shows "CHR ''@'' \<notin> set r" "CHR ''@'' \<notin> set p" "slash \<notin> set r" "host_like r"
  using assms
  by (auto simp: split_registry_def cut_byte_Some defaultRegistry_def host_like_def
      simp del: cut_byte_None split: option.splits if_splits)

lemma normalize_shape:
  "\<exists>registry repository tag. canonical_ref registry repository tag \<and>
     normalize_image_ref ref = registry @ slash # repository @ colon # tag"
proof -
  obtain a t where t: "split_tag (strip_digest ref) = (a, t)" by fastforce
  obtain r p where r: "split_registry a = (r, p)" by fastforce
  note st = split_tag_sets [OF t strip_digest_free]
  note sr = split_registry_sets [OF r st(1)]
  show ?thesis
  proof (cases "r = defaultRegistry \<and> slash \<notin> set p")
    case True
    then have "canonical_ref r (''library/'' @ p) t" using st sr by (simp add: canonical_ref_def)
    moreover have "normalize_image_ref ref = r @ slash # (''library/'' @ p) @ colon # t"
      using t r True by (simp add: normalize_image_ref_def)
    ultimately show ?thesis by blast
  next
    case False
    then have "canonical_ref r p t" using st sr by (auto simp: canonical_ref_def)
    moreover have "normalize_image_ref ref = r @ slash # p @ colon # t"
      using t r False by (simp add: normalize_image_ref_def)
    ultimately show ?thesis by blast
  qed
qed

lemma normalize_canonical:
  assumes "canonical_ref r p t"
  shows "normalize_image_ref (r @ slash # p @ colon # t) = r @ slash # p @ colon # t"
proof -
  have "CHR ''@'' \<notin> set (r @ slash # p @ colon # t)" using assms by (auto simp: canonical_ref_def)
  then have "strip_digest (r @ slash # p @ colon # t) = r @ slash # p @ colon # t"
    by (simp add: strip_digest_def)
  moreover have "cut_last_byte colon (r @ slash # p @ colon # t) = Some (r @ slash # p, t)"
    using assms by (simp add: cut_last_byte_Some canonical_ref_def)
  then have "split_tag (r @ slash # p @ colon # t) = (r @ slash # p, t)"
    using assms by (simp add: split_tag_def canonical_ref_def)
  moreover have "cut_byte slash (r @ slash # p) = Some (r, p)"
    using assms by (simp add: cut_byte_Some canonical_ref_def)
  then have "split_registry (r @ slash # p) = (r, p)"
    using assms by (simp add: split_registry_def canonical_ref_def)
  ultimately show ?thesis
    using assms by (auto simp: normalize_image_ref_def canonical_ref_def)
qed


section \<open>Removing duplicates\<close>

definition layer_key :: "layer \<Rightarrow> string" where
  "layer_key l =
     (case Kind l of
        LayerImage \<Rightarrow> ''image:'' @ normalize_image_ref (Ref l)
      | LayerRootfs \<Rightarrow> ''rootfs:'' @ Path l)"

text \<open>The loop runs from the last layer to the first; \<open>seen\<close> is the map of keys, \<open>out\<close> the
  layers kept, and a final loop reverses them.\<close>

fun dedup_loop :: "string set \<Rightarrow> layer list \<Rightarrow> layer list \<Rightarrow> layer list" where
  "dedup_loop seen out [] = out"
| "dedup_loop seen out (l # ls) =
     (if layer_key l \<in> seen then dedup_loop seen out ls
      else dedup_loop (insert (layer_key l) seen) (out @ [l]) ls)"

definition deduplicate_layers :: "layer list \<Rightarrow> layer list" where
  "deduplicate_layers layers = rev (dedup_loop {} [] (rev layers))"

fun last_of_each :: "layer list \<Rightarrow> layer list" where
  "last_of_each [] = []"
| "last_of_each (l # ls) =
     (if layer_key l \<in> layer_key ` set ls then last_of_each ls else l # last_of_each ls)"

lemma dedup_loop_out: "dedup_loop seen out ls = out @ dedup_loop seen [] ls"
proof (induction ls arbitrary: seen out)
  case (Cons l ls)
  show ?case
    using Cons [of "insert (layer_key l) seen" "out @ [l]"] Cons [of "insert (layer_key l) seen" "[l]"]
      Cons [of seen out] by simp
qed simp

lemma dedup_loop_snoc:
  "dedup_loop seen [] (ls @ [l]) =
     dedup_loop seen [] ls @ (if layer_key l \<in> seen \<union> layer_key ` set ls then [] else [l])"
proof (induction ls arbitrary: seen)
  case (Cons x ls)
  show ?case
    using Cons [of "insert (layer_key x) seen"] Cons [of seen]
      dedup_loop_out [of "insert (layer_key x) seen" "[x]"] by (auto simp: image_iff)
qed simp

lemma deduplicate_last: "deduplicate_layers ls = last_of_each ls"
  by (induction ls) (simp_all add: deduplicate_layers_def dedup_loop_snoc)

lemma last_of_each_keys: "map layer_key (last_of_each ls) = remdups (map layer_key ls)"
  by (induction ls) auto

lemma last_of_each_subseq: "subseq (last_of_each ls) ls"
  by (induction ls) auto

lemma last_of_each_Nil [simp]: "last_of_each ls = [] \<longleftrightarrow> ls = []"
  by (induction ls) auto

lemma last_of_each_distinct: "distinct (map layer_key ls) \<Longrightarrow> last_of_each ls = ls"
  by (induction ls) auto


section \<open>The cache key\<close>

definition cache_bytes :: "layer list \<Rightarrow> string" where
  "cache_bytes layers = concat (map (\<lambda>l. layer_key l @ [CHR 0x0A]) layers)"

definition compute_cache_key :: "(string \<Rightarrow> string) \<Rightarrow> layer list \<Rightarrow> string" where
  "compute_cache_key sha256_hex layers = sha256_hex (cache_bytes layers)"

lemma lines_inj:
  assumes "\<forall>x \<in> set xs. CHR 0x0A \<notin> set x" "\<forall>y \<in> set ys. CHR 0x0A \<notin> set y"
    "concat (map (\<lambda>x. x @ [CHR 0x0A]) xs) = concat (map (\<lambda>x. x @ [CHR 0x0A]) ys)"
  shows "xs = ys"
  using assms
proof (induction xs arbitrary: ys)
  case Nil
  then show ?case by (cases ys) auto
next
  case (Cons x xs)
  then obtain y ys' where ys: "ys = y # ys'" by (cases ys) auto
  with Cons.prems(3) have e: "x @ CHR 0x0A # concat (map (\<lambda>x. x @ [CHR 0x0A]) xs)
      = y @ CHR 0x0A # concat (map (\<lambda>x. x @ [CHR 0x0A]) ys')" by simp
  have "x = y"
  proof -
    have "takeWhile (\<lambda>c. c \<noteq> CHR 0x0A) (x @ CHR 0x0A # u) = x" "takeWhile (\<lambda>c. c \<noteq> CHR 0x0A) (y @ CHR 0x0A # v) = y" for u v
      using Cons.prems(1,2) ys by (simp_all add: takeWhile_neq_stop)
    with e show ?thesis by metis
  qed
  moreover have "xs = ys'"
    using e Cons.prems(1,2) ys \<open>x = y\<close> by (intro Cons.IH) simp_all
  ultimately show ?case using ys by simp
qed

text \<open>The bytes hashed into the cache key determine the layers up to normalization: for
  references and paths without a newline, two layer lists give the same bytes exactly when their
  keys agree in order, so a cached root file system is never taken for a different build's.\<close>

theorem cache_bytes_faithful:
  assumes "\<forall>l \<in> set ls. CHR 0x0A \<notin> set (layer_key l)" "\<forall>l \<in> set ls'. CHR 0x0A \<notin> set (layer_key l)"
  shows "cache_bytes ls = cache_bytes ls' \<longleftrightarrow> map layer_key ls = map layer_key ls'"
proof
  assume "cache_bytes ls = cache_bytes ls'"
  with assms lines_inj [of "map layer_key ls" "map layer_key ls'"]
  show "map layer_key ls = map layer_key ls'" by (simp add: cache_bytes_def comp_def)
next
  assume "map layer_key ls = map layer_key ls'"
  then have "map (\<lambda>k. k @ [CHR 0x0A]) (map layer_key ls) = map (\<lambda>k. k @ [CHR 0x0A]) (map layer_key ls')"
    by simp
  then show "cache_bytes ls = cache_bytes ls'" by (simp add: cache_bytes_def comp_def)
qed

theorem cache_bytes_faithful_witness:
  "cache_bytes [image_layer ''alpine''] \<noteq> cache_bytes [rootfs_layer ''alpine'']"
proof -
  have k: "layer_key (image_layer ''alpine'') = ''image:registry-1.docker.io/library/alpine:latest''"
    "layer_key (rootfs_layer ''alpine'') = ''rootfs:alpine''"
    by code_simp+
  then show ?thesis
    using cache_bytes_faithful [of "[image_layer ''alpine'']" "[rootfs_layer ''alpine'']"] by simp
qed

end
