(* ===== verification/Config.thy ===== *)
theory Config
  imports ImageRef
begin

text \<open>
  The configuration of \<open>internal/config\<close>: the \<open>Config\<close> struct and its queries (\<open>config.go\<close>), the
  flag values (\<open>flagtypes.go\<close>), the flags each subcommand binds and the adjustments after parsing
  (\<open>flags.go\<close>), and the checks (\<open>validate.go\<close>). The flag library is a parameter: the converters
  it uses for booleans, numbers and durations, and the order of its calls, one \<open>Set\<close> per flag on
  the command line from left to right.
\<close>

section \<open>The struct\<close>

datatype subcommand = SubcommandPivot | SubcommandBuild

primrec subcommand_string :: "subcommand \<Rightarrow> string" where
  "subcommand_string SubcommandPivot = ''pivot''"
| "subcommand_string SubcommandBuild = ''build''"

type_synonym duration = u64 \<comment> \<open>\<open>time.Duration\<close>: nanoseconds, read as signed\<close>

record config =
  Subcommand :: subcommand
  Layers :: "layer list"
  Entrypoint :: string
  EntrypointExplicit :: bool
  Command :: "string list"
  KeepOldRoot :: string
  Contain :: bool
  Force :: bool
  Timeout :: u32
  NoInitCoord :: bool
  SystemdMode :: bool
  Verbose :: bool
  DryRun :: bool
  SkipVerify :: bool
  NoCache :: bool
  CacheDir :: string
  WorkDir :: string
  RootfsSize :: string
  NoRootfsTmpfs :: bool
  LogDir :: string
  Output :: string
  RootfsOutput :: string
  KeepFirewall :: bool
  WatchdogTimeout :: duration
  LogPersistDevice :: string
  LogPersistPath :: string
  SSHEnable :: "bool option"
  SSHPort :: "u16 option"
  SSHPassword :: string
  SSHAuthorizedKeys :: string
  SSHPasswordGenerated :: bool
  TailscaleEnable :: "bool option"
  TailscaleImage :: string
  TailscaleAuthkey :: string
  TailscaleServer :: string
  TailscaleArgs :: string

definition DefaultImage :: string where "DefaultImage = ''docker.io/library/alpine:latest''"
definition DefaultEntrypoint :: string where "DefaultEntrypoint = ''/bin/sh''"
definition DefaultKeepOldRoot :: string where "DefaultKeepOldRoot = ''/mnt/oldroot''"
definition DefaultTimeout :: u32 where "DefaultTimeout = 30"
definition DefaultCacheDir :: string where "DefaultCacheDir = ''/var/cache/xmorph''"
definition DefaultLogPersistPath :: string where "DefaultLogPersistPath = ''/var/log/xmorph''"
definition DefaultWorkDir :: string where "DefaultWorkDir = ''/run/xmorph/rootfs''"
definition DefaultLogDir :: string where "DefaultLogDir = ''/var/log''"
definition DefaultTailscaleImg :: string where
  "DefaultTailscaleImg = ''docker.io/tailscale/tailscale:latest''"

definition new_config :: config where
  "new_config =
     \<lparr>Subcommand = SubcommandPivot, Layers = [], Entrypoint = DefaultEntrypoint,
      EntrypointExplicit = False, Command = [], KeepOldRoot = DefaultKeepOldRoot,
      Contain = False, Force = False, Timeout = DefaultTimeout, NoInitCoord = False,
      SystemdMode = False, Verbose = False, DryRun = False, SkipVerify = False, NoCache = False,
      CacheDir = DefaultCacheDir, WorkDir = DefaultWorkDir, RootfsSize = [], NoRootfsTmpfs = False,
      LogDir = DefaultLogDir, Output = [], RootfsOutput = [], KeepFirewall = False,
      WatchdogTimeout = 0, LogPersistDevice = [], LogPersistPath = DefaultLogPersistPath,
      SSHEnable = None, SSHPort = None, SSHPassword = [], SSHAuthorizedKeys = [],
      SSHPasswordGenerated = False, TailscaleEnable = None, TailscaleImage = DefaultTailscaleImg,
      TailscaleAuthkey = [], TailscaleServer = [], TailscaleArgs = []\<rparr>"

definition ssh_enabled :: "config \<Rightarrow> bool" where
  "ssh_enabled c =
     (case SSHEnable c of
        Some b \<Rightarrow> b
      | None \<Rightarrow> SSHPort c \<noteq> None \<or> SSHPassword c \<noteq> [] \<or> SSHAuthorizedKeys c \<noteq> [])"

definition tailscale_enabled :: "config \<Rightarrow> bool" where
  "tailscale_enabled c = (case TailscaleEnable c of Some b \<Rightarrow> b | None \<Rightarrow> TailscaleAuthkey c \<noteq> [])"

definition has_init_services :: "config \<Rightarrow> bool" where
  "has_init_services c = (ssh_enabled c \<or> tailscale_enabled c \<or> \<not> KeepFirewall c)"

section \<open>Flag values\<close>

datatype flag_error = UnknownFlag string | MissingValue string | BadValue string

text \<open>The converters of the flag library.\<close>

record converters =
  conv_bool :: "string \<Rightarrow> bool option"
  conv_u32 :: "string \<Rightarrow> u32 option"
  conv_duration :: "string \<Rightarrow> duration option"

type_synonym setter = "string \<Rightarrow> config \<Rightarrow> (flag_error, config) res"

definition tristate_bool_set :: "((bool option \<Rightarrow> bool option) \<Rightarrow> config \<Rightarrow> config) \<Rightarrow> setter" where
  "tristate_bool_set upd s c =
     (if s = [] \<or> s = ''true'' then Inr (upd (\<lambda>_. Some True) c)
      else if s = ''false'' then Inr (upd (\<lambda>_. Some False) c)
      else Inl (BadValue s))"

definition tristate_bool_string :: "bool option \<Rightarrow> string" where
  "tristate_bool_string b = (case b of None \<Rightarrow> [] | Some True \<Rightarrow> ''true'' | Some False \<Rightarrow> ''false'')"

definition tristate_uint16_set :: "((u16 option \<Rightarrow> u16 option) \<Rightarrow> config \<Rightarrow> config) \<Rightarrow> setter" where
  "tristate_uint16_set upd s c =
     (case parse_uint 16 s of
        Inl _ \<Rightarrow> Inl (BadValue s)
      | Inr n \<Rightarrow> Inr (upd (\<lambda>_. Some (of_nat n)) c))"

definition tristate_uint16_string :: "u16 option \<Rightarrow> string" where
  "tristate_uint16_string p = (case p of None \<Rightarrow> [] | Some n \<Rightarrow> format_uint (unat n))"

definition layer_set :: "layer_kind \<Rightarrow> setter" where
  "layer_set kind s c =
     (let l = (case kind of LayerImage \<Rightarrow> image_layer s | LayerRootfs \<Rightarrow> rootfs_layer s)
      in Inr (c\<lparr>Layers := Layers c @ [l]\<rparr>))"

primrec layer_type :: "layer_kind \<Rightarrow> string" where
  "layer_type LayerImage = ''imageRef''"
| "layer_type LayerRootfs = ''path''"

definition append_string_set :: "((string list \<Rightarrow> string list) \<Rightarrow> config \<Rightarrow> config) \<Rightarrow> setter" where
  "append_string_set upd s c = Inr (upd (\<lambda>xs. xs @ [s]) c)"

text \<open>\<open>BoolVar\<close>, \<open>StringVar\<close>, \<open>Uint32Var\<close> and \<open>DurationVar\<close> of the flag library.\<close>

definition string_set :: "((string \<Rightarrow> string) \<Rightarrow> config \<Rightarrow> config) \<Rightarrow> setter" where
  "string_set upd s c = Inr (upd (\<lambda>_. s) c)"

definition conv_set :: "(string \<Rightarrow> 'a option) \<Rightarrow> (('a \<Rightarrow> 'a) \<Rightarrow> config \<Rightarrow> config) \<Rightarrow> setter" where
  "conv_set conv upd s c =
     (case conv s of None \<Rightarrow> Inl (BadValue s) | Some v \<Rightarrow> Inr (upd (\<lambda>_. v) c))"

section \<open>The flags of each subcommand\<close>

record flag =
  flag_name :: string
  shorthand :: "char option"
  bare_value :: "string option" \<comment> \<open>\<open>NoOptDefVal\<close>: what the flag means without a value\<close>
  set_value :: setter

definition plain_flag :: "string \<Rightarrow> setter \<Rightarrow> flag" where
  "plain_flag n f = \<lparr>flag_name = n, shorthand = None, bare_value = None, set_value = f\<rparr>"

definition bool_flag :: "string \<Rightarrow> char option \<Rightarrow> setter \<Rightarrow> flag" where
  "bool_flag n c f = \<lparr>flag_name = n, shorthand = c, bare_value = Some ''true'', set_value = f\<rparr>"

definition bind_common :: "converters \<Rightarrow> flag list" where
  "bind_common cv =
     [plain_flag ''image'' (layer_set LayerImage),
      plain_flag ''rootfs'' (layer_set LayerRootfs),
      bool_flag ''verbose'' (Some CHR ''v'') (conv_set (conv_bool cv) Verbose_update),
      bool_flag ''no-cache'' None (conv_set (conv_bool cv) NoCache_update),
      plain_flag ''work-dir'' (string_set WorkDir_update),
      plain_flag ''rootfs-size'' (string_set RootfsSize_update),
      bool_flag ''no-rootfs-tmpfs'' None (conv_set (conv_bool cv) NoRootfsTmpfs_update)]"

definition bind_pivot_only :: "converters \<Rightarrow> flag list" where
  "bind_pivot_only cv =
     [plain_flag ''entrypoint'' (string_set Entrypoint_update),
      plain_flag ''command'' (append_string_set Command_update),
      plain_flag ''cmd'' (append_string_set Command_update),
      \<lparr>flag_name = ''keep-old-root'', shorthand = None, bare_value = Some DefaultKeepOldRoot,
       set_value = string_set KeepOldRoot_update\<rparr>,
      bool_flag ''no-keep-old-root'' None (conv_set (conv_bool cv) (\<lambda>_ c. c)),
      bool_flag ''contain'' (Some CHR ''c'') (conv_set (conv_bool cv) Contain_update),
      bool_flag ''force'' (Some CHR ''f'') (conv_set (conv_bool cv) Force_update),
      plain_flag ''timeout'' (conv_set (conv_u32 cv) Timeout_update),
      bool_flag ''no-init-coord'' None (conv_set (conv_bool cv) NoInitCoord_update),
      bool_flag ''dry-run'' (Some CHR ''n'') (conv_set (conv_bool cv) DryRun_update),
      bool_flag ''skip-verify'' None (conv_set (conv_bool cv) SkipVerify_update),
      plain_flag ''cache-dir'' (string_set CacheDir_update),
      plain_flag ''log-dir'' (string_set LogDir_update),
      bool_flag ''systemd-mode'' None (conv_set (conv_bool cv) SystemdMode_update),
      bool_flag ''keep-firewall'' None (conv_set (conv_bool cv) KeepFirewall_update),
      plain_flag ''watchdog-timeout'' (conv_set (conv_duration cv) WatchdogTimeout_update),
      plain_flag ''log-persist-device'' (string_set LogPersistDevice_update),
      plain_flag ''log-persist-path'' (string_set LogPersistPath_update)]"

definition bind_build_only :: "flag list" where
  "bind_build_only =
     [\<lparr>flag_name = ''output'', shorthand = Some CHR ''o'', bare_value = None,
       set_value = string_set Output_update\<rparr>,
      plain_flag ''rootfs-output'' (string_set RootfsOutput_update),
      plain_flag ''cache-dir'' (string_set CacheDir_update)]"

definition bind_ssh :: "flag list" where
  "bind_ssh =
     [bool_flag ''ssh.enable'' None (tristate_bool_set SSHEnable_update),
      plain_flag ''ssh.port'' (tristate_uint16_set SSHPort_update),
      plain_flag ''ssh.password'' (string_set SSHPassword_update),
      plain_flag ''ssh.authorized-keys'' (string_set SSHAuthorizedKeys_update)]"

definition bind_tailscale :: "flag list" where
  "bind_tailscale =
     [bool_flag ''tailscale.enable'' None (tristate_bool_set TailscaleEnable_update),
      plain_flag ''tailscale.image'' (string_set TailscaleImage_update),
      plain_flag ''tailscale.authkey'' (string_set TailscaleAuthkey_update),
      plain_flag ''tailscale.server'' (string_set TailscaleServer_update),
      plain_flag ''tailscale.args'' (string_set TailscaleArgs_update)]"

definition bind_pivot :: "converters \<Rightarrow> flag list" where
  "bind_pivot cv = bind_common cv @ bind_pivot_only cv @ bind_ssh @ bind_tailscale"

definition bind_build :: "converters \<Rightarrow> flag list" where
  "bind_build cv = bind_common cv @ bind_build_only @ bind_tailscale"

text \<open>\<open>BindBuild\<close> also names the subcommand.\<close>

definition build_defaults :: config where
  "build_defaults = new_config\<lparr>Subcommand := SubcommandBuild\<rparr>"

text \<open>Parsing, as the flag library drives the setters: the flags in the order of the command
  line, each with the value given to it, if any; the first error stops it.\<close>

type_synonym occurrence = "string \<times> string option"

definition apply_flag :: "flag list \<Rightarrow> config \<Rightarrow> occurrence \<Rightarrow> (flag_error, config) res" where
  "apply_flag fs c occ =
     (case find (\<lambda>f. flag_name f = fst occ) fs of
        None \<Rightarrow> Inl (UnknownFlag (fst occ))
      | Some f \<Rightarrow>
          (case (snd occ, bare_value f) of
             (Some s, _) \<Rightarrow> set_value f s c
           | (None, Some s) \<Rightarrow> set_value f s c
           | (None, None) \<Rightarrow> Inl (MissingValue (fst occ))))"

fun parse_flags :: "flag list \<Rightarrow> config \<Rightarrow> occurrence list \<Rightarrow> (flag_error, config) res" where
  "parse_flags fs c [] = Inr c"
| "parse_flags fs c (occ # occs) = bind_res (apply_flag fs c occ) (\<lambda>c'. parse_flags fs c' occs)"

definition changed :: "occurrence list \<Rightarrow> string \<Rightarrow> bool" where
  "changed occs name = (name \<in> fst ` set occs)"

section \<open>Normalize\<close>

definition env_overrides :: "(string \<Rightarrow> bool) \<Rightarrow> (string \<Rightarrow> string option) \<Rightarrow> config \<Rightarrow> config" where
  "env_overrides ch env c =
     (let c1 = (case env ''CACHE_DIRECTORY'' of
                  Some dir \<Rightarrow> if \<not> ch ''cache-dir'' \<and> dir \<noteq> [] then c\<lparr>CacheDir := dir\<rparr> else c
                | None \<Rightarrow> c)
      in case env ''RUNTIME_DIRECTORY'' of
           Some dir \<Rightarrow> if \<not> ch ''work-dir'' \<and> dir \<noteq> [] then c1\<lparr>WorkDir := dir @ ''/rootfs''\<rparr> else c1
         | None \<Rightarrow> c1)"

definition implied_port :: "config \<Rightarrow> config" where
  "implied_port c =
     (if SSHPort c = None \<and>
         (SSHEnable c = Some True \<or> SSHPassword c \<noteq> [] \<or> SSHAuthorizedKeys c \<noteq> [])
      then c\<lparr>SSHPort := Some 22\<rparr> else c)"

definition normalize_config ::
  "(string \<Rightarrow> bool) \<Rightarrow> string list \<Rightarrow> (string \<Rightarrow> string option) \<Rightarrow> config \<Rightarrow> config" where
  "normalize_config ch positional env c =
     (let c1 = env_overrides ch env c;
          c2 = (if ch ''no-keep-old-root'' then c1\<lparr>KeepOldRoot := []\<rparr> else c1);
          c3 = c2\<lparr>EntrypointExplicit := ch ''entrypoint''\<rparr>;
          c4 = (if SystemdMode c3 then c3\<lparr>NoInitCoord := True, Force := True\<rparr> else c3);
          c5 = implied_port c4;
          c6 = c5\<lparr>Command := Command c5 @ positional\<rparr>;
          c7 = (if Layers c6 = [] then c6\<lparr>Layers := [image_layer DefaultImage]\<rparr> else c6)
      in c7\<lparr>Layers := deduplicate_layers (Layers c7)\<rparr>)"

section \<open>Validate\<close>

datatype config_error = InvalidTimeout | WatchdogTooShort

datatype config_warning = ArgsWithoutAuthkey | ImageWithoutAuthkey | ImageDeprecated

definition second :: duration where "second = 1000000000"

definition validate_config :: "config \<Rightarrow> (config_error, config_warning list) res" where
  "validate_config c =
     (if Timeout c = 0 then Inl InvalidTimeout
      else if WatchdogTimeout c \<noteq> 0 \<and> sint (WatchdogTimeout c) < sint second then Inl WatchdogTooShort
      else Inr
        ((if TailscaleAuthkey c = [] then
            (if TailscaleArgs c \<noteq> [] then [ArgsWithoutAuthkey] else []) @
            (if TailscaleImage c \<noteq> DefaultTailscaleImg then [ImageWithoutAuthkey] else [])
          else []) @
         (if TailscaleImage c \<noteq> DefaultTailscaleImg then [ImageDeprecated] else [])))"

end
