(* ===== verification/ConfigProofs.thy ===== *)
theory ConfigProofs
  imports Config
begin

text \<open>Properties of the configuration: flags take effect in the order given, and the result of
  \<open>Normalize\<close> satisfies what the rest of the program relies on.\<close>

section \<open>The order of the command line\<close>

definition layer_arg :: "occurrence \<Rightarrow> layer list" where
  "layer_arg occ =
     (case occ of
        (n, Some s) \<Rightarrow> if n = ''image'' then [image_layer s] else if n = ''rootfs'' then [rootfs_layer s] else []
      | (n, None) \<Rightarrow> [])"

definition command_arg :: "occurrence \<Rightarrow> string list" where
  "command_arg occ =
     (case occ of (n, Some s) \<Rightarrow> if n = ''command'' \<or> n = ''cmd'' then [s] else [] | (n, None) \<Rightarrow> [])"

text \<open>What one flag may do to the two repeatable fields.\<close>

definition appends_only :: "flag \<Rightarrow> bool" where
  "appends_only f \<longleftrightarrow>
     (\<forall>s c c'. set_value f s c = Inr c' \<longrightarrow>
        Layers c' = Layers c @ layer_arg (flag_name f, Some s) \<and>
        Command c' = Command c @ command_arg (flag_name f, Some s)) \<and>
     (bare_value f \<noteq> None \<longrightarrow> flag_name f \<notin> {''image'', ''rootfs'', ''command'', ''cmd''})"

lemmas setter_defs =
  plain_flag_def bool_flag_def tristate_bool_set_def tristate_uint16_set_def layer_set_def
  append_string_set_def string_set_def conv_set_def

lemmas binder_defs = bind_common_def bind_pivot_only_def bind_build_only_def bind_ssh_def bind_tailscale_def

lemma flag_sel [simp]:
  "flag_name (plain_flag n f) = n" "bare_value (plain_flag n f) = None" "set_value (plain_flag n f) = f"
  "flag_name (bool_flag n k f) = n" "bare_value (bool_flag n k f) = Some ''true''" "set_value (bool_flag n k f) = f"
  by (simp_all add: plain_flag_def bool_flag_def)

lemma appends_common: "list_all appends_only (bind_common cv)"
  by (simp add: bind_common_def appends_only_def layer_arg_def command_arg_def setter_defs split: option.split)

lemma appends_pivot_only: "list_all appends_only (bind_pivot_only cv)"
  by (simp add: bind_pivot_only_def appends_only_def layer_arg_def command_arg_def setter_defs split: option.split)

lemma appends_rest: "list_all appends_only (bind_build_only @ bind_ssh @ bind_tailscale)"
  by (simp add: binder_defs appends_only_def layer_arg_def command_arg_def setter_defs
      split: option.split sum.split)

lemma apply_flag_appends:
  assumes "list_all appends_only fs" "apply_flag fs c occ = Inr c'"
  shows "Layers c' = Layers c @ layer_arg occ \<and> Command c' = Command c @ command_arg occ"
proof -
  obtain f where f: "find (\<lambda>f. flag_name f = fst occ) fs = Some f"
    using assms(2) by (cases "find (\<lambda>f. flag_name f = fst occ) fs") (auto simp: apply_flag_def)
  then have n: "flag_name f = fst occ" "f \<in> set fs" by (auto simp: find_Some_iff)
  then have a: "appends_only f" using assms(1) by (simp add: list_all_iff)
  show ?thesis
  proof (cases "snd occ")
    case (Some s)
    with assms(2) f a n show ?thesis
      by (cases occ) (auto simp: apply_flag_def appends_only_def)
  next
    case None
    with assms(2) f obtain s where "bare_value f = Some s" "set_value f s c = Inr c'"
      by (cases "bare_value f") (auto simp: apply_flag_def)
    with a n None show ?thesis
      by (cases occ) (auto simp: appends_only_def layer_arg_def command_arg_def split: if_splits)
  qed
qed

lemma parse_flags_appends:
  assumes "list_all appends_only fs" "parse_flags fs c occs = Inr c'"
  shows "Layers c' = Layers c @ concat (map layer_arg occs) \<and>
    Command c' = Command c @ concat (map command_arg occs)"
  using assms(2)
proof (induction occs arbitrary: c)
  case (Cons occ occs)
  then obtain c1 where "apply_flag fs c occ = Inr c1" "parse_flags fs c1 occs = Inr c'"
    by (auto simp: bind_res_eq_Inr)
  with Cons.IH [of c1] apply_flag_appends [OF assms(1), of c occ c1] show ?case by simp
qed simp

text \<open>Parsing a pivot command line keeps the layers in the order their \<open>--image\<close> and
  \<open>--rootfs\<close> flags were given, however interleaved with each other and with other flags, and
  collects the arguments of \<open>--command\<close> and its alias \<open>--cmd\<close> in order; no other flag touches
  either list.\<close>

theorem pivot_flags_in_order:
  assumes "parse_flags (bind_pivot cv) c occs = Inr c'"
  shows "Layers c' = Layers c @ concat (map layer_arg occs) \<and>
    Command c' = Command c @ concat (map command_arg occs)"
  using parse_flags_appends [OF _ assms] appends_common appends_pivot_only appends_rest
  by (simp add: bind_pivot_def)

definition sample_converters :: converters where
  "sample_converters =
     \<lparr>conv_bool = (\<lambda>s. if s = ''true'' then Some True else if s = ''false'' then Some False else None),
      conv_u32 = (\<lambda>s. case parse_uint 32 s of Inr n \<Rightarrow> Some (of_nat n) | Inl _ \<Rightarrow> None),
      conv_duration = (\<lambda>s. None)\<rparr>"

theorem pivot_flags_in_order_witness:
  "\<exists>c'. parse_flags (bind_pivot sample_converters) new_config
       [(''rootfs'', Some ''/a''), (''force'', None), (''cmd'', Some ''x''), (''image'', Some ''i''),
        (''command'', Some ''y'')] = Inr c' \<and>
     Layers c' = [rootfs_layer ''/a'', image_layer ''i''] \<and> Command c' = [''x'', ''y'']"
proof -
  let ?occs = "[(''rootfs'', Some ''/a''), (''force'', None), (''cmd'', Some ''x''),
      (''image'', Some ''i''), (''command'', Some ''y'')]"
  have "\<exists>c'. parse_flags (bind_pivot sample_converters) new_config ?occs = Inr c'"
    by (simp add: apply_flag_def bind_pivot_def binder_defs setter_defs sample_converters_def)
  then obtain c' where p: "parse_flags (bind_pivot sample_converters) new_config ?occs = Inr c'" by blast
  with pivot_flags_in_order [OF p] show ?thesis by (simp add: layer_arg_def command_arg_def new_config_def)
qed

section \<open>Normalized configurations\<close>

lemma env_overrides_sel [simp]:
  "Layers (env_overrides ch env c) = Layers c" "SSHPort (env_overrides ch env c) = SSHPort c"
  "SSHEnable (env_overrides ch env c) = SSHEnable c" "SSHPassword (env_overrides ch env c) = SSHPassword c"
  "SSHAuthorizedKeys (env_overrides ch env c) = SSHAuthorizedKeys c"
  "SystemdMode (env_overrides ch env c) = SystemdMode c" "Command (env_overrides ch env c) = Command c"
  "KeepOldRoot (env_overrides ch env c) = KeepOldRoot c"
  "LogPersistPath (env_overrides ch env c) = LogPersistPath c"
  by (auto simp: env_overrides_def Let_def split: option.splits)

lemma implied_port_sel [simp]:
  "LogPersistPath (implied_port c) = LogPersistPath c"
  "Layers (implied_port c) = Layers c" "Command (implied_port c) = Command c"
  "SystemdMode (implied_port c) = SystemdMode c" "NoInitCoord (implied_port c) = NoInitCoord c"
  "Force (implied_port c) = Force c" "KeepOldRoot (implied_port c) = KeepOldRoot c"
  "SSHEnable (implied_port c) = SSHEnable c" "SSHPassword (implied_port c) = SSHPassword c"
  "SSHAuthorizedKeys (implied_port c) = SSHAuthorizedKeys c"
  by (simp_all add: implied_port_def)

lemma implied_port_enabled:
  "ssh_enabled (implied_port c) \<Longrightarrow> \<exists>p. SSHPort (implied_port c) = Some p"
  by (auto simp: implied_port_def ssh_enabled_def split: option.splits if_splits)

lemma ssh_enabled_update [simp]:
  "ssh_enabled (c\<lparr>Layers := ls\<rparr>) = ssh_enabled c" "ssh_enabled (c\<lparr>Command := xs\<rparr>) = ssh_enabled c"
  by (simp_all add: ssh_enabled_def split: option.split)

lemma normalize_paths:
  "KeepOldRoot (normalize_config ch args env c) = (if ch ''no-keep-old-root'' then [] else KeepOldRoot c)"
  "LogPersistPath (normalize_config ch args env c) = LogPersistPath c"
  by (simp_all add: normalize_config_def Let_def)

text \<open>\<open>--no-keep-old-root=false\<close> is taken for \<open>--no-keep-old-root\<close>: its value goes to a variable nobody
  reads, and \<open>Normalize\<close> asks only whether the flag was given.\<close>

lemma no_keep_old_root_false:
  "KeepOldRoot (normalize_config (changed [(''no-keep-old-root'', Some ''false'')]) args env c) = []"
  by (simp add: normalize_paths changed_def)

lemma deduplicate_nonempty: "ls \<noteq> [] \<Longrightarrow> deduplicate_layers ls \<noteq> []"
  by (simp add: deduplicate_last)

lemma deduplicate_keys: "distinct (map layer_key (deduplicate_layers ls))"
  by (simp only: deduplicate_last last_of_each_keys distinct_remdups)

text \<open>A normalized configuration has at least one layer and no two with the same key; if SSH is
  enabled it has a port; systemd mode implies force and no init coordination; with
  \<open>--no-keep-old-root\<close> the old root is not kept; and the arguments after \<open>--\<close> follow those of
  \<open>--command\<close>.\<close>

theorem normalize_config_invariant:
  "let c' = normalize_config ch positional env c
   in Layers c' \<noteq> [] \<and> distinct (map layer_key (Layers c')) \<and>
      (ssh_enabled c' \<longrightarrow> SSHPort c' \<noteq> None) \<and>
      (SystemdMode c' \<longrightarrow> Force c' \<and> NoInitCoord c') \<and>
      (ch ''no-keep-old-root'' \<longrightarrow> KeepOldRoot c' = []) \<and>
      Command c' = Command c @ positional"
proof -
  let ?c = "normalize_config ch positional env c"
  have "Layers ?c \<noteq> []" by (simp add: normalize_config_def Let_def deduplicate_nonempty)
  moreover have "distinct (map layer_key (Layers ?c))"
    by (simp add: normalize_config_def Let_def deduplicate_keys)
  moreover have "ssh_enabled ?c \<longrightarrow> SSHPort ?c \<noteq> None"
    unfolding normalize_config_def Let_def by (simp add: implied_port_enabled cong: if_cong)
  moreover have "SystemdMode ?c \<longrightarrow> Force ?c \<and> NoInitCoord ?c"
    by (simp add: normalize_config_def Let_def)
  moreover have "ch ''no-keep-old-root'' \<longrightarrow> KeepOldRoot ?c = []"
    by (simp add: normalize_config_def Let_def)
  moreover have "Command ?c = Command c @ positional"
    by (simp add: normalize_config_def Let_def)
  ultimately show ?thesis by (simp only: Let_def simp_thms)
qed

theorem normalize_config_invariant_witness:
  "ssh_enabled (normalize_config (\<lambda>_. False) [] (\<lambda>_. None) (new_config\<lparr>SSHPassword := ''pw''\<rparr>)) \<and>
   SSHPort (normalize_config (\<lambda>_. False) [] (\<lambda>_. None) (new_config\<lparr>SSHPassword := ''pw''\<rparr>)) \<noteq> None"
proof -
  have "ssh_enabled (normalize_config (\<lambda>_. False) [] (\<lambda>_. None) (new_config\<lparr>SSHPassword := ''pw''\<rparr>))"
    by (simp add: normalize_config_def new_config_def env_overrides_def implied_port_def ssh_enabled_def Let_def)
  then show ?thesis
    using normalize_config_invariant [of "\<lambda>_. False" "[]" "\<lambda>_. None" "new_config\<lparr>SSHPassword := ''pw''\<rparr>"]
    by (simp add: Let_def)
qed

lemma port_roundtrip:
  "tristate_uint16_set SSHPort_update (tristate_uint16_string (Some p)) c = Inr (c\<lparr>SSHPort := Some p\<rparr>)"
proof -
  have "unat p < 2 ^ 16" using unsigned_less [of p] by simp
  then show ?thesis
    by (simp add: tristate_uint16_set_def tristate_uint16_string_def parse_uint_format)
qed

end
