(* ===== verification/ImageConfig.thy ===== *)
theory ImageConfig
  imports Prelude
begin

text \<open>
  The image configuration of \<open>internal/oci/config.go\<close>: what is read from an image and how the
  configurations of several images merge. A Go slice that is nil and one that is empty differ in
  \<open>MergeImageConfig\<close>, so the slices are optional lists.
\<close>

section \<open>The struct\<close>

record image_config =
  Entrypoint :: "string list option"
  Cmd :: "string list option"
  Env :: "string list option"
  WorkingDir :: string

text \<open>\<open>append([]string(nil), xs...)\<close>: nil when there is nothing to append.\<close>

definition clone_slice :: "string list option \<Rightarrow> string list option" where
  "clone_slice xs = (case xs of Some (y # ys) \<Rightarrow> Some (y # ys) | _ \<Rightarrow> None)"

definition slice :: "string list option \<Rightarrow> string list" where
  "slice xs = (case xs of None \<Rightarrow> [] | Some ys \<Rightarrow> ys)"

text \<open>\<open>ReadImageConfig\<close> over what \<open>ConfigFile\<close> of the image library answers: an error, nil, or the
  fields of the configuration blob.\<close>

definition read_image_config ::
  "('e, image_config option) res \<Rightarrow> ('e, image_config option) res" where
  "read_image_config cf =
     (case cf of
        Inl e \<Rightarrow> Inl e
      | Inr None \<Rightarrow> Inr None
      | Inr (Some c) \<Rightarrow>
          Inr (Some \<lparr>Entrypoint = clone_slice (Entrypoint c), Cmd = clone_slice (Cmd c),
                     Env = clone_slice (Env c), WorkingDir = WorkingDir c\<rparr>))"

section \<open>Merging\<close>

definition env_key :: "string \<Rightarrow> string" where
  "env_key entry = takeWhile (\<lambda>c. c \<noteq> CHR ''='') entry"

text \<open>The inner loop: replace the first entry with the key, if there is one.\<close>

fun replace_first :: "string \<Rightarrow> string list \<Rightarrow> string list option" where
  "replace_first e [] = None"
| "replace_first e (x # xs) =
     (if env_key x = env_key e then Some (e # xs) else map_option (Cons x) (replace_first e xs))"

definition merge_one :: "string list \<Rightarrow> string \<Rightarrow> string list" where
  "merge_one out e = (case replace_first e out of Some out' \<Rightarrow> out' | None \<Rightarrow> out @ [e])"

definition merge_env :: "string list \<Rightarrow> string list \<Rightarrow> string list" where
  "merge_env base overlay = foldl merge_one base overlay"

definition merge_image_config ::
  "image_config option \<Rightarrow> image_config option \<Rightarrow> image_config option" where
  "merge_image_config base overlay =
     (case (base, overlay) of
        (None, _) \<Rightarrow> overlay
      | (Some b, None) \<Rightarrow> Some b
      | (Some b, Some ov) \<Rightarrow>
          Some \<lparr>Entrypoint = (if Entrypoint ov \<noteq> None then Entrypoint ov else Entrypoint b),
                Cmd = (if Cmd ov \<noteq> None then Cmd ov else Cmd b),
                Env = (case Env ov of None \<Rightarrow> Env b | Some es \<Rightarrow>
                         (let merged = merge_env (slice (Env b)) es
                          in if slice (Env b) = [] \<and> es = [] then None else Some merged)),
                WorkingDir = (if WorkingDir ov \<noteq> [] then WorkingDir ov else WorkingDir b)\<rparr>)"

section \<open>The environment as a map\<close>

text \<open>The abstract view: the entry in force for a key is the first with that key.\<close>

fun env_entry :: "string list \<Rightarrow> string \<Rightarrow> string option" where
  "env_entry [] k = None"
| "env_entry (e # es) k = (if env_key e = k then Some e else env_entry es k)"

lemma replace_first_None: "replace_first e xs = None \<longleftrightarrow> env_entry xs (env_key e) = None"
  by (induction xs) auto

lemma replace_first_Some:
  "replace_first e xs = Some ys \<Longrightarrow>
    env_entry ys k = (if k = env_key e then Some e else env_entry xs k) \<and> map env_key ys = map env_key xs"
proof (induction xs arbitrary: ys)
  case (Cons x xs)
  show ?case
  proof (cases "env_key x = env_key e")
    case True
    with Cons.prems show ?thesis by auto
  next
    case False
    with Cons.prems obtain zs where "replace_first e xs = Some zs" "ys = x # zs" by auto
    with Cons.IH [of zs] False show ?thesis by auto
  qed
qed simp

lemma env_entry_append:
  "env_entry (xs @ ys) k = (case env_entry xs k of Some e \<Rightarrow> Some e | None \<Rightarrow> env_entry ys k)"
  by (induction xs) auto

lemma env_entry_merge_one:
  "env_entry (merge_one out e) k = (if k = env_key e then Some e else env_entry out k)"
proof (cases "replace_first e out")
  case None
  then have "env_entry out (env_key e) = None" by (simp add: replace_first_None)
  with None show ?thesis by (auto simp: merge_one_def env_entry_append split: option.split)
next
  case (Some ys)
  with replace_first_Some [OF Some] show ?thesis by (simp add: merge_one_def)
qed

lemma env_entry_None: "env_entry xs k = None \<longleftrightarrow> k \<notin> set (map env_key xs)"
  by (induction xs) auto

lemma merge_one_keys:
  "map env_key (merge_one out e) =
    (if env_key e \<in> set (map env_key out) then map env_key out else map env_key out @ [env_key e])"
proof (cases "replace_first e out")
  case None
  then have "env_key e \<notin> set (map env_key out)" by (simp only: replace_first_None env_entry_None not_False_eq_True)
  then show ?thesis using None by (simp add: merge_one_def)
next
  case (Some ys)
  then have "env_key e \<in> set (map env_key out)"
    using replace_first_None [of e out] env_entry_None [of out "env_key e"] by auto
  then show ?thesis using replace_first_Some [OF Some, of "[]"] Some by (simp add: merge_one_def)
qed

lemma env_entry_merge:
  "env_entry (merge_env base overlay) k =
    (case env_entry (rev overlay) k of Some e \<Rightarrow> Some e | None \<Rightarrow> env_entry base k)"
  by (induction overlay arbitrary: base)
     (auto simp: merge_env_def env_entry_append env_entry_merge_one split: option.splits)

text \<open>C32: Merging environments is overriding one map by another: for every variable the entry in
  force is the last one the overlay gives, or else the one of the base; the variables of the base
  keep their positions, new ones come after them, and no variable appears twice if none did.\<close>

theorem merge_env_overrides:
  "env_entry (merge_env base overlay) k =
     (case env_entry (rev overlay) k of Some e \<Rightarrow> Some e | None \<Rightarrow> env_entry base k) \<and>
   (\<exists>new. map env_key (merge_env base overlay) = map env_key base @ new \<and>
      set new = env_key ` set overlay - env_key ` set base \<and> distinct new)"
proof
  show "\<exists>new. map env_key (merge_env base overlay) = map env_key base @ new \<and>
      set new = env_key ` set overlay - env_key ` set base \<and> distinct new"
  proof (induction overlay rule: rev_induct)
    case (snoc e es)
    then obtain new where n: "map env_key (merge_env base es) = map env_key base @ new"
        "set new = env_key ` set es - env_key ` set base" "distinct new" by blast
    have m: "merge_env base (es @ [e]) = merge_one (merge_env base es) e" by (simp add: merge_env_def)
    show ?case
    proof (cases "env_key e \<in> set (map env_key base @ new)")
      case True
      then have "map env_key (merge_env base (es @ [e])) = map env_key base @ new"
        by (simp only: m merge_one_keys n(1) if_True)
      with True n(2,3) show ?thesis by (intro exI [of _ new]) auto
    next
      case False
      then have "map env_key (merge_env base (es @ [e])) = map env_key base @ new @ [env_key e]"
        by (simp only: m merge_one_keys n(1) if_False append_assoc)
      with False n(2,3) show ?thesis by (intro exI [of _ "new @ [env_key e]"]) auto
    qed
  qed (simp add: merge_env_def)
qed (rule env_entry_merge)

lemma merge_image_config_None: "merge_image_config None c = c" "merge_image_config c None = c"
  by (simp_all add: merge_image_config_def split: option.split)

end
