(* ===== verification/WalkDir.thy ===== *)
theory WalkDir
  imports FileSystem
begin

text \<open>
  \<open>filepath.WalkDir\<close> of Go's library, for every walk the program makes: the function given to it runs
  on a state of its own and is handed the names below the root and what the listing said of the
  entry; an error from it, or from listing a directory, ends the walk. The depth is bounded by
  \<open>fuel\<close>, since a walk whose function writes below the root need not end; \<open>None\<close> means that the
  bound was reached.
\<close>

function walk_dir ::
    "('s \<Rightarrow> string list \<Rightarrow> bool \<Rightarrow> errno option \<times> 's) \<Rightarrow>
     ('s \<Rightarrow> string list \<Rightarrow> (errno, (string \<times> bool) list) res) \<Rightarrow>
     nat \<Rightarrow> 's \<Rightarrow> string list \<Rightarrow> bool \<Rightarrow> (errno option \<times> 's) option"
  and walk_entries ::
    "('s \<Rightarrow> string list \<Rightarrow> bool \<Rightarrow> errno option \<times> 's) \<Rightarrow>
     ('s \<Rightarrow> string list \<Rightarrow> (errno, (string \<times> bool) list) res) \<Rightarrow>
     nat \<Rightarrow> 's \<Rightarrow> string list \<Rightarrow> (string \<times> bool) list \<Rightarrow> (errno option \<times> 's) option"
where
  "walk_dir fn ls 0 s names entry_dir = None"
| "walk_dir fn ls (Suc fuel) s names entry_dir =
     (case fn s names entry_dir of
        (Some e, s1) \<Rightarrow> Some (Some e, s1)
      | (None, s1) \<Rightarrow>
          if \<not> entry_dir then Some (None, s1)
          else (case ls s1 names of
                  Inl e \<Rightarrow> Some (Some e, s1)
                | Inr es \<Rightarrow> walk_entries fn ls fuel s1 names es))"
| "walk_entries fn ls fuel s names [] = Some (None, s)"
| "walk_entries fn ls fuel s names ((c, d) # es) =
     (case walk_dir fn ls fuel s (names @ [c]) d of
        None \<Rightarrow> None
      | Some (Some e, s1) \<Rightarrow> Some (Some e, s1)
      | Some (None, s1) \<Rightarrow> walk_entries fn ls fuel s1 names es)"
  by pat_completeness auto
termination
  by (relation "measures
        [case_sum (\<lambda>(fn, ls, fuel, _). fuel) (\<lambda>(fn, ls, fuel, _). fuel),
         case_sum (\<lambda>_. 0) (\<lambda>(fn, ls, fuel, s, names, es). Suc (length es))]")
    auto

text \<open>What a listing says of each entry: its name, and whether it is a directory itself.\<close>

definition read_dir_types :: "fs \<Rightarrow> string \<Rightarrow> (errno, (string \<times> bool) list) res" where
  "read_dir_types t dir =
     bind_res (resolve t True (comps dir))
       (\<lambda>p. bind_res (read_dir t dir) (\<lambda>names. Inr (map (\<lambda>c. (c, dir_at t (p @ [c]))) names)))"

end
