(* ===== verification/Rootfs.thy ===== *)
theory Rootfs
  imports ExtractEffects ImageRef ImageConfig WalkDir
begin

text \<open>
  Assembling the root file system: the classification of sources (\<open>internal/oci/source.go\<close>),
  loading (\<open>load.go\<close>), and \<open>internal/rootfs\<close>: the builder (\<open>builder.go\<close>), the copy of a plain
  directory (\<open>copy.go\<close>) and emptying the target (\<open>clean.go\<close>). The image library is a parameter:
  what it answers for a reference, an archive or a layout.
\<close>

section \<open>Sources\<close>

datatype source_kind =
    SourceRegistry | SourceDockerTarball | SourceOCILayout | SourceRawTarball | SourceRawDirectory

definition looks_like_local_path :: "string \<Rightarrow> bool" where
  "looks_like_local_path s = (s \<noteq> [] \<and> (hd s = slash \<or> hd s = CHR ''.''))"

definition classify_image :: "fs \<Rightarrow> string \<Rightarrow> source_kind" where
  "classify_image t ref =
     (if \<not> looks_like_local_path ref then SourceRegistry
      else case stat t ref of
        Inl _ \<Rightarrow> SourceRegistry
      | Inr n \<Rightarrow> if is_dir n then SourceOCILayout else SourceDockerTarball)"

definition classify_rootfs :: "fs \<Rightarrow> string \<Rightarrow> source_kind" where
  "classify_rootfs t path =
     (case stat t path of
        Inl _ \<Rightarrow> SourceRawTarball
      | Inr n \<Rightarrow> if is_dir n then SourceRawDirectory else SourceRawTarball)"

section \<open>Loading an image\<close>

record oci_image =
  img_layers :: "(errno, (errno, tar_item list) res list) res"
  img_config :: "(errno, image_config option) res"

datatype pull_error = BadReference | HttpStatus nat | PullFailed errno

text \<open>The image library: pulling, opening a saved archive, and reading a layout directory.\<close>

record image_library =
  remote_image :: "string \<Rightarrow> (pull_error, oci_image) res"
  tarball_image :: "string \<Rightarrow> (errno, oci_image) res"
  layout_open :: "string \<Rightarrow> errno option"
  layout_index :: "string \<Rightarrow> errno option"
  layout_manifests :: "string \<Rightarrow> (errno, string list) res"
  layout_image :: "string \<Rightarrow> string \<Rightarrow> (errno, oci_image) res"

datatype load_error =
    RegistryError pull_error
  | TarballError errno
  | OpenLayout errno
  | ReadIndex errno
  | ParseIndex errno
  | NoManifests
  | UnsupportedKind

fun first_image :: "(string \<Rightarrow> (errno, oci_image) res) \<Rightarrow> string list \<Rightarrow> (load_error, oci_image) res" where
  "first_image get [] = Inl NoManifests"
| "first_image get (d # ds) =
     (case get d of Inr img \<Rightarrow> Inr img | Inl _ \<Rightarrow> first_image get ds)"

definition load_image :: "image_library \<Rightarrow> string \<Rightarrow> source_kind \<Rightarrow> (load_error, oci_image) res" where
  "load_image lib ref kind =
     (case kind of
        SourceRegistry \<Rightarrow>
          (case remote_image lib ref of Inl e \<Rightarrow> Inl (RegistryError e) | Inr img \<Rightarrow> Inr img)
      | SourceDockerTarball \<Rightarrow>
          (case tarball_image lib ref of Inl e \<Rightarrow> Inl (TarballError e) | Inr img \<Rightarrow> Inr img)
      | SourceOCILayout \<Rightarrow>
          (case layout_open lib ref of
             Some e \<Rightarrow> Inl (OpenLayout e)
           | None \<Rightarrow>
               (case layout_index lib ref of
                  Some e \<Rightarrow> Inl (ReadIndex e)
                | None \<Rightarrow>
                    (case layout_manifests lib ref of
                       Inl e \<Rightarrow> Inl (ParseIndex e)
                     | Inr ds \<Rightarrow> first_image (layout_image lib ref) ds)))
      | _ \<Rightarrow> Inl UnsupportedKind)"

section \<open>Emptying the target\<close>

definition clean_target :: "fs \<Rightarrow> string \<Rightarrow> outcome" where
  "clean_target t dir =
     (case read_dir t dir of
        Inl e \<Rightarrow> if e = ENOENT then mkdir_all t dir 0x1ED else (Some e, t)
      | Inr names \<Rightarrow> remove_each t dir names)"

section \<open>Copying a directory\<close>

definition perm :: "mode \<Rightarrow> mode" where "perm m = m AND 0x1FF"

fun node_mode :: "node \<Rightarrow> mode" where
  "node_mode (NDir m) = m" | "node_mode (NFile m _) = m"
| "node_mode (NSym _) = 0x1FF" | "node_mode (NDev _ m _ _) = m"

definition file_content :: "node \<Rightarrow> (errno, string) res" where
  "file_content n = (case n of NFile _ c \<Rightarrow> Inr c | _ \<Rightarrow> Inl EISDIR)"

definition copy_regular :: "fs \<Rightarrow> string \<Rightarrow> string \<Rightarrow> mode \<Rightarrow> outcome" where
  "copy_regular t src dst m =
     (case stat t src of
        Inl e \<Rightarrow> (Some e, t)
      | Inr n \<Rightarrow>
          (case mkdir_all t (path_dir dst) 0x1ED of
             (Some e, t1) \<Rightarrow> (Some e, t1)
           | (None, t1) \<Rightarrow>
               (let t2 = snd (remove_all t1 dst)
                in case file_content n of
                     Inr content \<Rightarrow> create_trunc t2 (comps dst) m content
                   | Inl e \<Rightarrow>
                       (case create_trunc t2 (comps dst) m [] of
                          (Some e', t3) \<Rightarrow> (Some e', t3)
                        | (None, t3) \<Rightarrow> (Some e, t3)))))"

text \<open>The function \<open>WalkDir\<close> is given, on the entry \<open>names\<close> below the two roots; \<open>entry_dir\<close> is
  what the directory listing said of it, the rest is looked at now.\<close>

definition copy_entry :: "fs \<Rightarrow> string \<Rightarrow> string \<Rightarrow> string list \<Rightarrow> bool \<Rightarrow> outcome" where
  "copy_entry t src dst names entry_dir =
     (if names = [] then (None, t)
      else let path = path_join (src # names); target = path_join (dst # names)
      in case lstat t path of
           Inl e \<Rightarrow> (Some e, t)
         | Inr n \<Rightarrow>
             if entry_dir then mkdir_all t target (perm (node_mode n))
             else (case n of
                     NSym link \<Rightarrow> sys_symlink (snd (remove_all t target)) link (comps target)
                   | NFile m _ \<Rightarrow> copy_regular t path target (perm m)
                   | _ \<Rightarrow> (None, t)))"

definition copy_dir :: "nat \<Rightarrow> fs \<Rightarrow> string \<Rightarrow> string \<Rightarrow> outcome option" where
  "copy_dir fuel t srcRoot dstRoot =
     (let src = clean srcRoot; dst = clean dstRoot
      in case mkdir_all t dst 0x1ED of
           (Some e, t1) \<Rightarrow> Some (Some e, t1)
         | (None, t1) \<Rightarrow>
             (case lstat t1 src of
                Inl e \<Rightarrow> Some (Some e, t1)
              | Inr n \<Rightarrow>
                  walk_dir (\<lambda>t names entry_dir. copy_entry t src dst names entry_dir)
                    (\<lambda>t names. read_dir_types t (path_join (src # names))) fuel t1 [] (is_dir n)))"

section \<open>The builder\<close>

datatype layer_error =
    LoadFailed load_error | ExtractFailed oci_error | ConfigFailed errno | CopyFailed errno | CopyUnbounded

datatype build_error = CreateTarget errno | AtLayer nat layer_error

record build_result =
  TargetDir :: string
  LayerCount :: nat
  Config :: "image_config option"

text \<open>What the build depends on besides the tree: the image library, the readers of archives, and
  the depth allowed for a copy.\<close>

record build_env =
  library :: image_library
  read_gzip_tar :: "string \<Rightarrow> (errno, tar_item list) res"
  read_tar :: "string \<Rightarrow> tar_item list"
  device_bytes :: string
  copy_depth :: nat

definition extract_layer ::
  "build_env \<Rightarrow> fs \<Rightarrow> layer \<Rightarrow> string \<Rightarrow> (layer_error, image_config option) res \<times> fs" where
  "extract_layer be t l targetDir =
     (case Kind l of
        LayerImage \<Rightarrow>
          (case load_image (library be) (Ref l) (classify_image t (Ref l)) of
             Inl e \<Rightarrow> (Inl (LoadFailed e), t)
           | Inr img \<Rightarrow>
               (case extract_image t (img_layers img) targetDir of
                  (Some e, t1) \<Rightarrow> (Inl (ExtractFailed e), t1)
                | (None, t1) \<Rightarrow>
                    (case read_image_config (img_config img) of
                       Inl e \<Rightarrow> (Inl (ConfigFailed e), t1)
                     | Inr cfg \<Rightarrow> (Inr cfg, t1))))
      | LayerRootfs \<Rightarrow>
          (case classify_rootfs t (Path l) of
             SourceRawDirectory \<Rightarrow>
               (case copy_dir (copy_depth be) t (Path l) targetDir of
                  None \<Rightarrow> (Inl CopyUnbounded, t)
                | Some (Some e, t1) \<Rightarrow> (Inl (CopyFailed e), t1)
                | Some (None, t1) \<Rightarrow> (Inr None, t1))
           | _ \<Rightarrow>
               (case extract_tarball t (read_gzip_tar be) (read_tar be) (device_bytes be) (Path l) targetDir of
                  (Some e, t1) \<Rightarrow> (Inl (ExtractFailed e), t1)
                | (None, t1) \<Rightarrow> (Inr None, t1))))"

fun build_loop ::
  "build_env \<Rightarrow> nat \<Rightarrow> build_result \<Rightarrow> fs \<Rightarrow> layer list \<Rightarrow> (build_error, build_result) res \<times> fs" where
  "build_loop be i result t [] = (Inr result, t)"
| "build_loop be i result t (l # ls) =
     (case extract_layer be t l (TargetDir result) of
        (Inl e, t1) \<Rightarrow> (Inl (AtLayer i e), t1)
      | (Inr cfg, t1) \<Rightarrow>
          build_loop be (Suc i)
            (result\<lparr>LayerCount := LayerCount result + 1,
                    Config := (case cfg of None \<Rightarrow> Config result
                                | Some c \<Rightarrow> merge_image_config (Config result) (Some c))\<rparr>)
            t1 ls)"

definition build :: "build_env \<Rightarrow> fs \<Rightarrow> layer list \<Rightarrow> string \<Rightarrow> (build_error, build_result) res \<times> fs" where
  "build be t layers targetDir =
     (case mkdir_all t targetDir 0x1ED of
        (Some e, t1) \<Rightarrow> (Inl (CreateTarget e), t1)
      | (None, t1) \<Rightarrow> build_loop be 0 \<lparr>TargetDir = targetDir, LayerCount = 0, Config = None\<rparr> t1 layers)"

end
