(* ===== verification/RootfsProofs.thy ===== *)
theory RootfsProofs
  imports Rootfs ExtractSafety
begin

text \<open>Properties of the builder: order and result of a build, containment of builds from images and
  archives, emptying the target, and two defects of the directory copy.\<close>

section \<open>The result of a build\<close>

text \<open>The configurations a sequence of layers contributes, in order.\<close>

fun layer_outcomes ::
  "build_env \<Rightarrow> fs \<Rightarrow> string \<Rightarrow> layer list \<Rightarrow> (layer_error, image_config option) res list" where
  "layer_outcomes be t dir [] = []"
| "layer_outcomes be t dir (l # ls) =
     (case extract_layer be t l dir of
        (Inl e, t1) \<Rightarrow> [Inl e]
      | (Inr cfg, t1) \<Rightarrow> Inr cfg # layer_outcomes be t1 dir ls)"

definition merge_all :: "image_config option \<Rightarrow> image_config option list \<Rightarrow> image_config option" where
  "merge_all = foldl (\<lambda>acc cfg. merge_image_config acc cfg)"

lemma merge_all_Cons: "merge_all acc (cfg # cfgs) = merge_all (merge_image_config acc cfg) cfgs"
  by (simp add: merge_all_def)

lemma build_loop_ok:
  assumes "build_loop be i r t ls = (Inr r', t')"
  shows "\<exists>cfgs. layer_outcomes be t (TargetDir r) ls = map Inr cfgs \<and>
    r' = r\<lparr>LayerCount := LayerCount r + length ls, Config := merge_all (Config r) cfgs\<rparr>"
  using assms
proof (induction ls arbitrary: i r t)
  case Nil
  then show ?case by (simp add: merge_all_def)
next
  case (Cons l ls)
  obtain o1 t1 where x: "extract_layer be t l (TargetDir r) = (o1, t1)" by (cases "extract_layer be t l (TargetDir r)")
  show ?case
  proof (cases o1)
    case (Inl e)
    with x Cons.prems show ?thesis by simp
  next
    case (Inr cfg)
    let ?c = "case cfg of None \<Rightarrow> Config r | Some c \<Rightarrow> merge_image_config (Config r) (Some c)"
    have c: "?c = merge_image_config (Config r) cfg"
      by (simp add: merge_image_config_None split: option.split)
    from Cons.IH [of "Suc i" "r\<lparr>LayerCount := LayerCount r + 1, Config := ?c\<rparr>" t1] Cons.prems x Inr
    obtain cfgs where "layer_outcomes be t1 (TargetDir r) ls = map Inr cfgs"
      "r' = r\<lparr>LayerCount := LayerCount r + Suc (length ls), Config := merge_all ?c cfgs\<rparr>" by auto
    with x Inr show ?thesis unfolding c by (intro exI [of _ "cfg # cfgs"]) (simp add: merge_all_Cons)
  qed
qed

lemma build_loop_error:
  assumes "build_loop be i r t ls = (Inl e, t')"
  shows "\<exists>k le. e = AtLayer (i + k) le \<and> k < length ls \<and>
    length (layer_outcomes be t (TargetDir r) ls) = Suc k \<and>
    last (layer_outcomes be t (TargetDir r) ls) = Inl le"
  using assms
proof (induction ls arbitrary: i r t)
  case (Cons l ls)
  obtain o1 t1 where x: "extract_layer be t l (TargetDir r) = (o1, t1)" by (cases "extract_layer be t l (TargetDir r)")
  show ?case
  proof (cases o1)
    case (Inl le)
    with x Cons.prems show ?thesis by (intro exI [of _ 0] exI [of _ le]) simp
  next
    case (Inr cfg)
    let ?r = "r\<lparr>LayerCount := LayerCount r + 1, Config := (case cfg of None \<Rightarrow> Config r
      | Some c \<Rightarrow> merge_image_config (Config r) (Some c))\<rparr>"
    from Cons.IH [of "Suc i" ?r t1] Cons.prems x Inr obtain k le where
      "e = AtLayer (Suc i + k) le" "k < length ls"
      "length (layer_outcomes be t1 (TargetDir r) ls) = Suc k"
      "last (layer_outcomes be t1 (TargetDir r) ls) = Inl le" by auto
    with x Inr show ?thesis by (intro exI [of _ "Suc k"] exI [of _ le]) auto
  qed
qed simp


definition no_library :: image_library where
  "no_library =
     \<lparr>remote_image = (\<lambda>_. Inr \<lparr>img_layers = Inr [Inr attack], img_config = Inr None\<rparr>),
      tarball_image = (\<lambda>_. Inl ENOENT), layout_open = (\<lambda>_. None), layout_index = (\<lambda>_. None),
      layout_manifests = (\<lambda>_. Inr []), layout_image = (\<lambda>_ _. Inl ENOENT)\<rparr>"

definition sample_env :: build_env where
  "sample_env =
     \<lparr>library = no_library, read_gzip_tar = (\<lambda>_. Inl EINVAL), read_tar = (\<lambda>_. attack),
      device_bytes = [], copy_depth = 10\<rparr>"

lemma host_mkdir: "mkdir_all host ''/r'' m = (None, host)"
  using mkdir_all_existing [OF host_ok host_dirs(1)] by (simp add: mkdir_all_def comps_component)


section \<open>Containment of a build\<close>

text \<open>Nothing the sources hand back is a whiteout named \<open>.wh...\<close>.\<close>

definition no_parent_whiteouts :: "tar_item list \<Rightarrow> bool" where
  "no_parent_whiteouts items \<longleftrightarrow> (\<forall>h. TarEntry h \<in> set items \<longrightarrow> \<not> parent_whiteout h)"

definition safe_image :: "oci_image \<Rightarrow> bool" where
  "safe_image img \<longleftrightarrow>
     (\<forall>ls items. img_layers img = Inr ls \<and> Inr items \<in> set ls \<longrightarrow> no_parent_whiteouts items)"

definition safe_sources :: "build_env \<Rightarrow> bool" where
  "safe_sources be \<longleftrightarrow>
     (\<forall>ref kind img. load_image (library be) ref kind = Inr img \<longrightarrow> safe_image img) \<and>
     (\<forall>bytes. no_parent_whiteouts (read_tar be bytes)) \<and>
     (\<forall>bytes items. read_gzip_tar be bytes = Inr items \<longrightarrow> no_parent_whiteouts items)"

text \<open>A layer whose source is never a plain directory, whatever the tree.\<close>

definition archive_layer :: "fs \<Rightarrow> layer \<Rightarrow> bool" where
  "archive_layer t l \<longleftrightarrow> (Kind l = LayerRootfs \<longrightarrow> classify_rootfs t (Path l) \<noteq> SourceRawDirectory)"

fun archive_layers :: "build_env \<Rightarrow> fs \<Rightarrow> string \<Rightarrow> layer list \<Rightarrow> bool" where
  "archive_layers be t dir [] = True"
| "archive_layers be t dir (l # ls) =
     (archive_layer t l \<and> archive_layers be (snd (extract_layer be t l dir)) dir ls)"

lemma confined_extract_layer:
  assumes "tree_ok t" "anchored t r" "safe_sources be" "archive_layer t l"
  shows "confined True r t (snd (extract_layer be t l (abs_path r)))"
proof (cases "Kind l")
  case LayerImage
  have "confined True r t (snd (extract_image t (img_layers img) (abs_path r)))"
    if "load_image (library be) (Ref l) (classify_image t (Ref l)) = Inr img" for img
  proof -
    have "safe_image img" using assms(3) that by (auto simp: safe_sources_def)
    then show ?thesis
      using assms(1,2) by (intro confined_image) (auto simp: safe_image_def no_parent_whiteouts_def)
  qed
  with LayerImage show ?thesis
    by (auto simp: extract_layer_def split: sum.splits prod.splits option.splits)
next
  case LayerRootfs
  have "confined True r t (snd (extract_tarball t (read_gzip_tar be) (read_tar be) (device_bytes be) (Path l) (abs_path r)))"
    using assms(1-3) by (intro confined_tarball) (auto simp: safe_sources_def no_parent_whiteouts_def)
  with LayerRootfs assms(4) show ?thesis
    by (auto simp: extract_layer_def archive_layer_def split: source_kind.splits prod.splits option.splits)
qed

lemma confined_build_loop:
  assumes "tree_ok t" "anchored t r" "safe_sources be" "TargetDir res = abs_path r"
    "archive_layers be t (abs_path r) ls"
  shows "confined True r t (snd (build_loop be i res t ls))"
  using assms
proof (induction ls arbitrary: i res t)
  case (Cons l ls)
  obtain o1 t1 where x: "extract_layer be t l (abs_path r) = (o1, t1)" by (cases "extract_layer be t l (abs_path r)")
  have c: "confined True r t t1"
    using confined_extract_layer [OF Cons.prems(1-3), of l] Cons.prems(5) x by simp
  show ?case
  proof (cases o1)
    case (Inr cfg)
    let ?res = "res\<lparr>LayerCount := LayerCount res + 1, Config := (case cfg of None \<Rightarrow> Config res
      | Some c \<Rightarrow> merge_image_config (Config res) (Some c))\<rparr>"
    have "confined True r t1 (snd (build_loop be (Suc i) ?res t1 ls))"
      using Cons.IH [of t1 ?res "Suc i"] confined_ok [OF c Cons.prems(1,2)] Cons.prems(3-5) x by simp
    with c x Inr Cons.prems(4) show ?thesis by (auto intro: confined_trans)
  qed (use c x Cons.prems(4) in simp)
qed simp

text \<open>C19: Building from images and archives is contained: whatever the layers hold, short of a
  whiteout named \<open>.wh...\<close>, nothing outside the target directory changes but permission bits of
  directories.\<close>

theorem build_contained:
  assumes "tree_ok t" "anchored t r" "safe_sources be" "\<not> prefix r q"
    "\<forall>t1. mkdir_all t (abs_path r) 0x1ED = (None, t1) \<longrightarrow> archive_layers be t1 (abs_path r) layers"
  shows "let t' = snd (build be t layers (abs_path r))
    in look t' q = look t q \<or> dir_at t q \<and> dir_at t' q"
proof -
  obtain e t1 where mk: "mkdir_all t (abs_path r) 0x1ED = (e, t1)" by (cases "mkdir_all t (abs_path r) 0x1ED")
  note c = sj.mkdir_answer(1) [OF assms(1,2) secure_join_Nil [OF assms(1,2)] mk]
  have "confined True r t (snd (build be t layers (abs_path r)))"
  proof (cases e)
    case None
    let ?r = "\<lparr>TargetDir = abs_path r, LayerCount = 0, Config = None\<rparr>"
    have "confined True r t1 (snd (build_loop be 0 ?r t1 layers))"
      using confined_build_loop confined_ok [OF c assms(1,2)] assms(3,5) mk None by simp
    with confined_trans [OF c] mk None show ?thesis by (simp add: build_def)
  qed (use c mk in \<open>simp add: build_def\<close>)
  with assms(4) show ?thesis by (auto simp: confined_def outside_kept_def Let_def)
qed

lemma sample_safe: "safe_sources sample_env"
proof -
  have a: "no_parent_whiteouts attack" using attack_ok(1) by (simp add: no_parent_whiteouts_def)
  have "load_image no_library ref kind = Inr img \<Longrightarrow> safe_image img" for ref kind img
    using a by (cases kind) (auto simp: load_image_def no_library_def safe_image_def)
  with a show ?thesis by (simp add: safe_sources_def sample_env_def)
qed

theorem build_contained_witness:
  "let t' = snd (build sample_env host [image_layer ''alpine''] ''/r'')
   in look t' [''etc''] = Some (NDir 0x1ED) \<or> dir_at host [''etc''] \<and> dir_at t' [''etc'']"
  using build_contained [OF host_ok host_anchored sample_safe, of "[''etc'']" "[image_layer ''alpine'']"]
  by (simp add: archive_layer_def host_def)

section \<open>Emptying the target\<close>

text \<open>Emptying a work directory that exists removes everything below it, keeps the directory
  itself, which may be a mount point, and touches nothing else.\<close>

theorem clean_target_empties:
  assumes "tree_ok t" "dir_at t p"
  shows "\<exists>t'. clean_target t (abs_path p) = (None, t') \<and>
    (\<forall>q. look t' q = (if strict_prefix p q then None else look t q))"
  using remove_all_children [OF assms] by (auto simp: clean_target_def)

theorem clean_target_empties_witness:
  "\<exists>t'. clean_target host ''/r'' = (None, t') \<and> look t' [''r'', ''d''] = None \<and> dir_at t' [''r'']"
proof -
  from clean_target_empties [OF host_ok host_dirs(1)] obtain t' where
    "clean_target host ''/r'' = (None, t')"
    "\<And>q. look t' q = (if strict_prefix [''r''] q then None else look host q)" by auto
  then show ?thesis by (auto simp: host_def dir_at_def)
qed

section \<open>Defects of the directory copy\<close>

lemma path_dir_abs:
  assumes "\<forall>c \<in> set cs. normal c" "normal c"
  shows "path_dir (abs_path (cs @ [c])) = abs_path cs"
proof (cases "cs = []")
  case True
  with normalD(4) [OF assms(2)] have "path_split (abs_path (cs @ [c])) = (''/'', c)"
    by (simp add: path_split_def cut_last_byte_Some [of slash _ "[]" c, THEN iffD2])
  with True show ?thesis by (simp add: path_dir_def clean_abs norm_comps_def)
next
  case False
  then have "abs_path (cs @ [c]) = abs_path cs @ slash # c" by (simp add: join_byte_append)
  then have "cut_last_byte slash (abs_path (cs @ [c])) = Some (abs_path cs, c)"
    using normalD(4) [OF assms(2)] by (simp add: cut_last_byte_Some)
  moreover have "clean (abs_path cs @ [slash]) = abs_path cs"
    using comps_slash_append [of "rel_path cs" "[]"] assms(1)
    by (simp add: clean_abs comps_rel_path_normal norm_comps_id)
  ultimately show ?thesis by (simp add: path_dir_def path_split_def)
qed

text \<open>Copying a file of a plain-directory layer below a name that an earlier layer made a
  symbolic link writes through the link: the file of the host at the other end is removed and
  replaced, outside the target directory.\<close>

theorem copy_regular_escapes:
  assumes "tree_ok t" "dir_at t r" "normal b" "normal f"
    "look t (r @ [b]) = Some (NSym (abs_path ds))" "dir_at t ds" "\<not> prefix (ds @ [f]) (r @ [b])"
    "stat t src = Inr (NFile m0 content)"
  shows "copy_regular t src (abs_path (r @ [b, f])) m =
    (None, put (drop_tree t (ds @ [f])) (ds @ [f]) (NFile (masked m) content))"
proof -
  have n: "\<forall>c \<in> set r. normal c" "\<forall>c \<in> set ds. normal c" using tree_ok_names assms(1,2,6) by blast+
  have dst: "path_dir (abs_path (r @ [b, f])) = abs_path (r @ [b])"
    using path_dir_abs [of "r @ [b]" f] n(1) assms(3,4) by simp
  have c: "comps (rel_path (r @ [b])) = r @ [b]" "comps (rel_path (r @ [b, f])) = r @ [b, f]"
    using n(1) assms(3,4) by (simp_all add: comps_rel_path_normal)
  obtain nd where nd: "look t ds = Some nd" "is_dir nd" using assms(6) by (auto dest: dir_at_Some)
  have "stat_c t (r @ [b]) = Inr nd"
    using resolve_planted [OF assms(1-3,5,6)] nd by (simp add: stat_c_def node_at_def)
  then have mk: "mkdir_all t (path_dir (abs_path (r @ [b, f]))) 0x1ED = (None, t)"
    using nd(2) by (simp add: dst mkdir_all_def c mkdir_all_c.simps [of t "r @ [b]"])
  have w: "walk t' False l ds [f] = Inr (ds @ [f])" if "dir_at t' ds" for t' l
    using that assms(4) by (auto simp: normal_def split: option.split node.split)
  have rm: "remove_all t (abs_path (r @ [b, f])) = (None, drop_tree t (ds @ [f]))"
    using resolve_through [OF assms(1-3,5,6), of False "[f]"] w [OF assms(6)] c(2)
    by (simp add: remove_all_def remove_all_c_def)
  let ?t2 = "drop_tree t (ds @ [f])"
  note t2 = removed_child [OF assms(1,6), of f]
  have "dir_at ?t2 r" "look ?t2 (r @ [b]) = Some (NSym (abs_path ds))"
    using assms(2,5,7) by (auto simp: dir_at_drop_tree)
  then have "resolve ?t2 True (r @ [b, f]) = Inr (ds @ [f])"
    using resolve_through [OF t2(1) _ assms(3) _ t2(2), of r True "[f]"] t2(2,3) assms(4)
    by (simp add: normal_def)
  then show ?thesis
    using mk rm t2(3) assms(8) c(2) by (simp add: copy_regular_def file_content_def create_trunc_def)
qed

definition planted :: fs where
  "planted = host @ [([''src''], NDir 0x1ED), ([''src'', ''p''], NFile 0x1A4 ''new'')]"

lemma planted_ok: "tree_ok planted"
  by (rule tree_okI) (simp add: tree_listed_def planted_def host_def dir_at_def normal_def)

theorem copy_regular_escapes_witness:
  "look (snd (copy_regular planted ''/src/p'' ''/r/l/shadow'' 0x1A4)) [''etc'', ''shadow'']
     = Some (NFile (masked 0x1A4) ''new'')"
proof -
  have s: "stat planted ''/src/p'' = Inr (NFile 0x1A4 ''new'')" by code_simp
  from copy_regular_escapes [OF planted_ok _ _ _ _ _ _ s, of "[''r'']" "''l''" "''shadow''" "[''etc'']"]
  show ?thesis by (simp add: planted_def host_def dir_at_def normal_def)
qed

text \<open>A directory layer given as a symbolic link to a directory is classified as a directory,
  yet copies nothing and reports success, since the walk does not follow the link it starts at.\<close>

theorem copy_dir_of_link_copies_nothing:
  assumes "mkdir_all t (clean dst) 0x1ED = (None, t1)" "lstat t1 (clean src) = Inr (NSym target)"
  shows "copy_dir (Suc fuel) t src dst = Some (None, t1)"
  using assms by (simp add: copy_dir_def Let_def copy_entry_def)

theorem copy_dir_of_link_copies_nothing_witness:
  "classify_rootfs host ''/r/l'' = SourceRawDirectory \<and> copy_dir 1 host ''/r/l'' ''/r'' = Some (None, host)"
proof -
  have "clean ''/r'' = ''/r''" "clean ''/r/l'' = ''/r/l''" by code_simp+
  moreover have "lstat host ''/r/l'' = Inr (NSym ''/etc'')" by code_simp
  ultimately show ?thesis
    using copy_dir_of_link_copies_nothing [of host "''/r''" host "''/r/l''" "''/etc''" 0] host_mkdir
    by simp code_simp
qed

end
