(* ===== verification/World.thy ===== *)
theory World
  imports GoPath FileSystem
begin

text \<open>
  The world the privileged half of the program acts on. A program is a function of the world and
  of the events so far; it returns its result and the events extended by its own. The world
  answers every call as a function of the whole history, so that nothing is assumed of the
  kernel, of init or of the network beyond what the answers say; a reading call leaves no event.
\<close>

section \<open>Calls\<close>

datatype mount_flag = MS_BIND | MS_REC | MS_PRIVATE | MS_NOSUID | MS_NODEV | MS_NOEXEC

datatype umount_flag = UMOUNT_PLAIN | MNT_FORCE | MNT_DETACH

datatype signal_name =
    SIGHUP | SIGINT | SIGTERM | SIGKILL | SIGPIPE | SIGUSR1 | SIGUSR2 | SIGCHLD

datatype call =
    Mount string string string "mount_flag list" string \<comment> \<open>source, target, type, flags, data\<close>
  | Unmount string umount_flag
  | Unshare_mounts
  | Pivot_root string string
  | Chdir string
  | Mkdir_all string mode
  | Unlink string
  | Open_append string
  | Add_log_sink string
  | Flush_log string
  | Open_syslog
  | Write_file string string mode
  | Open_excl string mode
  | Open_trunc string mode
  | Create_probe string
  | Mknod string u32 u32 mode
  | Send_signal int signal_name
  | Ignore_signals "signal_name list"
  | Sleep_ns int
  | Start_unit string string \<comment> \<open>systemd's \<open>StartUnit\<close>: name, mode\<close>
  | Start_scope string int \<comment> \<open>systemd's \<open>StartTransientUnit\<close>: name, our process\<close>
  | Open_watchdog
  | Load_module string nat
  | Watchdog_timeout int
  | Watchdog_keep_fd
  | Watchdog_write char
  | Watchdog_close
  | Clean_dir string
  | Build_rootfs string
  | Write_opened string string \<comment> \<open>into the file opened last at that path\<close>
  | Tailnet_auth string string string string \<comment> \<open>state directory, key, host name, control server\<close>
  | Tailnet_up string
  | Tailnet_close
  | Announce_password string
  | Start_child string "string list"
  | Run_child string "string list" "string list option" string
      \<comment> \<open>program, arguments, environment unless inherited, directory it is confined to\<close>
  | Signal_child signal_name
  | Reap_zombies
  | Open_netfilter
  | Flush_firewall
  | Adopt_watchdog int int \<comment> \<open>descriptor, timeout in nanoseconds\<close>
  | Start_sshd
  | Listen string string \<comment> \<open>network, address\<close>
  | Close_listener string
  | Generate_host_key
  | Sync_disks
  | Reboot_machine
  | Exit_process int
  | Exec string "string list" "string list"
  | Print_plan

type_synonym event = "call \<times> errno option"
type_synonym history = "event list"

section \<open>Programs\<close>

text \<open>What the world answers: the error of a call, if any, and what the reads give.\<close>

record world =
  err_of :: "history \<Rightarrow> call \<Rightarrow> errno option"
  file_text :: "history \<Rightarrow> string \<Rightarrow> (errno, string) res"
  path_error :: "history \<Rightarrow> string \<Rightarrow> errno option" \<comment> \<open>\<open>os.Stat\<close>\<close>
  device_of :: "history \<Rightarrow> string \<Rightarrow> (errno, nat) res" \<comment> \<open>\<open>st_dev\<close> of \<open>lstat\<close>\<close>
  fs_free :: "history \<Rightarrow> string \<Rightarrow> (errno, u64 \<times> u64) res" \<comment> \<open>\<open>statfs\<close>: free blocks, block size\<close>
  dir_entries :: "history \<Rightarrow> string \<Rightarrow> (errno, (string \<times> bool) list) res" \<comment> \<open>name, is a directory\<close>
  walk_files :: "string \<Rightarrow> string list" \<comment> \<open>the files a walk of a directory visits, in order\<close>
  kernel_release :: "(errno, string) res"
  clock_ns :: "history \<Rightarrow> int"
  bus_error :: "history \<Rightarrow> errno option" \<comment> \<open>connecting to the system bus\<close>
  job_count :: "history \<Rightarrow> (errno, nat) res" \<comment> \<open>systemd's \<open>ListJobs\<close>\<close>
  random_below :: "nat \<Rightarrow> nat \<Rightarrow> (errno, nat) res" \<comment> \<open>the i-th draw below a bound\<close>
  env_var :: "string \<Rightarrow> string"
  environ :: "string list"
  self_exe :: "(errno, string) res" \<comment> \<open>where \<open>/proc/self/exe\<close> points\<close>
  host_name :: "(errno, string) res"
  getpid :: int
  getppid :: int
  geteuid :: nat
  stdin_tty :: bool

type_synonym 'a io = "world \<Rightarrow> history \<Rightarrow> 'a \<times> history"

definition ret :: "'a \<Rightarrow> 'a io" where
  "ret a w h = (a, h)"

definition bind_io :: "'a io \<Rightarrow> ('a \<Rightarrow> 'b io) \<Rightarrow> 'b io" where
  "bind_io m f w h = (case m w h of (a, h') \<Rightarrow> f a w h')"

text \<open>A call: the answer, and the event.\<close>

definition do_call :: "call \<Rightarrow> errno option io" where
  "do_call c w h = (err_of w h c, h @ [(c, err_of w h c)])"

definition ask :: "(world \<Rightarrow> history \<Rightarrow> 'a) \<Rightarrow> 'a io" where
  "ask f w h = (f w h, h)"

text \<open>\<open>if err := call(); err != nil { return wrap(err) }\<close>, and a call whose error is ignored.\<close>

definition check :: "errno option io \<Rightarrow> (errno \<Rightarrow> 'e) \<Rightarrow> ('e, 'a) res io \<Rightarrow> ('e, 'a) res io" where
  "check m wrap k = bind_io m (\<lambda>r. case r of Some e \<Rightarrow> ret (Inl (wrap e)) | None \<Rightarrow> k)"

definition attempt :: "call \<Rightarrow> 'a io \<Rightarrow> 'a io" where
  "attempt c k = bind_io (do_call c) (\<lambda>_. k)"

text \<open>The same for a step with a value.\<close>

definition bind_ok :: "('e, 'a) res io \<Rightarrow> ('a \<Rightarrow> ('e, 'b) res io) \<Rightarrow> ('e, 'b) res io" where
  "bind_ok m f = bind_io m (\<lambda>r. case r of Inl e \<Rightarrow> ret (Inl e) | Inr a \<Rightarrow> f a)"

definition map_err :: "('e \<Rightarrow> 'f) \<Rightarrow> ('e, 'a) res io \<Rightarrow> ('f, 'a) res io" where
  "map_err g m = bind_io m (\<lambda>r. case r of Inl e \<Rightarrow> ret (Inl (g e)) | Inr a \<Rightarrow> ret (Inr a))"

fun for_each :: "('x \<Rightarrow> unit io) \<Rightarrow> 'x list \<Rightarrow> unit io" where
  "for_each f [] = ret ()"
| "for_each f (x # xs) = bind_io (f x) (\<lambda>_. for_each f xs)"

section \<open>Weakest preconditions\<close>

definition wp :: "'a io \<Rightarrow> ('a \<Rightarrow> history \<Rightarrow> bool) \<Rightarrow> world \<Rightarrow> history \<Rightarrow> bool" where
  "wp m Q w h = (case m w h of (a, h') \<Rightarrow> Q a h')"

lemma wp_ret [hoare_rules]: "wp (ret a) Q w h = Q a h"
  by (simp add: wp_def ret_def)

lemma wp_bind [hoare_rules]: "wp (bind_io m f) Q w h = wp m (\<lambda>a h'. wp (f a) Q w h') w h"
  by (simp add: wp_def bind_io_def split: prod.split)

lemma wp_call [hoare_rules]:
  "wp (do_call c) Q w h = Q (err_of w h c) (h @ [(c, err_of w h c)])"
  by (simp add: wp_def do_call_def)

lemma wp_ask [hoare_rules]: "wp (ask f) Q w h = Q (f w h) h"
  by (simp add: wp_def ask_def)

lemma wp_check [hoare_rules]:
  "wp (check m wrap k) Q w h =
    wp m (\<lambda>r h'. case r of Some e \<Rightarrow> Q (Inl (wrap e)) h' | None \<Rightarrow> wp k Q w h') w h"
  by (simp add: check_def hoare_rules option.case_distrib [of "\<lambda>m. wp m Q w _"] cong: option.case_cong)

lemma wp_attempt [hoare_rules]: "wp (attempt c k) Q w h = wp k Q w (h @ [(c, err_of w h c)])"
  by (simp add: attempt_def hoare_rules)

lemma wp_bind_ok [hoare_rules]:
  "wp (bind_ok m f) Q w h =
    wp m (\<lambda>r h'. case r of Inl e \<Rightarrow> Q (Inl e) h' | Inr a \<Rightarrow> wp (f a) Q w h') w h"
  by (simp add: bind_ok_def hoare_rules sum.case_distrib [of "\<lambda>m. wp m Q w _"] cong: sum.case_cong)

lemma wp_map_err [hoare_rules]:
  "wp (map_err g m) Q w h =
    wp m (\<lambda>r h'. case r of Inl e \<Rightarrow> Q (Inl (g e)) h' | Inr a \<Rightarrow> Q (Inr a) h') w h"
  by (simp add: map_err_def hoare_rules sum.case_distrib [of "\<lambda>m. wp m Q w _"] cong: sum.case_cong)

lemma wp_if [hoare_rules]: "wp (if b then m else n) Q w h = (if b then wp m Q w h else wp n Q w h)"
  by simp

lemma wp_option [hoare_rules]:
  "wp (case x of None \<Rightarrow> m | Some a \<Rightarrow> f a) Q w h =
    (case x of None \<Rightarrow> wp m Q w h | Some a \<Rightarrow> wp (f a) Q w h)"
  by (simp split: option.split)

lemma wp_sum [hoare_rules]:
  "wp (case x of Inl a \<Rightarrow> f a | Inr b \<Rightarrow> g b) Q w h =
    (case x of Inl a \<Rightarrow> wp (f a) Q w h | Inr b \<Rightarrow> wp (g b) Q w h)"
  by (simp split: sum.split)

lemma wp_mono: "wp m P w h \<Longrightarrow> (\<And>a h'. P a h' \<Longrightarrow> Q a h') \<Longrightarrow> wp m Q w h"
  by (auto simp: wp_def split: prod.splits)

lemma wp_run: "wp m Q w h \<longleftrightarrow> Q (fst (m w h)) (snd (m w h))"
  by (simp add: wp_def split: prod.split)

section \<open>What a program may do\<close>

text \<open>\<open>only S m\<close>: whatever the world and the history, \<open>m\<close> only adds events whose calls satisfy
  \<open>S\<close>.\<close>

definition only :: "(call \<Rightarrow> bool) \<Rightarrow> 'a io \<Rightarrow> bool" where
  "only S m \<longleftrightarrow> (\<forall>w h. \<exists>new. snd (m w h) = h @ new \<and> (\<forall>ev \<in> set new. S (fst ev)))"

lemma onlyD: "only S m \<Longrightarrow> \<exists>new. snd (m w h) = h @ new \<and> (\<forall>ev \<in> set new. S (fst ev))"
  by (simp add: only_def)

lemma only_ret [hoare_rules]: "only S (ret a)"
  by (simp add: only_def ret_def)

lemma only_ask [hoare_rules]: "only S (ask f)"
  by (simp add: only_def ask_def)

lemma only_call [hoare_rules]: "S c \<Longrightarrow> only S (do_call c)"
  by (simp add: only_def do_call_def)

lemma only_bind [hoare_rules]:
  assumes "only S m" "\<And>a. only S (f a)"
  shows "only S (bind_io m f)"
  unfolding only_def
proof (intro allI)
  fix w h
  obtain n1 where n1: "snd (m w h) = h @ n1" "\<forall>ev \<in> set n1. S (fst ev)" using onlyD [OF assms(1)] by blast
  obtain n2 where n2: "snd (f (fst (m w h)) w (h @ n1)) = (h @ n1) @ n2" "\<forall>ev \<in> set n2. S (fst ev)"
    using onlyD [OF assms(2)] by blast
  have "snd (bind_io m f w h) = h @ n1 @ n2"
    using n1(1) n2(1) by (cases "m w h") (simp add: bind_io_def)
  with n1(2) n2(2) show "\<exists>new. snd (bind_io m f w h) = h @ new \<and> (\<forall>ev \<in> set new. S (fst ev))"
    by (intro exI [of _ "n1 @ n2"]) auto
qed

lemma only_check [hoare_rules]: "only S m \<Longrightarrow> only S k \<Longrightarrow> only S (check m wrap k)"
  unfolding check_def by (intro only_bind) (auto intro: only_ret split: option.split)

lemma only_attempt [hoare_rules]: "S c \<Longrightarrow> only S k \<Longrightarrow> only S (attempt c k)"
  unfolding attempt_def by (intro only_bind only_call)

lemma only_bind_ok [hoare_rules]: "only S m \<Longrightarrow> (\<And>a. only S (f a)) \<Longrightarrow> only S (bind_ok m f)"
  unfolding bind_ok_def by (intro only_bind) (auto intro: only_ret split: sum.split)

lemma only_map_err [hoare_rules]: "only S m \<Longrightarrow> only S (map_err g m)"
  unfolding map_err_def by (intro only_bind) (auto intro: only_ret split: sum.split)

lemma only_for_each [hoare_rules]: "(\<And>x. x \<in> set xs \<Longrightarrow> only S (f x)) \<Longrightarrow> only S (for_each f xs)"
  by (induction xs) (auto intro: only_ret only_bind)

lemma only_weaken: "only S m \<Longrightarrow> (\<And>c. S c \<Longrightarrow> T c) \<Longrightarrow> only T m"
  unfolding only_def by blast

text \<open>Events of a history, and those that succeeded.\<close>

definition calls :: "history \<Rightarrow> call list" where
  "calls h = map fst h"

definition done_calls :: "history \<Rightarrow> call list" where
  "done_calls h = map fst (filter (\<lambda>ev. snd ev = None) h)"

lemma calls_append [simp]: "calls (h @ h') = calls h @ calls h'" "calls [] = []" "calls (ev # h) = fst ev # calls h"
  by (simp_all add: calls_def)

lemma done_append [simp]:
  "done_calls (h @ h') = done_calls h @ done_calls h'" "done_calls [] = []"
  "done_calls (ev # h) = (if snd ev = None then [fst ev] else []) @ done_calls h"
  by (simp_all add: done_calls_def)

section \<open>Inverting a run\<close>

lemma ret_eq [simp]: "ret a w h = (b, h') \<longleftrightarrow> b = a \<and> h' = h"
  by (auto simp: ret_def)

lemma ask_eq [simp]: "ask f w h = (b, h') \<longleftrightarrow> b = f w h \<and> h' = h"
  by (auto simp: ask_def)

lemma bind_io_eq:
  "bind_io m f w h = (b, h') \<longleftrightarrow> (\<exists>a h1. m w h = (a, h1) \<and> f a w h1 = (b, h'))"
  by (auto simp: bind_io_def split: prod.splits)

lemma attempt_run [simp]: "attempt c k w h = k w (h @ [(c, err_of w h c)])"
  by (simp add: attempt_def bind_io_def do_call_def)

lemma bind_ok_Inr:
  "bind_ok m f w h = (Inr b, h') \<longleftrightarrow> (\<exists>a h1. m w h = (Inr a, h1) \<and> f a w h1 = (Inr b, h'))"
  by (cases "m w h"; cases "fst (m w h)") (auto simp: bind_ok_def bind_io_def ret_def)

lemma bind_ok_Inl:
  "bind_ok m f w h = (Inl e, h') \<longleftrightarrow>
    m w h = (Inl e, h') \<or> (\<exists>a h1. m w h = (Inr a, h1) \<and> f a w h1 = (Inl e, h'))"
  by (cases "m w h"; cases "fst (m w h)") (auto simp: bind_ok_def bind_io_def ret_def)

lemma map_err_Inr: "map_err g m w h = (Inr b, h') \<longleftrightarrow> m w h = (Inr b, h')"
  by (cases "m w h"; cases "fst (m w h)") (auto simp: map_err_def bind_io_def ret_def)

lemma map_err_Inl: "map_err g m w h = (Inl e, h') \<longleftrightarrow> (\<exists>e0. m w h = (Inl e0, h') \<and> e = g e0)"
  by (cases "m w h"; cases "fst (m w h)") (auto simp: map_err_def bind_io_def ret_def)

lemma check_Inr:
  "check m wrap k w h = (Inr b, h') \<longleftrightarrow> (\<exists>h1. m w h = (None, h1) \<and> k w h1 = (Inr b, h'))"
  by (cases "m w h"; cases "fst (m w h)") (auto simp: check_def bind_io_def ret_def)

lemma check_Inl:
  "check m wrap k w h = (Inl e, h') \<longleftrightarrow>
    (\<exists>e0. m w h = (Some e0, h') \<and> e = wrap e0) \<or> (\<exists>h1. m w h = (None, h1) \<and> k w h1 = (Inl e, h'))"
  by (cases "m w h"; cases "fst (m w h)") (auto simp: check_def bind_io_def ret_def)

lemma do_call_eq [simp]: "do_call c w h = (r, h') \<longleftrightarrow> r = err_of w h c \<and> h' = h @ [(c, r)]"
  by (auto simp: do_call_def)

lemmas run_eqs = bind_io_eq bind_ok_Inr bind_ok_Inl map_err_Inr map_err_Inl check_Inr check_Inl

lemma only_extends: "only S m \<Longrightarrow> m w h = (r, h') \<Longrightarrow> \<exists>new. h' = h @ new \<and> (\<forall>ev \<in> set new. S (fst ev))"
  using onlyD [of S m w h] by auto

lemma only_keeps: "only S m \<Longrightarrow> m w h = (r, h') \<Longrightarrow> set (done_calls h) \<subseteq> set (done_calls h')"
  by (auto dest!: only_extends)

section \<open>Errors\<close>

text \<open>\<open>errs w P m\<close>: in the world \<open>w\<close>, every error the program ends with satisfies \<open>P\<close>.\<close>

definition errs :: "world \<Rightarrow> ('e \<Rightarrow> bool) \<Rightarrow> ('e, 'a) res io \<Rightarrow> bool" where
  "errs w P m \<longleftrightarrow> (\<forall>h e. fst (m w h) = Inl e \<longrightarrow> P e)"

named_theorems result_rules \<open>decomposition of \<^const>\<open>errs\<close>\<close>

lemma errs_ret [result_rules]: "(\<And>e. r = Inl e \<Longrightarrow> P e) \<Longrightarrow> errs w P (ret r)"
  by (simp add: errs_def ret_def)

lemma errs_bind [result_rules]: "(\<And>a. errs w P (f a)) \<Longrightarrow> errs w P (bind_io m f)"
  by (auto simp: errs_def bind_io_def split: prod.split)

lemma errs_check [result_rules]: "(\<And>e. P (wrap e)) \<Longrightarrow> errs w P k \<Longrightarrow> errs w P (check m wrap k)"
  unfolding check_def by (rule errs_bind) (auto intro: errs_ret split: option.split)

lemma errs_attempt [result_rules]: "errs w P k \<Longrightarrow> errs w P (attempt c k)"
  by (simp add: errs_def)

lemma errs_bind_ok [result_rules]:
  assumes "errs w P m" "\<And>a. errs w P (f a)"
  shows "errs w P (bind_ok m f)"
  unfolding errs_def
proof (intro allI impI)
  fix h e
  assume "fst (bind_ok m f w h) = Inl e"
  then have "bind_ok m f w h = (Inl e, snd (bind_ok m f w h))" by (simp add: prod_eq_iff)
  then show "P e" unfolding bind_ok_Inl using assms by (metis errs_def fst_conv)
qed

lemma errs_map_err [result_rules]: "(\<And>e. P (g e)) \<Longrightarrow> errs w P (map_err g m)"
  unfolding map_err_def by (rule errs_bind) (auto intro: errs_ret split: sum.split)

lemma errs_if [result_rules]: "errs w P m \<Longrightarrow> errs w P n \<Longrightarrow> errs w P (if b then m else n)"
  by simp

lemma errs_prod [result_rules]: "(\<And>a b. errs w P (f a b)) \<Longrightarrow> errs w P (case x of (a, b) \<Rightarrow> f a b)"
  by (simp split: prod.split)

section \<open>Invariants of the history\<close>

text \<open>\<open>keeps w I m\<close>: in the world \<open>w\<close> the program takes a history with \<open>I\<close> to one with \<open>I\<close>.\<close>

definition keeps :: "world \<Rightarrow> (history \<Rightarrow> bool) \<Rightarrow> 'a io \<Rightarrow> bool" where
  "keeps w I m \<longleftrightarrow> (\<forall>h. I h \<longrightarrow> I (snd (m w h)))"

lemma keepsD: "keeps w I m \<Longrightarrow> I h \<Longrightarrow> m w h = (r, h') \<Longrightarrow> I h'"
  unfolding keeps_def by (metis snd_conv)

lemma keeps_ret [result_rules]: "keeps w I (ret a)"
  by (simp add: keeps_def ret_def)

lemma keeps_ask [result_rules]: "keeps w I (ask f)"
  by (simp add: keeps_def ask_def)

lemma keeps_bind [result_rules]: "keeps w I m \<Longrightarrow> (\<And>a. keeps w I (f a)) \<Longrightarrow> keeps w I (bind_io m f)"
  by (simp add: keeps_def bind_io_def split: prod.split) (metis snd_conv)

lemma keeps_check [result_rules]: "keeps w I m \<Longrightarrow> keeps w I k \<Longrightarrow> keeps w I (check m wrap k)"
  unfolding check_def by (rule keeps_bind) (auto intro: keeps_ret split: option.split)

lemma keeps_bind_ok [result_rules]: "keeps w I m \<Longrightarrow> (\<And>a. keeps w I (f a)) \<Longrightarrow> keeps w I (bind_ok m f)"
  unfolding bind_ok_def by (rule keeps_bind) (auto intro: keeps_ret split: sum.split)

lemma keeps_map_err [result_rules]: "keeps w I m \<Longrightarrow> keeps w I (map_err g m)"
  unfolding map_err_def by (rule keeps_bind) (auto intro: keeps_ret split: sum.split)

lemma keeps_if [result_rules]: "keeps w I m \<Longrightarrow> keeps w I n \<Longrightarrow> keeps w I (if b then m else n)"
  by simp

lemma keeps_prod [result_rules]: "(\<And>a b. keeps w I (f a b)) \<Longrightarrow> keeps w I (case x of (a, b) \<Rightarrow> f a b)"
  by (simp split: prod.split)

lemma only_keeps_inv:
  assumes "only S m" "\<And>h new. \<forall>ev \<in> set new. S (fst ev) \<Longrightarrow> I h \<Longrightarrow> I (h @ new)"
  shows "keeps w I m"
  unfolding keeps_def using onlyD [OF assms(1)] assms(2) by metis

section \<open>Time\<close>

text \<open>The clock a waiting loop relies on: it does not run backwards, and a sleep lasts at least as
  long as asked.\<close>

locale ticking_clock =
  fixes clock :: "history \<Rightarrow> int"
  assumes sleep_lasts: "clock (h @ [(Sleep_ns d, r)]) \<ge> clock h + d"
    and never_back: "clock (h @ [ev]) \<ge> clock h"
begin

lemma never_back_append: "clock (h @ new) \<ge> clock h"
proof (induction new rule: rev_induct)
  case (snoc ev new)
  with never_back [of "h @ new" ev] show ?case by simp
qed simp

end

text \<open>A world in which every call succeeds, nothing is found, and time passes by sleeping.\<close>

definition slept :: "history \<Rightarrow> int" where
  "slept h = sum_list (map (\<lambda>(c, r). case c of Sleep_ns d \<Rightarrow> max d 0 | _ \<Rightarrow> 0) h)"

interpretation slept: ticking_clock slept
  by unfold_locales (auto simp: slept_def split: prod.split call.split)

definition calm :: world where
  "calm =
     \<lparr>err_of = (\<lambda>h c. None), file_text = (\<lambda>h p. Inl ENOENT), path_error = (\<lambda>h p. Some ENOENT),
      device_of = (\<lambda>h p. Inr 0), fs_free = (\<lambda>h p. Inr (1, 1)), dir_entries = (\<lambda>h p. Inr []),
      walk_files = (\<lambda>p. []), kernel_release = Inr ''6.1'',
      clock_ns = slept, bus_error = (\<lambda>h. None), job_count = (\<lambda>h. Inr 0),
      random_below = (\<lambda>i n. Inr 0), env_var = (\<lambda>n. []), environ = [], self_exe = Inr ''/usr/bin/xmorph'', host_name = Inr ''host'',
      getpid = 100, getppid = 99, geteuid = 0, stdin_tty = False\<rparr>"

end
