(* ===== verification/Mounts.thy ===== *)
theory Mounts
  imports World
begin

text \<open>
  Package \<open>internal/pivot\<close>: the mounts of the new root (\<open>pivot.go\<close>, \<open>prepare.go\<close>), its tmpfs
  (\<open>tmpfs.go\<close>), the old root's teardown (\<open>cleanup.go\<close>), and the contained run (\<open>contain.go\<close>);
  then what the sequence of calls makes visible under the new root.
\<close>

section \<open>Helpers\<close>

definition join_path :: "string \<Rightarrow> string \<Rightarrow> string" where
  "join_path root rel = path_join [root, trim_prefix rel ''/'']"

text \<open>\<open>ensureDir\<close> of \<open>util.go\<close>: an existing directory is no error.\<close>

definition ensure_directory :: "string \<Rightarrow> errno option io" where
  "ensure_directory dir =
     bind_io (do_call (Mkdir_all dir 0x1ED)) (\<lambda>r. ret (if r = Some EEXIST then None else r))"

section \<open>Mounts\<close>

datatype pivot_error =
    UnshareFailed errno
  | MakePrivateFailed string errno
  | CheckMountPoint errno
  | BindSelf errno
  | CreateTarget string errno
  | BindFailed string errno
  | MountFailed string errno
  | VerifyMissing string
  | VerifyNoShell
  | PivotFailed errno
  | ChdirFailed errno
  | TmpfsCreate errno
  | TmpfsMount errno
  | EmptyEntrypoint
  | ChildFailed errno

record essential_mount =
  Source :: string
  Target :: string
  FSType :: string
  Bind :: bool

definition essential_mounts :: "essential_mount list" where
  "essential_mounts =
     [\<lparr>Source = ''/dev'', Target = ''dev'', FSType = [], Bind = True\<rparr>,
      \<lparr>Source = ''proc'', Target = ''proc'', FSType = ''proc'', Bind = False\<rparr>,
      \<lparr>Source = ''sysfs'', Target = ''sys'', FSType = ''sysfs'', Bind = False\<rparr>,
      \<lparr>Source = ''/run'', Target = ''run'', FSType = [], Bind = True\<rparr>]"

definition make_private :: "string \<Rightarrow> errno option io" where
  "make_private target = do_call (Mount [] target [] [MS_REC, MS_PRIVATE] [])"

definition create_mount_namespace :: "(pivot_error, unit) res io" where
  "create_mount_namespace =
     check (do_call Unshare_mounts) UnshareFailed
       (check (make_private ''/'') (MakePrivateFailed ''/'') (ret (Inr ())))"

definition ensure_mount_point :: "string \<Rightarrow> errno option io" where
  "ensure_mount_point target = do_call (Mount target target [] [MS_BIND] [])"

fun setup_mounts :: "string \<Rightarrow> essential_mount list \<Rightarrow> (pivot_error, unit) res io" where
  "setup_mounts newRoot [] = ret (Inr ())"
| "setup_mounts newRoot (m # ms) =
     (let target = join_path newRoot (Target m)
      in check (ensure_directory target) (CreateTarget target)
           (if Bind m then
              bind_io (do_call (Mount (Source m) target [] [MS_BIND, MS_REC] []))
                (\<lambda>r. case r of
                   Some e \<Rightarrow> if Source m = ''/run'' then setup_mounts newRoot ms
                             else ret (Inl (BindFailed target e))
                 | None \<Rightarrow> setup_mounts newRoot ms)
            else
              check (do_call (Mount (Source m) target (FSType m) [MS_NOSUID, MS_NOEXEC, MS_NODEV] []))
                (MountFailed target) (setup_mounts newRoot ms)))"

definition setup_essentials :: "string \<Rightarrow> (pivot_error, unit) res io" where
  "setup_essentials newRoot = setup_mounts newRoot essential_mounts"

definition is_mount_point :: "string \<Rightarrow> (errno, bool) res io" where
  "is_mount_point path =
     bind_ok (ask (\<lambda>w h. device_of w h path)) (\<lambda>d.
     bind_ok (ask (\<lambda>w h. device_of w h (path_dir path))) (\<lambda>parent.
     ret (Inr (d \<noteq> parent))))"

section \<open>Prepare\<close>

record prepare_options =
  NewRoot :: string
  SkipVerify :: bool
  CreateNamespace :: bool

fun verify_dirs :: "string \<Rightarrow> string list \<Rightarrow> (pivot_error, unit) res io" where
  "verify_dirs newRoot [] = ret (Inr ())"
| "verify_dirs newRoot (d # ds) =
     bind_io (ask (\<lambda>w h. path_error w h (path_join [newRoot, d])))
       (\<lambda>r. if r = None then verify_dirs newRoot ds else ret (Inl (VerifyMissing d)))"

fun verify_shells :: "string \<Rightarrow> string list \<Rightarrow> (pivot_error, unit) res io" where
  "verify_shells newRoot [] = ret (Inl VerifyNoShell)"
| "verify_shells newRoot (x # xs) =
     bind_io (ask (\<lambda>w h. path_error w h (path_join [newRoot, x])))
       (\<lambda>r. if r = None then ret (Inr ()) else verify_shells newRoot xs)"

definition verify_root :: "string \<Rightarrow> (pivot_error, unit) res io" where
  "verify_root newRoot =
     bind_ok (verify_dirs newRoot [''bin'', ''lib''])
       (\<lambda>_. verify_shells newRoot [''sbin/init'', ''bin/sh'', ''bin/bash''])"

definition prepare :: "prepare_options \<Rightarrow> (pivot_error, unit) res io" where
  "prepare opts =
     bind_ok (if SkipVerify opts then ret (Inr ()) else verify_root (NewRoot opts)) (\<lambda>_.
     bind_ok (if CreateNamespace opts then create_mount_namespace else ret (Inr ())) (\<lambda>_.
     bind_ok (map_err CheckMountPoint (is_mount_point (NewRoot opts))) (\<lambda>alreadyMounted.
     check (if alreadyMounted then ret None else ensure_mount_point (NewRoot opts)) BindSelf
     (check (make_private (NewRoot opts)) (MakePrivateFailed (NewRoot opts))
     (setup_essentials (NewRoot opts))))))"

section \<open>pivot_root\<close>

definition pivot_root :: "string \<Rightarrow> string \<Rightarrow> (pivot_error, unit) res io" where
  "pivot_root newRoot oldRootMount =
     check (make_private ''/'') (MakePrivateFailed ''/'')
     (check (do_call (Pivot_root newRoot (join_path newRoot oldRootMount))) PivotFailed
     (check (do_call (Chdir ''/'')) ChdirFailed (ret (Inr ()))))"

section \<open>The tmpfs\<close>

definition tmpfs_options :: "u64 \<Rightarrow> string" where
  "tmpfs_options sizeBytes = ''size='' @ format_uint (unat sizeBytes) @ '',mode=0755''"

definition mount_tmpfs :: "string \<Rightarrow> u64 \<Rightarrow> (pivot_error, unit) res io" where
  "mount_tmpfs path sizeBytes =
     check (do_call (Mkdir_all path 0x1ED)) TmpfsCreate
     (check (do_call (Mount ''tmpfs'' path ''tmpfs'' [MS_NOSUID, MS_NODEV] (tmpfs_options sizeBytes)))
        TmpfsMount (ret (Inr ())))"

definition unmount_tmpfs :: "string \<Rightarrow> errno option io" where
  "unmount_tmpfs path = do_call (Unmount path MNT_DETACH)"

definition free_bytes :: "string \<Rightarrow> (errno, u64) res io" where
  "free_bytes path = bind_ok (ask (\<lambda>w h. fs_free w h path)) (\<lambda>(avail, size). ret (Inr (avail * size)))"

section \<open>The old root\<close>

definition mount_targets :: "string \<Rightarrow> string list" where
  "mount_targets text =
     concat (map (\<lambda>line. case GoStrings.fields line of _ # target # _ \<Rightarrow> [target] | _ \<Rightarrow> []) (scan_lines text))"

definition read_mount_targets :: "(errno, string list) res io" where
  "read_mount_targets =
     bind_ok (ask (\<lambda>w h. file_text w h ''/proc/self/mounts''))
       (\<lambda>text. ret (if scan_failed text then Inl EIO else Inr (mount_targets text)))"

text \<open>Deepest first: the targets with the old root's path as a prefix, longest first. The code's
  sort leaves the order of targets of equal length open; here it is the order of the file.\<close>

definition under_root :: "string \<Rightarrow> string list \<Rightarrow> string list" where
  "under_root oldRoot mounts = sort_key (\<lambda>m. - int (length m)) (filter (\<lambda>m. has_prefix m oldRoot) mounts)"

fun unmount_each :: "umount_flag \<Rightarrow> string list \<Rightarrow> (string \<times> errno) list io" where
  "unmount_each flags [] = ret []"
| "unmount_each flags (m # ms) =
     bind_io (do_call (Unmount m flags))
       (\<lambda>r. bind_io (unmount_each flags ms)
         (\<lambda>failed. ret (case r of Some e \<Rightarrow> (m, e) # failed | None \<Rightarrow> failed)))"

definition unmount_under :: "string \<Rightarrow> umount_flag \<Rightarrow> (errno, (string \<times> errno) list) res io" where
  "unmount_under oldRoot flags =
     bind_ok read_mount_targets
       (\<lambda>mounts. bind_io (unmount_each flags (under_root oldRoot mounts)) (\<lambda>failed. ret (Inr failed)))"

definition cleanup_old_root :: "string \<Rightarrow> (errno, (string \<times> errno) list) res io" where
  "cleanup_old_root oldRoot = unmount_under oldRoot MNT_DETACH"

definition unmount_old_root :: "string \<Rightarrow> (errno, (string \<times> errno) list) res io" where
  "unmount_old_root oldRoot =
     bind_io (unmount_under oldRoot UMOUNT_PLAIN)
       (\<lambda>r. case r of
          Inr [] \<Rightarrow> ret r
        | Inl e \<Rightarrow> ret r
        | Inr failed \<Rightarrow> unmount_under oldRoot MNT_FORCE)"

section \<open>The contained run\<close>

record contain_options =
  contain_root :: string
  contain_entrypoint :: string
  contain_args :: "string list"
  contain_env :: "string list option"

definition contain :: "contain_options \<Rightarrow> (pivot_error, unit) res io" where
  "contain opts =
     (if contain_entrypoint opts = [] then ret (Inl EmptyEntrypoint)
      else bind_ok (setup_essentials (contain_root opts)) (\<lambda>_.
           check (do_call (Run_child (contain_entrypoint opts) (contain_args opts) (contain_env opts) (contain_root opts)))
             ChildFailed (ret (Inr ()))))"

end
