(* ===== verification/MountProofs.thy ===== *)
theory MountProofs
  imports Mounts "HOL-Library.Multiset"
begin

text \<open>What the calls of package \<open>pivot\<close> make of the mount table, and the order of teardown.\<close>

section \<open>The mount table\<close>

text \<open>The mounts that can be reached, as pairs of target and source. A mount covers what was at its
  target and below it, and so does a bind of a directory onto itself, which carries no mounts
  below it along. (Mounts a recursive bind carries along lie below its target and are left out.)\<close>

type_synonym mount_table = "(string \<times> string) list"

definition at_or_below :: "string \<Rightarrow> string \<Rightarrow> bool" where
  "at_or_below target p = prefix (comps target) (comps p)"

definition mount_event :: "mount_table \<Rightarrow> call \<Rightarrow> mount_table" where
  "mount_event tab c =
     (case c of
        Mount source target fstype flags data \<Rightarrow>
          if MS_PRIVATE \<in> set flags then tab
          else filter (\<lambda>(p, s). \<not> at_or_below target p) tab @ [(target, source)]
      | Unmount target flag \<Rightarrow> filter (\<lambda>(p, s). \<not> at_or_below target p) tab
      | _ \<Rightarrow> tab)"

definition mount_table_after :: "history \<Rightarrow> mount_table" where
  "mount_table_after h = foldl mount_event [] (done_calls h)"

lemma table_snoc:
  "mount_table_after (h @ [(c, r)]) =
    (if r = None then mount_event (mount_table_after h) c else mount_table_after h)"
  by (simp add: mount_table_after_def)

lemma mount_event_other [simp]:
  "mount_event tab (Mkdir_all d m) = tab" "mount_event tab Unshare_mounts = tab"
  "mount_event tab (Mount a b c [MS_REC, MS_PRIVATE] d) = tab"
  by (simp_all add: mount_event_def)

lemma comps_join_path:
  assumes "\<forall>c \<in> set r. normal c" "normal x"
  shows "comps (join_path (abs_path r) x) = r @ [x]"
proof -
  have "trim_prefix x ''/'' = x" using normalD [OF assms(2)]
    by (cases x) (auto simp: trim_prefix_def has_prefix_def)
  then show ?thesis
    using assms comps_rel_path_normal [of "r @ [x]"] join_abs_comp [OF assms]
    by (simp add: join_path_def)
qed

definition mandatory :: "essential_mount \<Rightarrow> bool" where
  "mandatory m \<longleftrightarrow> Source m \<noteq> ''/run''"

lemma setup_mounts_visible:
  assumes "\<forall>c \<in> set r. normal c" "\<forall>m \<in> set ms. normal (Target m)" "distinct (map Target ms)"
    "setup_mounts (abs_path r) ms w h = (Inr (), h')"
  shows "(\<forall>m \<in> set ms. mandatory m \<longrightarrow>
        (join_path (abs_path r) (Target m), Source m) \<in> set (mount_table_after h')) \<and>
    (\<forall>p s. (p, s) \<in> set (mount_table_after h) \<and>
        (\<forall>m \<in> set ms. \<not> prefix (r @ [Target m]) (comps p)) \<longrightarrow> (p, s) \<in> set (mount_table_after h'))"
  using assms(2-4)
proof (induction ms arbitrary: h)
  case Nil
  then show ?case by (simp add: ret_def)
next
  case (Cons m ms)
  let ?t = "join_path (abs_path r) (Target m)"
  have ct: "comps ?t = r @ [Target m]" using comps_join_path [OF assms(1)] Cons.prems(1) by simp
  let ?mk = "(Mkdir_all ?t 0x1ED, err_of w h (Mkdir_all ?t 0x1ED))"
  obtain c e where step: "setup_mounts (abs_path r) ms w (h @ [?mk] @ [(c, e)]) = (Inr (), h')"
      "mandatory m \<longrightarrow> e = None"
      "\<And>tab. mount_event tab c = filter (\<lambda>(p, s). \<not> at_or_below ?t p) tab @ [(?t, Source m)]"
    using Cons.prems(3)
    by (auto simp: Let_def check_def bind_io_def do_call_def ensure_directory_def ret_def mandatory_def
        mount_event_def split: option.splits if_splits)
  let ?h2 = "h @ [?mk] @ [(c, e)]"
  have ih: "(\<forall>m \<in> set ms. mandatory m \<longrightarrow>
        (join_path (abs_path r) (Target m), Source m) \<in> set (mount_table_after h'))"
      "\<And>p s. (p, s) \<in> set (mount_table_after ?h2) \<Longrightarrow>
        \<forall>m \<in> set ms. \<not> prefix (r @ [Target m]) (comps p) \<Longrightarrow> (p, s) \<in> set (mount_table_after h')"
    using Cons.IH [of ?h2] Cons.prems(1,2) step(1) by auto
  have tab: "mount_table_after ?h2 = (if e = None
      then filter (\<lambda>(p, s). \<not> at_or_below ?t p) (mount_table_after h) @ [(?t, Source m)]
      else mount_table_after h)"
    using table_snoc [of "h @ [?mk]" c e] table_snoc [of h "fst ?mk" "snd ?mk"] step(3) by simp
  have ne: "\<forall>m' \<in> set ms. Target m' \<noteq> Target m" using Cons.prems(2) by (auto dest: sym)
  have new: "(?t, Source m) \<in> set (mount_table_after h')" if "mandatory m"
  proof (rule ih(2))
    show "(?t, Source m) \<in> set (mount_table_after ?h2)" unfolding tab using that step(2) by simp
    show "\<forall>m \<in> set ms. \<not> prefix (r @ [Target m]) (comps ?t)" using ne by (simp add: ct)
  qed
  have old: "(p, s) \<in> set (mount_table_after h')"
    if "(p, s) \<in> set (mount_table_after h)" "\<forall>m' \<in> set (m # ms). \<not> prefix (r @ [Target m']) (comps p)" for p s
  proof (rule ih(2))
    show "(p, s) \<in> set (mount_table_after ?h2)"
      unfolding tab using that by (simp add: at_or_below_def ct)
    show "\<forall>m \<in> set ms. \<not> prefix (r @ [Target m]) (comps p)" using that(2) by simp
  qed
  show ?case using ih(1) new old by auto
qed

lemma essential_targets:
  "\<forall>m \<in> set essential_mounts. normal (Target m)" "distinct (map Target essential_mounts)"
  by (simp_all add: essential_mounts_def normal_def)

text \<open>C17: When \<open>Prepare\<close> succeeds, \<open>/dev\<close>, \<open>/proc\<close> and \<open>/sys\<close> of the new root are mounted and
  reachable: the bind of the new root onto itself comes before them and nothing after covers
  them.\<close>

theorem prepare_essentials_visible:
  assumes "NewRoot opts = abs_path r" "\<forall>c \<in> set r. normal c" "prepare opts w h = (Inr (), h')"
  shows "\<forall>m \<in> set essential_mounts. Source m \<noteq> ''/run'' \<longrightarrow>
    (join_path (NewRoot opts) (Target m), Source m) \<in> set (mount_table_after h')"
proof -
  obtain h1 where "setup_essentials (abs_path r) w h1 = (Inr (), h')"
    using assms(3) unfolding prepare_def bind_ok_def check_def bind_io_def assms(1)
    by (auto simp: ret_def split: prod.splits sum.splits option.splits)
  from setup_mounts_visible [OF assms(2) essential_targets this [unfolded setup_essentials_def]] assms(1)
  show ?thesis by (simp add: mandatory_def)
qed

theorem prepare_essentials_visible_witness:
  "(join_path ''/n'' ''proc'', ''proc'') \<in> set (mount_table_after
     (snd (prepare \<lparr>NewRoot = ''/n'', SkipVerify = True, CreateNamespace = True\<rparr> calm [])))"
proof -
  let ?o = "\<lparr>NewRoot = ''/n'', SkipVerify = True, CreateNamespace = True\<rparr>"
  have "prepare ?o calm [] = (Inr (), snd (prepare ?o calm []))"
    by (simp add: prepare_def bind_ok_def check_def map_err_def bind_io_def ask_def ret_def do_call_def
        is_mount_point_def create_mount_namespace_def make_private_def ensure_mount_point_def
        setup_essentials_def essential_mounts_def ensure_directory_def calm_def Let_def)
  from prepare_essentials_visible [of ?o "[''n'']", OF _ _ this] show ?thesis
    by (simp add: normal_def essential_mounts_def)
qed

section \<open>Tearing down the old root\<close>

definition refusals :: "history \<Rightarrow> (string \<times> errno) list" where
  "refusals h =
     concat (map (\<lambda>(c, r). case (c, r) of (Unmount m f, Some e) \<Rightarrow> [(m, e)] | _ \<Rightarrow> []) h)"

lemma unmount_each_run:
  "\<exists>new. snd (unmount_each fl ms w h) = h @ new \<and> map fst new = map (\<lambda>m. Unmount m fl) ms \<and>
    fst (unmount_each fl ms w h) = refusals new"
proof (induction ms arbitrary: h)
  case Nil
  then show ?case by (simp add: ret_def refusals_def)
next
  case (Cons m ms)
  let ?r = "err_of w h (Unmount m fl)"
  obtain new where n: "snd (unmount_each fl ms w (h @ [(Unmount m fl, ?r)])) = (h @ [(Unmount m fl, ?r)]) @ new"
      "map fst new = map (\<lambda>m. Unmount m fl) ms"
      "fst (unmount_each fl ms w (h @ [(Unmount m fl, ?r)])) = refusals new"
    using Cons by blast
  then show ?case
    by (cases "unmount_each fl ms w (h @ [(Unmount m fl, ?r)])")
      (auto simp: bind_io_def do_call_def ret_def refusals_def split: option.splits
        intro!: exI [of _ "(Unmount m fl, ?r) # new"])
qed

lemma under_root_order:
  "sorted_wrt (\<lambda>a b. \<not> strict_prefix a b) (under_root oldRoot mounts)"
proof -
  have "sorted_wrt (\<lambda>a b. - int (length a) \<le> - int (length b)) (under_root oldRoot mounts)"
    unfolding under_root_def using sorted_sort_key [of "\<lambda>m. - int (length m)"]
    by (simp only: sorted_map)
  then show ?thesis
    by (rule sorted_wrt_mono_rel [rotated]) (auto dest: prefix_length_less)
qed

text \<open>Unmounting the old root asks for exactly the mounts whose path starts with the old root's
  path, as a string, each once for every entry, never a mount before one below it, and hands
  back exactly the refusals; if the mount table cannot be read nothing is unmounted.\<close>

theorem unmount_under_order:
  "case unmount_under oldRoot fl w h of
     (Inl e, h') \<Rightarrow> h' = h
   | (Inr failed, h') \<Rightarrow> \<exists>tab new. file_text w h ''/proc/self/mounts'' = Inr tab \<and>
       h' = h @ new \<and> failed = refusals new \<and>
       (let ms = under_root oldRoot (mount_targets tab)
        in map fst new = map (\<lambda>m. Unmount m fl) ms \<and>
           mset ms = mset (filter (\<lambda>m. has_prefix m oldRoot) (mount_targets tab)) \<and>
           sorted_wrt (\<lambda>a b. \<not> strict_prefix a b) ms)"
proof (cases "file_text w h ''/proc/self/mounts''")
  case (Inl e)
  then show ?thesis
    by (simp add: unmount_under_def read_mount_targets_def bind_ok_def bind_io_def ask_def ret_def)
next
  case (Inr tab)
  show ?thesis
  proof (cases "scan_failed tab")
    case True
    with Inr show ?thesis
      by (simp add: unmount_under_def read_mount_targets_def bind_ok_def bind_io_def ask_def ret_def)
  next
    case False
    let ?ms = "under_root oldRoot (mount_targets tab)"
    obtain new where "snd (unmount_each fl ?ms w h) = h @ new" "map fst new = map (\<lambda>m. Unmount m fl) ?ms"
        "fst (unmount_each fl ?ms w h) = refusals new"
      using unmount_each_run by blast
    moreover have "mset ?ms = mset (filter (\<lambda>m. has_prefix m oldRoot) (mount_targets tab))"
      by (simp add: under_root_def)
    ultimately show ?thesis
      using Inr False under_root_order [of oldRoot "mount_targets tab"]
      by (cases "unmount_each fl ?ms w h")
        (simp add: unmount_under_def read_mount_targets_def bind_ok_def bind_io_def ask_def ret_def Let_def)
  qed
qed

section \<open>Which mounts count as the old root's\<close>

text \<open>The comparison is of strings, not of components: a mount beside the old root whose name continues
  its name is unmounted with it.\<close>

lemma neighbour_unmounted:
  "under_root ''/mnt/oldroot'' [''/mnt/oldroot'', ''/mnt/oldroot2'', ''/mnt''] = [''/mnt/oldroot2'', ''/mnt/oldroot'']"
  by code_simp

text \<open>The kernel writes a space in a mount point as an escape of three octal digits, which is not decoded: the
  path asked to be unmounted is another one.\<close>

lemma escaped_target_kept:
  "mount_targets (''/dev/sdb1 /mnt/oldroot/a'' @ CHR 0x5C # ''040b ext4'') = [''/mnt/oldroot/a'' @ CHR 0x5C # ''040b'']"
  by code_simp

end
