(* ===== verification/Process.thy ===== *)
theory Process
  imports World
begin

text \<open>
  Package \<open>internal/process\<close>: the scan of \<open>/proc\<close> (\<open>scanner.go\<close>), which processes are essential
  (\<open>essential.go\<close>), and their termination (\<open>terminator.go\<close>).
\<close>

section \<open>Scanning\<close>

record info =
  PID :: int
  PPID :: int
  Comm :: string
  Cmdline :: string

definition is_kernel_thread :: "info \<Rightarrow> bool" where
  "is_kernel_thread i = (Cmdline i = [])"

definition trim_right_newlines :: "string \<Rightarrow> string" where
  "trim_right_newlines s = rev (dropWhile (\<lambda>c. c = CHR 0x0A) (rev s))"

definition proc_path :: "string \<Rightarrow> int \<Rightarrow> string" where
  "proc_path procRoot pid = path_join [procRoot, format_int pid]"

fun ppid_of_lines :: "string list \<Rightarrow> int" where
  "ppid_of_lines [] = 0"
| "ppid_of_lines (l # ls) =
     (case cut_prefix l ''PPid:'' of
        None \<Rightarrow> ppid_of_lines ls
      | Some rest \<Rightarrow> (case atoi (trim_space rest) of Inr n \<Rightarrow> n | Inl _ \<Rightarrow> ppid_of_lines ls))"

definition read_ppid :: "string \<Rightarrow> int io" where
  "read_ppid statusPath =
     bind_io (ask (\<lambda>w h. file_text w h statusPath))
       (\<lambda>r. ret (case r of Inl _ \<Rightarrow> 0 | Inr data \<Rightarrow> ppid_of_lines (split_byte CHR 0x0A data)))"

definition read_proc :: "string \<Rightarrow> int \<Rightarrow> (errno, info) res io" where
  "read_proc procRoot pid =
     bind_ok (ask (\<lambda>w h. file_text w h (path_join [proc_path procRoot pid, ''comm'']))) (\<lambda>comm.
     bind_ok (ask (\<lambda>w h. file_text w h (path_join [proc_path procRoot pid, ''cmdline'']))) (\<lambda>cmdline.
     bind_io (read_ppid (path_join [proc_path procRoot pid, ''status''])) (\<lambda>ppid.
     ret (Inr \<lparr>PID = pid, PPID = ppid, Comm = trim_right_newlines comm,
               Cmdline = hd (split_byte CHR 0x00 cmdline)\<rparr>))))"

fun scan_entries :: "string \<Rightarrow> (string \<times> bool) list \<Rightarrow> info list io" where
  "scan_entries procRoot [] = ret []"
| "scan_entries procRoot ((name, isDir) # es) =
     (case (isDir, atoi name) of
        (True, Inr pid) \<Rightarrow>
          bind_io (read_proc procRoot pid) (\<lambda>r.
          bind_io (scan_entries procRoot es) (\<lambda>infos.
          ret (case r of Inr i \<Rightarrow> i # infos | Inl _ \<Rightarrow> infos)))
      | _ \<Rightarrow> scan_entries procRoot es)"

definition scan_root :: "string \<Rightarrow> (errno, info list) res io" where
  "scan_root procRoot =
     bind_ok (ask (\<lambda>w h. dir_entries w h procRoot))
       (\<lambda>es. bind_io (scan_entries procRoot es) (\<lambda>infos. ret (Inr infos)))"

definition scan :: "(errno, info list) res io" where
  "scan = scan_root ''/proc''"

definition is_running :: "int \<Rightarrow> bool io" where
  "is_running pid = bind_io (ask (\<lambda>w h. path_error w h (proc_path ''/proc'' pid))) (\<lambda>r. ret (r = None))"

section \<open>Essential processes\<close>

definition essential_names :: "string list" where
  "essential_names =
     [''kthreadd'', ''ksoftirqd'', ''kworker'', ''migration'', ''watchdog'',
      ''kcompactd'', ''khugepaged'', ''kswapd'', ''kblockd'',
      ''systemd'', ''init'', ''openrc'', ''runit'', ''s6-svscan'',
      ''udevd'', ''systemd-udevd'', ''eudev'', ''mdev'',
      ''journald'', ''systemd-journald'', ''rsyslogd'', ''syslog-ng'',
      ''dhclient'', ''dhcpcd'', ''NetworkManager'', ''wpa_supplicant'',
      ''lvmetad'', ''multipathd'', ''iscsid'']"

definition is_essential_name :: "string \<Rightarrow> bool" where
  "is_essential_name name = list_ex (\<lambda>n. name = n \<or> has_prefix name n) essential_names"

definition is_essential :: "int \<Rightarrow> info \<Rightarrow> bool" where
  "is_essential self i =
     (PID i = 1 \<or> is_kernel_thread i \<or> PID i = self \<or> is_essential_name (Comm i) \<or>
      has_prefix (Comm i) ''['')"

section \<open>Termination\<close>

record terminate_options =
  GracefulTimeout :: int
  KillTimeout :: int
  SkipEssential :: bool
  ExcludePIDs :: "int list"

record terminate_result =
  Terminated :: nat
  Killed :: nat
  StubbornPID :: "int list"

datatype terminate_error = ScanFailed errno | Stubborn

definition excluded :: "world \<Rightarrow> terminate_options \<Rightarrow> info \<Rightarrow> bool" where
  "excluded w opts p =
     (PID p = getpid w \<or> PID p = getppid w \<or> PID p \<in> set (ExcludePIDs opts) \<or>
      (SkipEssential opts \<and> is_essential (getpid w) p) \<or> is_kernel_thread p)"

fun count_running :: "int list \<Rightarrow> nat io" where
  "count_running [] = ret 0"
| "count_running (p # ps) =
     bind_io (is_running p) (\<lambda>r. bind_io (count_running ps) (\<lambda>n. ret (if r then Suc n else n)))"

text \<open>The polling loop. \<open>fuel\<close> bounds its rounds; \<open>False\<close> means the bound was reached first.\<close>

fun graceful_polling :: "nat \<Rightarrow> int list \<Rightarrow> int \<Rightarrow> bool io" where
  "graceful_polling 0 pids deadline = ret False"
| "graceful_polling (Suc fuel) pids deadline =
     bind_io (ask (\<lambda>w h. clock_ns w h)) (\<lambda>now.
     if now \<ge> deadline then ret True
     else bind_io (count_running pids) (\<lambda>alive.
          if alive = 0 then ret True
          else attempt (Sleep_ns 100000000) (graceful_polling fuel pids deadline)))"

fun split_running :: "int list \<Rightarrow> (int list \<times> int list) io" where
  "split_running [] = ret ([], [])"
| "split_running (p # ps) =
     bind_io (is_running p) (\<lambda>r.
     bind_io (split_running ps) (\<lambda>(running, gone).
     ret (if r then (p # running, gone) else (running, p # gone))))"

definition kill_each :: "signal_name \<Rightarrow> int list \<Rightarrow> unit io" where
  "kill_each sig pids = for_each (\<lambda>pid. attempt (Send_signal pid sig) (ret ())) pids"

definition terminate_targets ::
  "nat \<Rightarrow> terminate_options \<Rightarrow> int list \<Rightarrow> (terminate_result \<times> terminate_error option) option io" where
  "terminate_targets fuel opts targets =
     bind_io (kill_each SIGTERM targets) (\<lambda>_.
     bind_io (ask (\<lambda>w h. clock_ns w h + GracefulTimeout opts)) (\<lambda>deadline.
     bind_io (graceful_polling fuel targets deadline) (\<lambda>ended.
     if \<not> ended then ret None
     else
     bind_io (split_running targets) (\<lambda>(stillRunning, gone).
     bind_io (kill_each SIGKILL stillRunning) (\<lambda>_.
     if stillRunning = []
     then ret (Some (\<lparr>Terminated = length gone, Killed = 0, StubbornPID = []\<rparr>, None))
     else attempt (Sleep_ns (KillTimeout opts))
       (bind_io (split_running stillRunning) (\<lambda>(stubborn, later).
        ret (Some (\<lparr>Terminated = length gone + length later, Killed = length stillRunning,
                    StubbornPID = stubborn\<rparr>, if stubborn = [] then None else Some Stubborn)))))))))"

definition with_defaults :: "terminate_options \<Rightarrow> terminate_options" where
  "with_defaults opts =
     opts\<lparr>GracefulTimeout := (if GracefulTimeout opts \<le> 0 then 5000000000 else GracefulTimeout opts),
          KillTimeout := (if KillTimeout opts \<le> 0 then 2000000000 else KillTimeout opts)\<rparr>"

definition terminate ::
  "nat \<Rightarrow> terminate_options \<Rightarrow> (terminate_result \<times> terminate_error option) option io" where
  "terminate fuel opts0 =
     (let opts = with_defaults opts0
      in bind_io scan (\<lambda>r. case r of
           Inl e \<Rightarrow> ret (Some (\<lparr>Terminated = 0, Killed = 0, StubbornPID = []\<rparr>, Some (ScanFailed e)))
         | Inr procs \<Rightarrow>
             bind_io (ask (\<lambda>w h. map PID (filter (\<lambda>p. \<not> excluded w opts p) procs)))
               (terminate_targets fuel opts)))"

end
