(* ===== verification/ProcessProofs.thy ===== *)
theory ProcessProofs
  imports Process
begin

text \<open>What termination does to whom: the exact sequence of signals, who is spared, and that the
  waiting ends.\<close>

section \<open>Steps that leave no event\<close>

definition quiet :: "'a io \<Rightarrow> bool" where
  "quiet m \<longleftrightarrow> (\<forall>w h. snd (m w h) = h)"

lemma quiet_ret [intro!, simp]: "quiet (ret a)" and quiet_ask [intro!, simp]: "quiet (ask f)"
  by (simp_all add: quiet_def ret_def ask_def)

lemma quiet_bind [intro!]: "quiet m \<Longrightarrow> (\<And>a. quiet (f a)) \<Longrightarrow> quiet (bind_io m f)"
  unfolding quiet_def bind_io_def by (auto split: prod.split) (metis snd_conv)

lemma quiet_bind_ok [intro!]: "quiet m \<Longrightarrow> (\<And>a. quiet (f a)) \<Longrightarrow> quiet (bind_ok m f)"
  unfolding bind_ok_def by (intro quiet_bind) (auto split: sum.split)

lemma quietD: "quiet m \<Longrightarrow> m w h = (fst (m w h), h)"
proof -
  assume "quiet m"
  then have "snd (m w h) = h" by (simp add: quiet_def)
  then show ?thesis by (cases "m w h") simp
qed

lemma quiet_run: "quiet m \<Longrightarrow> bind_io m f w h = f (fst (m w h)) w h"
proof -
  assume "quiet m"
  then have "snd (m w h) = h" by (simp add: quiet_def)
  then show ?thesis by (cases "m w h") (simp add: bind_io_def)
qed

lemma quiet_is_running: "quiet (is_running p)"
  by (auto simp: is_running_def)

lemma quiet_read_proc: "quiet (read_proc root p)"
  by (auto simp: read_proc_def read_ppid_def)

lemma quiet_scan_entries: "quiet (scan_entries root es)"
  by (induction root es rule: scan_entries.induct)
     (auto simp: quiet_read_proc split: sum.splits bool.splits)

lemma quiet_scan: "quiet scan"
  by (auto simp: scan_def scan_root_def quiet_scan_entries)

lemma quiet_count: "quiet (count_running ps)"
  by (induction ps) (auto simp: quiet_is_running intro!: quiet_bind)

lemma quiet_split: "quiet (split_running ps)"
  by (induction ps) (auto simp: quiet_is_running intro!: quiet_bind split: prod.split)

lemma split_running_result:
  "split_running ps w h = ((running, gone), h') \<Longrightarrow>
    h' = h \<and> subseq running ps \<and> length running + length gone = length ps"
proof (induction ps arbitrary: running gone h')
  case Nil
  then show ?case by (simp add: ret_def)
next
  case (Cons p ps)
  obtain r1 g1 where s: "split_running ps w h = ((r1, g1), h)"
    using quietD [OF quiet_split, of ps w h] by (metis prod.collapse)
  moreover obtain b where "is_running p w h = (b, h)"
    using quietD [OF quiet_is_running, of p w h] by metis
  ultimately show ?case using Cons.IH [OF s] Cons.prems by (auto simp: bind_io_def ret_def split: if_splits)
qed

lemma subseq_set: "subseq xs ys \<Longrightarrow> x \<in> set xs \<Longrightarrow> x \<in> set ys"
  by (induction rule: list_emb.induct) auto

section \<open>Waiting\<close>

definition naps :: "int \<Rightarrow> history \<Rightarrow> bool" where
  "naps d new \<longleftrightarrow> (\<exists>k. calls new = replicate k (Sleep_ns d))"

lemma polling_naps:
  "\<exists>new. snd (graceful_polling fuel pids deadline w h) = h @ new \<and> naps 100000000 new"
proof (induction fuel arbitrary: h)
  case 0
  then show ?case by (intro exI [of _ "[]"]) (auto simp: ret_def naps_def intro: exI [of _ 0])
next
  case (Suc fuel)
  let ?ev = "(Sleep_ns 100000000, err_of w h (Sleep_ns 100000000))"
  obtain new where n: "snd (graceful_polling fuel pids deadline w (h @ [?ev])) = (h @ [?ev]) @ new"
      "naps 100000000 new" using Suc by blast
  then obtain k where "calls (?ev # new) = replicate (Suc k) (Sleep_ns 100000000)" by (auto simp: naps_def)
  then have "naps 100000000 (?ev # new)" unfolding naps_def by blast
  moreover have "naps 100000000 []" by (auto simp: naps_def intro: exI [of _ 0])
  ultimately show ?case using n(1)
    by (auto simp: quiet_run quiet_count attempt_def bind_io_def [of "do_call _"] do_call_def ret_def
        intro: exI [of _ "?ev # new"])
qed

text \<open>With a clock that ticks, the loop ends once the fuel covers the grace period.\<close>

lemma polling_ends:
  assumes "ticking_clock (clock_ns w)" "clock_ns w h + int fuel * 100000000 > deadline"
  shows "fst (graceful_polling (Suc fuel) pids deadline w h)"
  using assms(2)
proof (induction fuel arbitrary: h)
  case 0
  then show ?case by (simp add: quiet_run ask_def ret_def)
next
  case (Suc fuel)
  let ?h = "h @ [(Sleep_ns 100000000, err_of w h (Sleep_ns 100000000))]"
  have "clock_ns w ?h \<ge> clock_ns w h + 100000000" using ticking_clock.sleep_lasts [OF assms(1)] .
  then have "fst (graceful_polling (Suc fuel) pids deadline w ?h)" using Suc.prems by (intro Suc.IH) simp
  then show ?case
    by (simp only: graceful_polling.simps(2) [of "Suc fuel"])
       (auto simp: quiet_run quiet_count ask_def attempt_def bind_io_def [of "do_call _"] do_call_def ret_def
         simp del: graceful_polling.simps)
qed

lemma kill_each_calls:
  "\<exists>new. snd (kill_each sig pids w h) = h @ new \<and> calls new = map (\<lambda>p. Send_signal p sig) pids"
proof (induction pids arbitrary: h)
  case (Cons p pids)
  let ?ev = "(Send_signal p sig, err_of w h (Send_signal p sig))"
  obtain new where "snd (kill_each sig pids w (h @ [?ev])) = (h @ [?ev]) @ new"
      "calls new = map (\<lambda>p. Send_signal p sig) pids" using Cons by blast
  then show ?case
    by (intro exI [of _ "?ev # new"]) (simp add: kill_each_def attempt_def bind_io_def do_call_def ret_def)
qed (simp add: kill_each_def ret_def)

section \<open>The whole of it\<close>

text \<open>The trace and the result of terminating a list of processes.\<close>

definition orderly :: "terminate_options \<Rightarrow> int list \<Rightarrow> history \<Rightarrow>
    (terminate_result \<times> terminate_error option) option \<Rightarrow> bool" where
  "orderly opts targets new out \<longleftrightarrow>
     (\<exists>k running.
        subseq running targets \<and>
        (case out of
           None \<Rightarrow> calls new = map (\<lambda>p. Send_signal p SIGTERM) targets @ replicate k (Sleep_ns 100000000)
         | Some (res, err) \<Rightarrow>
             calls new = map (\<lambda>p. Send_signal p SIGTERM) targets @ replicate k (Sleep_ns 100000000) @
               map (\<lambda>p. Send_signal p SIGKILL) running @
               (if running = [] then [] else [Sleep_ns (KillTimeout opts)]) \<and>
             Killed res = length running \<and> subseq (StubbornPID res) running \<and>
             Terminated res + length (StubbornPID res) = length targets \<and>
             err = (if StubbornPID res = [] then None else Some Stubborn)))"

lemma orderly_targets:
  assumes "orderly opts targets new out" "Send_signal p sig \<in> set (calls new)"
  shows "p \<in> set targets"
proof (cases out)
  case None
  with assms show ?thesis by (auto simp: orderly_def)
next
  case (Some rr)
  obtain res err where "rr = (res, err)" by (cases rr)
  with Some assms(1) obtain k running where "subseq running targets"
      "calls new = map (\<lambda>p. Send_signal p SIGTERM) targets @ replicate k (Sleep_ns 100000000) @
         map (\<lambda>p. Send_signal p SIGKILL) running @ (if running = [] then [] else [Sleep_ns (KillTimeout opts)])"
    unfolding orderly_def by auto
  with assms(2) show ?thesis by (auto dest: subseq_set split: if_splits)
qed

lemma terminate_targets_orderly:
  "\<exists>new. snd (terminate_targets fuel opts targets w h) = h @ new \<and>
    orderly opts targets new (fst (terminate_targets fuel opts targets w h))"
proof -
  obtain n1 where n1: "kill_each SIGTERM targets w h = (fst (kill_each SIGTERM targets w h), h @ n1)"
      "calls n1 = map (\<lambda>p. Send_signal p SIGTERM) targets"
    using kill_each_calls by (metis prod.collapse)
  let ?deadline = "clock_ns w (h @ n1) + GracefulTimeout opts"
  obtain ended n2 k where n2: "graceful_polling fuel targets ?deadline w (h @ n1) = (ended, h @ n1 @ n2)"
      "calls n2 = replicate k (Sleep_ns 100000000)"
    using polling_naps [of fuel targets ?deadline w "h @ n1"]
    by (metis append.assoc naps_def prod.collapse)
  obtain running gone where s: "split_running targets w (h @ n1 @ n2) = ((running, gone), h @ n1 @ n2)"
    using quietD [OF quiet_split] by (metis prod.collapse)
  note s' = split_running_result [OF s]
  obtain n3 where n3: "kill_each SIGKILL running w (h @ n1 @ n2) = ((), h @ n1 @ n2 @ n3)"
      "calls n3 = map (\<lambda>p. Send_signal p SIGKILL) running"
    using kill_each_calls [of SIGKILL running w "h @ n1 @ n2"]
    by (metis append.assoc old.unit.exhaust prod.collapse)
  let ?ev = "(Sleep_ns (KillTimeout opts), err_of w (h @ n1 @ n2 @ n3) (Sleep_ns (KillTimeout opts)))"
  obtain stubborn later where t: "split_running running w (h @ n1 @ n2 @ n3 @ [?ev])
      = ((stubborn, later), h @ n1 @ n2 @ n3 @ [?ev])"
    using quietD [OF quiet_split] by (metis prod.collapse)
  note t' = split_running_result [OF t]
  have run: "terminate_targets fuel opts targets w h =
    (if \<not> ended then (None, h @ n1 @ n2)
     else if running = [] then (Some (\<lparr>Terminated = length gone, Killed = 0, StubbornPID = []\<rparr>, None), h @ n1 @ n2 @ n3)
     else (Some (\<lparr>Terminated = length gone + length later, Killed = length running, StubbornPID = stubborn\<rparr>,
             if stubborn = [] then None else Some Stubborn), h @ n1 @ n2 @ n3 @ [?ev]))"
    using n1(1) n2(1) s n3(1) t
    by (simp add: terminate_targets_def bind_io_def ask_def ret_def attempt_def do_call_def split: prod.split)
  have c: "calls (n1 @ n2) = map (\<lambda>p. Send_signal p SIGTERM) targets @ replicate k (Sleep_ns 100000000)"
    using n1(2) n2(2) by simp
  show ?thesis
  proof (cases "ended \<and> running \<noteq> []")
    case True
    then have "orderly opts targets (n1 @ n2 @ n3 @ [?ev]) (fst (terminate_targets fuel opts targets w h))"
      unfolding run orderly_def using c n3(2) s' t'
      by (intro exI [of _ k] exI [of _ running]) (simp add: list_emb_Nil)
    with True run show ?thesis by (intro exI [of _ "n1 @ n2 @ n3 @ [?ev]"]) simp
  next
    case False
    then show ?thesis
    proof (cases ended)
      case True
      with False have r: "running = []" by simp
      with n3(2) have "n3 = []" by (simp add: calls_def)
      with True r have "orderly opts targets (n1 @ n2) (fst (terminate_targets fuel opts targets w h))"
        unfolding run orderly_def using c s' by (intro exI [of _ k] exI [of _ "[]"]) simp
      with True r run \<open>n3 = []\<close> show ?thesis by (intro exI [of _ "n1 @ n2"]) simp
    next
      case False
      then have "orderly opts targets (n1 @ n2) (fst (terminate_targets fuel opts targets w h))"
        unfolding run orderly_def using c by (intro exI [of _ k] exI [of _ "[]"]) simp
      with False run show ?thesis by (intro exI [of _ "n1 @ n2"]) simp
    qed
  qed
qed

text \<open>The processes a run works on: the answer of the scan, less the excluded ones.\<close>

definition targets_of :: "world \<Rightarrow> history \<Rightarrow> terminate_options \<Rightarrow> int list" where
  "targets_of w h opts =
     (case fst (scan w h) of
        Inl _ \<Rightarrow> []
      | Inr procs \<Rightarrow> map PID (filter (\<lambda>p. \<not> excluded w (with_defaults opts) p) procs))"

lemma terminate_run:
  "terminate fuel opts w h =
    (case fst (scan w h) of
       Inl e \<Rightarrow> (Some (\<lparr>Terminated = 0, Killed = 0, StubbornPID = []\<rparr>, Some (ScanFailed e)), h)
     | Inr procs \<Rightarrow> terminate_targets fuel (with_defaults opts) (targets_of w h opts) w h)"
  by (auto simp: terminate_def Let_def quiet_run [OF quiet_scan] targets_of_def ret_def quiet_run
      ask_def split: sum.split)

lemma with_defaults_sel [simp]:
  "ExcludePIDs (with_defaults opts) = ExcludePIDs opts" "SkipEssential (with_defaults opts) = SkipEssential opts"
  "GracefulTimeout (with_defaults opts) > 0" "KillTimeout (with_defaults opts) > 0"
  by (simp_all add: with_defaults_def)


definition busy :: world where
  "busy = calm\<lparr>dir_entries := (\<lambda>h p. Inr [(''1'', True), (''7'', True), (''self'', True), (''100'', True)]),
      file_text := (\<lambda>h p. if p = ''/proc/7/comm'' then Inr (''nginx'' @ [CHR 0x0A])
        else if p = ''/proc/7/cmdline'' then Inr ''nginx'' else Inl ENOENT)\<rparr>"

lemma busy_scan: "fst (scan busy []) = Inr [\<lparr>PID = 7, PPID = 0, Comm = ''nginx'', Cmdline = ''nginx''\<rparr>]"
proof -
  have a: "atoi ''7'' = Inr 7" "atoi ''1'' = Inr 1" "atoi ''self'' = Inl ErrSyntax" "atoi ''100'' = Inr 100"
    by (simp_all add: atoi_def has_prefix_def parse_uint_def digit_val_def)
  have p: "proc_path ''/proc'' 7 = ''/proc/7''" "proc_path ''/proc'' 1 = ''/proc/1''"
      "proc_path ''/proc'' 100 = ''/proc/100''" "path_join [''/proc/7'', ''comm''] = ''/proc/7/comm''"
      "path_join [''/proc/7'', ''cmdline''] = ''/proc/7/cmdline''"
      "path_join [''/proc/1'', ''comm''] = ''/proc/1/comm''"
      "path_join [''/proc/100'', ''comm''] = ''/proc/100/comm''"
      "path_join [''/proc/7'', ''status''] = ''/proc/7/status''"
    by code_simp+
  show ?thesis
    by (simp add: scan_def scan_root_def read_proc_def read_ppid_def bind_ok_def bind_io_def ask_def ret_def
        busy_def calm_def a p trim_right_newlines_def)
qed


text \<open>C15: No signal ever goes to xmorph itself, to its parent, to an excluded process or to a kernel
  thread; when essential processes are to be kept, none goes to process 1, to a process whose
  name starts with one of the essential names, or to a bracketed name. Every signal goes to a
  process the scan found.\<close>

theorem terminate_spares:
  assumes "snd (terminate fuel opts w h) = h @ new" "(Send_signal pid sig, r) \<in> set new"
  shows "pid \<noteq> getpid w \<and> pid \<noteq> getppid w \<and> pid \<notin> set (ExcludePIDs opts) \<and>
    (\<exists>procs. fst (scan w h) = Inr procs \<and> (\<exists>p \<in> set procs. PID p = pid \<and> Cmdline p \<noteq> [] \<and>
       (SkipEssential opts \<longrightarrow> pid \<noteq> 1 \<and> \<not> is_essential_name (Comm p) \<and> \<not> has_prefix (Comm p) ''['')))"
proof -
  obtain procs where p: "fst (scan w h) = Inr procs"
    using assms by (cases "fst (scan w h)") (auto simp: terminate_run)
  obtain new' where n: "snd (terminate fuel opts w h) = h @ new'"
      "orderly (with_defaults opts) (targets_of w h opts) new' (fst (terminate fuel opts w h))"
    using terminate_targets_orderly [of fuel "with_defaults opts" "targets_of w h opts" w h] p
    by (auto simp: terminate_run)
  then have "new' = new" using assms(1) by simp
  have "Send_signal pid sig \<in> set (calls new)" using assms(2) by (force simp: calls_def)
  then have "pid \<in> set (targets_of w h opts)"
    using orderly_targets [OF n(2)] \<open>new' = new\<close> by simp
  then obtain q where "q \<in> set procs" "PID q = pid" "\<not> excluded w (with_defaults opts) q"
    using p by (auto simp: targets_of_def)
  with p show ?thesis by (auto simp: excluded_def is_essential_def is_kernel_thread_def)
qed

theorem terminate_spares_witness:
  "\<exists>procs. fst (scan busy []) = Inr procs \<and> (\<exists>p \<in> set procs. PID p = 7 \<and> Cmdline p \<noteq> [])"
proof -
  let ?o = "\<lparr>GracefulTimeout = 0, KillTimeout = 0, SkipEssential = True, ExcludePIDs = []\<rparr>"
  have "excluded busy (with_defaults ?o) \<lparr>PID = 7, PPID = 0, Comm = ''nginx'', Cmdline = ''nginx''\<rparr> = False"
    by code_simp
  then have "targets_of busy [] ?o = [7]" by (simp add: targets_of_def busy_scan)
  moreover obtain new where n: "snd (terminate 3 ?o busy []) = [] @ new"
      "orderly (with_defaults ?o) (targets_of busy [] ?o) new (fst (terminate 3 ?o busy []))"
    using terminate_targets_orderly [of 3 "with_defaults ?o" "targets_of busy [] ?o" busy "[]"] busy_scan
    by (auto simp: terminate_run)
  ultimately have "Send_signal 7 SIGTERM \<in> set (calls new)"
    by (auto simp: orderly_def split: option.splits prod.splits)
  then obtain r where "(Send_signal 7 SIGTERM, r) \<in> set new" by (auto simp: calls_def)
  from terminate_spares [OF n(1) this] show ?thesis by blast
qed

lemma terminate_ends:
  assumes "ticking_clock (clock_ns w)" "int fuel * 100000000 > GracefulTimeout (with_defaults opts)"
  shows "\<exists>res err. fst (terminate (Suc fuel) opts w h) = Some (res, err)"
proof (cases "fst (scan w h)")
  case (Inr procs)
  let ?o = "with_defaults opts" and ?t = "targets_of w h opts"
  obtain n1 where n1: "kill_each SIGTERM ?t w h = ((), h @ n1)"
    using kill_each_calls [of SIGTERM ?t w h] by (metis old.unit.exhaust prod.collapse)
  have "fst (graceful_polling (Suc fuel) ?t (clock_ns w (h @ n1) + GracefulTimeout ?o) w (h @ n1))"
    using assms by (intro polling_ends) simp_all
  then have "fst (terminate_targets (Suc fuel) ?o ?t w h) \<noteq> None"
    using n1 by (auto simp: terminate_targets_def bind_io_def ask_def ret_def attempt_def do_call_def
        simp del: graceful_polling.simps split: prod.splits if_splits)
  with Inr show ?thesis by (auto simp: terminate_run)
qed (simp add: terminate_run)

text \<open>Termination always comes back: on a clock that ticks, a number of polling rounds covering the
  grace period at the 100 ms nap, and one more, is enough for a result, however many processes
  refuse to die.\<close>

theorem terminate_returns:
  assumes "ticking_clock (clock_ns w)" "int fuel * 100000000 > GracefulTimeout (with_defaults opts)"
  shows "\<exists>res err. fst (terminate (Suc fuel) opts w h) = Some (res, err)"
  by (rule terminate_ends [OF assms])

theorem terminate_returns_witness:
  "\<exists>res err. fst (terminate 52 \<lparr>GracefulTimeout = 0, KillTimeout = 0, SkipEssential = True, ExcludePIDs = []\<rparr> calm []) = Some (res, err)"
  using terminate_returns [of calm "\<lparr>GracefulTimeout = 0, KillTimeout = 0, SkipEssential = True, ExcludePIDs = []\<rparr>" 51 "[]"]
    slept.ticking_clock_axioms by (simp add: calm_def with_defaults_def)

end
