(* ===== verification/Sizes.thy ===== *)
theory Sizes
  imports GoStrings
begin

unbundle bit_operations_syntax

text \<open>
  Sizes and memory: \<open>ParseSize\<close> of \<open>internal/config/size.go\<close> and \<open>internal/sysmem/meminfo.go\<close>.
  Byte counts are 64-bit words, as in the code.
\<close>

section \<open>Floating point, as far as percentages use it\<close>

text \<open>
  A \<open>float64\<close> is \<open>\<plusminus>m \<cdot> 2\<^sup>e\<close>, an infinity, or NaN. \<open>round53 m e\<close> rounds a positive value to 53
  significant bits, ties to even. The products and quotients \<open>ParseSize\<close> forms are neither
  subnormal nor past the largest float, except where the result is below one byte anyway.
\<close>

datatype f64 = NaN | Inf bool | Fin bool nat int

fun bit_len :: "nat \<Rightarrow> nat" where
  "bit_len n = (if n = 0 then 0 else Suc (bit_len (n div 2)))"

declare bit_len.simps [simp del]

definition round53 :: "nat \<Rightarrow> int \<Rightarrow> nat \<times> int" where
  "round53 m e =
     (let k = bit_len m - 53; q = m div 2 ^ k; r = 2 * (m mod 2 ^ k)
      in if k = 0 then (m, e)
         else if r > 2 ^ k \<or> r = 2 ^ k \<and> odd q then (q + 1, e + int k) else (q, e + int k))"

definition f64_of_uint :: "u64 \<Rightarrow> nat \<times> int" where
  "f64_of_uint w = round53 (unat w) 0"

definition f64_mul :: "nat \<times> int \<Rightarrow> nat \<times> int \<Rightarrow> nat \<times> int" where
  "f64_mul a b = round53 (fst a * fst b) (snd a + snd b)"

text \<open>Division by 100 with 60 extra bits and a sticky bit for what is cut off.\<close>

definition f64_div100 :: "nat \<times> int \<Rightarrow> nat \<times> int" where
  "f64_div100 a =
     (let n = fst a * 2 ^ 60
      in round53 (2 * (n div 100) + (if n mod 100 = 0 then 0 else 1)) (snd a - 61))"

definition f64_trunc :: "nat \<times> int \<Rightarrow> nat" where
  "f64_trunc a = (if snd a \<ge> 0 then fst a * 2 ^ nat (snd a) else fst a div 2 ^ nat (- snd a))"

text \<open>\<open>v <= 0\<close> and \<open>v > 100\<close>; both are false on NaN.\<close>

definition f64_nonpos :: "f64 \<Rightarrow> bool" where
  "f64_nonpos v = (case v of NaN \<Rightarrow> False | Inf neg \<Rightarrow> neg | Fin neg m e \<Rightarrow> neg \<or> m = 0)"

definition f64_over100 :: "f64 \<Rightarrow> bool" where
  "f64_over100 v =
     (case v of NaN \<Rightarrow> False | Inf neg \<Rightarrow> \<not> neg
      | Fin neg m e \<Rightarrow> \<not> neg \<and> (if e \<ge> 0 then m * 2 ^ nat e > 100 else m > 100 * 2 ^ nat (- e)))"

section \<open>ParseSize\<close>

datatype size_error =
    EmptySize
  | BadPercentage num_error
  | PercentageRange
  | BadSize num_error
  | SizeOverflow

text \<open>\<open>strings.ToUpper\<close>. Of the letters outside ASCII two have an ASCII upper case, the dotless i
  and the long s; the others stay outside ASCII and are left as they are, since nothing
  downstream accepts them in either case.\<close>

definition ascii_upper :: "char \<Rightarrow> char" where
  "ascii_upper c =
     (let n = of_char c :: nat in if 97 \<le> n \<and> n \<le> 122 then char_of (n - 32) else c)"

fun to_upper :: "string \<Rightarrow> string" where
  "to_upper [] = []"
| "to_upper [c] = [ascii_upper c]"
| "to_upper (c # d # ds) =
     (if c = CHR 0xC4 \<and> d = CHR 0xB1 then CHR ''I'' # to_upper ds
      else if c = CHR 0xC5 \<and> d = CHR 0xBF then CHR ''S'' # to_upper ds
      else ascii_upper c # to_upper (d # ds))"

text \<open>The parameter \<open>parse_float\<close> is \<open>strconv.ParseFloat\<close>; \<open>odd_u64\<close> is the value the hardware
  gives for a conversion to \<open>uint64\<close> that is out of range, which Go leaves open.\<close>

definition percent_of :: "(f64 \<Rightarrow> u64) \<Rightarrow> f64 \<Rightarrow> u64 \<Rightarrow> u64" where
  "percent_of odd_u64 v totalBytes =
     (case v of
        Fin neg m e \<Rightarrow>
          (let x = f64_div100 (f64_mul (f64_of_uint totalBytes) (m, e)); n = f64_trunc x
           in if n < 2 ^ 64 then of_nat n else odd_u64 (Fin False (fst x) (snd x)))
      | _ \<Rightarrow> odd_u64 v)"

definition unit_shift :: "char \<Rightarrow> nat" where
  "unit_shift c =
     (if c = CHR ''K'' then 10 else if c = CHR ''M'' then 20
      else if c = CHR ''G'' then 30 else if c = CHR ''T'' then 40 else 0)"

definition parse_plain_size :: "string \<Rightarrow> (size_error, u64) res" where
  "parse_plain_size s =
     (let u = trim_suffix (trim_suffix (to_upper s) ''B'') ''I'';
          shift = (if u = [] then 0 else unit_shift (last u));
          mult = push_bit shift (1 :: u64);
          digits = (if shift > 0 then butlast u else u)
      in case parse_uint 64 (trim_space digits) of
           Inl e \<Rightarrow> Inl (BadSize e)
         | Inr k \<Rightarrow> (let n = of_nat k :: u64
                    in if n > (- 1) div mult then Inl SizeOverflow else Inr (n * mult)))"

definition parse_size ::
  "(string \<Rightarrow> (num_error, f64) res) \<Rightarrow> (f64 \<Rightarrow> u64) \<Rightarrow> string \<Rightarrow> u64 \<Rightarrow> (size_error, u64) res" where
  "parse_size parse_float odd_u64 str totalBytes =
     (let s = trim_space str
      in if s = [] then Inl EmptySize
         else case cut_suffix s ''%'' of
           Some pct \<Rightarrow>
             (case parse_float (trim_space pct) of
                Inl e \<Rightarrow> Inl (BadPercentage e)
              | Inr v \<Rightarrow> if f64_nonpos v \<or> f64_over100 v then Inl PercentageRange
                         else Inr (percent_of odd_u64 v totalBytes))
         | None \<Rightarrow> parse_plain_size s)"

section \<open>The documented sizes\<close>

lemma to_upper_ascii: "\<forall>c \<in> set s. (of_char c :: nat) < 128 \<Longrightarrow> to_upper s = map ascii_upper s"
  by (induction s rule: to_upper.induct) auto

definition is_digit :: "char \<Rightarrow> bool" where
  "is_digit c \<longleftrightarrow> 48 \<le> (of_char c :: nat) \<and> (of_char c :: nat) \<le> 57"

lemma format_uint_digits: "c \<in> set (format_uint n) \<Longrightarrow> is_digit c"
proof (induction n rule: format_uint.induct)
  case (1 n)
  have "is_digit (digit_char d)" if "d < 10" for d
    using that by (simp add: is_digit_def digit_char_def)
  with 1 show ?case by (auto simp: format_uint.simps [of n] split: if_splits)
qed

lemma digit_plain: "is_digit c \<Longrightarrow> plain_char c" "is_digit c \<Longrightarrow> ascii_upper c = c"
  by (simp_all add: is_digit_def plain_char_def ascii_upper_def Let_def)

lemma digit_not_unit: "is_digit c \<Longrightarrow> unit_shift c = 0 \<and> c \<noteq> CHR ''B'' \<and> c \<noteq> CHR ''I'' \<and> c \<noteq> CHR ''%''"
  by (auto simp: is_digit_def unit_shift_def)

lemma format_uint_upper: "to_upper (format_uint n @ s) = format_uint n @ to_upper s"
  if "\<forall>c \<in> set s. (of_char c :: nat) < 128"
proof -
  have d: "\<forall>c \<in> set (format_uint n). is_digit c" using format_uint_digits by blast
  then have "\<forall>c \<in> set (format_uint n @ s). (of_char c :: nat) < 128"
    using that by (auto simp: is_digit_def)
  then have "to_upper (format_uint n @ s) = map ascii_upper (format_uint n @ s)" by (rule to_upper_ascii)
  moreover have "map ascii_upper (format_uint n) = format_uint n"
    using d by (intro map_idI) (simp add: digit_plain)
  ultimately show ?thesis using to_upper_ascii [OF that] by simp
qed

lemma trim_space_format: "trim_space (format_uint n) = format_uint n"
  by (intro trim_space_plain digit_plain(1) format_uint_digits [of _ n] hd_in_set last_in_set) simp_all

text \<open>The multiplication, once the number has been read.\<close>

lemma scaled_size:
  assumes "k < 2 ^ 64" "i \<le> 40"
  shows "(of_nat k :: u64) > (- 1) div push_bit i 1 \<longleftrightarrow> k * 2 ^ i \<ge> 2 ^ 64"
    and "k * 2 ^ i < 2 ^ 64 \<Longrightarrow> unat ((of_nat k :: u64) * push_bit i 1) = k * 2 ^ i"
proof -
  have "(2::nat) ^ i \<le> 2 ^ 40" using assms(2) by (intro power_increasing) auto
  then have p: "(2::nat) ^ i < 2 ^ 64" by (rule le_less_trans) simp
  then have u: "unat (push_bit i 1 :: u64) = 2 ^ i"
    using unat_of_nat [of "2 ^ i", where ?'a = 64] by (simp add: push_bit_eq_mult take_bit_nat_eq_self)
  have n: "unat (of_nat k :: u64) = k" using assms(1) by (simp add: unat_of_nat)
  have m: "unat (- 1 :: u64) = 2 ^ 64 - 1" by (simp add: unsigned_minus_1_eq_mask mask_eq_exp_minus_1)
  have "(of_nat k :: u64) > (- 1) div push_bit i 1 \<longleftrightarrow> (2 ^ 64 - 1) div 2 ^ i < k"
    by (simp only: word_less_nat_alt unat_div u n m)
  also have "\<dots> \<longleftrightarrow> k * 2 ^ i \<ge> 2 ^ 64"
    by (simp add: div_less_iff_less_mult) linarith
  finally show "(of_nat k :: u64) > (- 1) div push_bit i 1 \<longleftrightarrow> k * 2 ^ i \<ge> 2 ^ 64" .
  show "k * 2 ^ i < 2 ^ 64 \<Longrightarrow> unat ((of_nat k :: u64) * push_bit i 1) = k * 2 ^ i"
    by (simp only: unat_word_ariths u n) simp
qed

text \<open>The spellings of a size: the number, a unit letter in either case or none, and the optional
  \<open>B\<close> or \<open>iB\<close>.\<close>

definition size_units :: "(string \<times> nat) list" where
  "size_units = [([], 0), (''K'', 10), (''M'', 20), (''G'', 30), (''T'', 40),
                 (''k'', 10), (''m'', 20), (''g'', 30), (''t'', 40)]"

lemma ascii_upper_units [simp]:
  "ascii_upper CHR ''K'' = CHR ''K''" "ascii_upper CHR ''k'' = CHR ''K''"
  "ascii_upper CHR ''M'' = CHR ''M''" "ascii_upper CHR ''m'' = CHR ''M''"
  "ascii_upper CHR ''G'' = CHR ''G''" "ascii_upper CHR ''g'' = CHR ''G''"
  "ascii_upper CHR ''T'' = CHR ''T''" "ascii_upper CHR ''t'' = CHR ''T''"
  "ascii_upper CHR ''B'' = CHR ''B''" "ascii_upper CHR ''b'' = CHR ''B''"
  "ascii_upper CHR ''I'' = CHR ''I''" "ascii_upper CHR ''i'' = CHR ''I''"
  by code_simp+

definition size_tails :: "string list" where
  "size_tails = [[], ''B'', ''iB'', ''b'', ''i'']"

lemma trim_suffix_append [simp]: "trim_suffix (s @ p) p = s"
  by (simp add: trim_suffix_def has_suffix_def)

lemma has_suffix_last: "s \<noteq> [] \<Longrightarrow> p \<noteq> [] \<Longrightarrow> last s \<noteq> last p \<Longrightarrow> \<not> has_suffix s p"
  by (cases s rule: rev_cases; cases p rule: rev_cases) (auto simp: has_suffix_def)

lemma trim_suffix_last: "last s \<noteq> last p \<Longrightarrow> s \<noteq> [] \<Longrightarrow> p \<noteq> [] \<Longrightarrow> trim_suffix s p = s"
  by (simp add: trim_suffix_def has_suffix_last)

lemma upper_unit_tail:
  assumes "(un, i) \<in> set size_units" "tail \<in> set size_tails"
  shows "trim_suffix (trim_suffix (to_upper (format_uint n @ un @ tail)) ''B'') ''I'' =
    format_uint n @ to_upper un"
proof -
  let ?f = "format_uint n"
  have d: "is_digit (last ?f)" by (intro format_uint_digits [of _ n] last_in_set) simp
  have e: "trim_suffix (trim_suffix (?f @ u @ w) ''B'') ''I'' = ?f @ u"
    if "w \<in> {[], ''B'', ''IB'', ''I''}" "u = [] \<or> (\<exists>c. u = [c] \<and> c \<noteq> CHR ''B'' \<and> c \<noteq> CHR ''I'')" for u w
  proof -
    have l: "last (?f @ u) \<noteq> CHR ''B'' \<and> last (?f @ u) \<noteq> CHR ''I''" using that(2) digit_not_unit [OF d] by auto
    then have "trim_suffix (?f @ u) ''B'' = ?f @ u" "trim_suffix (?f @ u) ''I'' = ?f @ u"
      by (simp_all add: trim_suffix_last)
    moreover have "trim_suffix (?f @ u @ ''I'') ''B'' = ?f @ u @ ''I''" by (simp add: trim_suffix_last)
    moreover have "trim_suffix ((?f @ u) @ ''B'') ''B'' = ?f @ u" "trim_suffix ((?f @ u) @ ''I'') ''I'' = ?f @ u"
      "trim_suffix ((?f @ u @ ''I'') @ ''B'') ''B'' = ?f @ u @ ''I''" by (rule trim_suffix_append)+
    ultimately show ?thesis using that(1) by auto
  qed
  have "\<forall>c \<in> set (un @ tail). (of_char c :: nat) < 128"
    using assms by (auto simp: size_units_def size_tails_def)
  then have "to_upper (?f @ un @ tail) = ?f @ to_upper (un @ tail)" by (rule format_uint_upper)
  moreover have "to_upper (un @ tail) = to_upper un @ to_upper tail"
      "to_upper tail \<in> {[], ''B'', ''IB'', ''I''}"
      "to_upper un = [] \<or> (\<exists>c. to_upper un = [c] \<and> c \<noteq> CHR ''B'' \<and> c \<noteq> CHR ''I'')"
    using assms by (auto simp: size_units_def size_tails_def)
  ultimately show ?thesis using e by simp
qed

lemma plain_size_format:
  assumes "n < 2 ^ 64" "(un, i) \<in> set size_units" "tail \<in> set size_tails"
  shows "parse_plain_size (format_uint n @ un @ tail) =
    (if n * 2 ^ i < 2 ^ 64 then Inr (of_nat n * push_bit i 1) else Inl SizeOverflow)"
proof -
  let ?u = "format_uint n @ to_upper un"
  have d: "is_digit (last (format_uint n))" by (intro format_uint_digits [of _ n] last_in_set) simp
  have i: "i \<le> 40" using assms(2) by (auto simp: size_units_def)
  have "unit_shift (last ?u) = i \<and> (if i > 0 then butlast ?u else ?u) = format_uint n"
    using assms(2) digit_not_unit [OF d]
    by (auto simp: size_units_def unit_shift_def)
  then show ?thesis
    using scaled_size(1) [OF assms(1) i] upper_unit_tail [OF assms(2,3), of n]
    by (simp add: parse_plain_size_def Let_def trim_space_format parse_uint_format [OF assms(1)] not_less)
qed

lemma size_string_plain:
  assumes "(un, i) \<in> set size_units" "tail \<in> set size_tails"
  shows "trim_space (format_uint n @ un @ tail) = format_uint n @ un @ tail"
    and "cut_suffix (format_uint n @ un @ tail) ''%'' = None"
proof -
  let ?s = "format_uint n @ un @ tail"
  have d: "is_digit (hd (format_uint n))" "is_digit (last (format_uint n))"
    by (intro format_uint_digits [of _ n] hd_in_set last_in_set; simp)+
  have "plain_char (last ?s) \<and> last ?s \<noteq> CHR ''%''"
    using assms digit_not_unit [OF d(2)] digit_plain(1) [OF d(2)]
    by (auto simp: size_units_def size_tails_def plain_char_def)
  moreover have "plain_char (hd ?s)" using digit_plain(1) [OF d(1)] by simp
  ultimately show "trim_space ?s = ?s" "cut_suffix ?s ''%'' = None"
    by (simp_all add: trim_space_plain cut_suffix_def has_suffix_last)
qed

text \<open>C27: Every documented spelling of a size, a decimal count with an optional unit letter in
  either case and an optional \<open>B\<close> or \<open>iB\<close>, parses to exactly the count times the unit when that
  fits in 64 bits, and is refused as an overflow when it does not: the multiplication never
  wraps, and \<open>512M\<close>, \<open>512MB\<close> and \<open>512MiB\<close> agree.\<close>

theorem parse_size_exact:
  assumes "n < 2 ^ 64" "(un, i) \<in> set size_units" "tail \<in> set size_tails"
  shows "(n * 2 ^ i < 2 ^ 64 \<longrightarrow>
      (\<exists>v. parse_size pf odd_u64 (format_uint n @ un @ tail) totalBytes = Inr v \<and> unat v = n * 2 ^ i)) \<and>
    (n * 2 ^ i \<ge> 2 ^ 64 \<longrightarrow>
      parse_size pf odd_u64 (format_uint n @ un @ tail) totalBytes = Inl SizeOverflow)"
proof -
  have "i \<le> 40" using assms(2) by (auto simp: size_units_def)
  with scaled_size(2) [OF assms(1)] plain_size_format [OF assms] size_string_plain [OF assms(2,3), of n]
  show ?thesis by (auto simp: parse_size_def Let_def)
qed

theorem parse_size_exact_witness:
  "(\<exists>v. parse_size (\<lambda>s. Inl ErrSyntax) (\<lambda>v. 0) ''512MiB'' 0 = Inr v \<and> unat v = 536870912) \<and>
   parse_size (\<lambda>s. Inl ErrSyntax) (\<lambda>v. 0) ''16777216T'' 0 = Inl SizeOverflow"
proof -
  have f: "format_uint 512 = ''512''" "format_uint 16777216 = ''16777216''"
    by (simp_all add: format_uint.simps)
  from parse_size_exact [of 512 "''M''" 20 "''iB''"] parse_size_exact [of 16777216 "''T''" 40 "[]" "\<lambda>s. Inl ErrSyntax" "\<lambda>v. 0" 0]
  show ?thesis by (simp add: f size_units_def size_tails_def)
qed

text \<open>The range check of a percentage lets NaN through, as \<open>strconv.ParseFloat\<close> reads it from \<open>nan\<close>:
  both comparisons are false, and the size is whatever the hardware converts it to.\<close>

lemma nan_percentage_accepted:
  assumes "parse_float ''nan'' = Inr NaN"
  shows "parse_size parse_float odd_u64 ''nan%'' totalBytes = Inr (odd_u64 NaN)"
proof -
  have "trim_space ''nan%'' = ''nan%''" "cut_suffix ''nan%'' ''%'' = Some ''nan''" "trim_space ''nan'' = ''nan''"
    by code_simp+
  with assms show ?thesis
    by (simp add: parse_size_def Let_def percent_of_def f64_nonpos_def f64_over100_def)
qed

section \<open>/proc/meminfo\<close>

record mem_info =
  Total :: u64
  Free :: u64
  Available :: u64

datatype mem_error = MemOpen errno | MemScan | NoMemTotal

definition mem_line :: "mem_info \<Rightarrow> string \<Rightarrow> mem_info" where
  "mem_line out line =
     (case cut_byte CHR '':'' line of
        None \<Rightarrow> out
      | Some (key, after) \<Rightarrow>
          (case GoStrings.fields (trim_space after) of
             [] \<Rightarrow> out
           | f # _ \<Rightarrow>
               (case parse_uint 64 f of
                  Inl _ \<Rightarrow> out
                | Inr n \<Rightarrow>
                    (let bytes = of_nat n * 1024
                     in if key = ''MemTotal'' then out\<lparr>Total := bytes\<rparr>
                        else if key = ''MemFree'' then out\<lparr>Free := bytes\<rparr>
                        else if key = ''MemAvailable'' then out\<lparr>Available := bytes\<rparr>
                        else out))))"

text \<open>\<open>readFrom\<close>, over what opening and reading the file gives.\<close>

definition read_meminfo :: "(errno, string) res \<Rightarrow> (mem_error, mem_info) res" where
  "read_meminfo file =
     (case file of
        Inl e \<Rightarrow> Inl (MemOpen e)
      | Inr content \<Rightarrow>
          (let out = foldl mem_line \<lparr>Total = 0, Free = 0, Available = 0\<rparr> (scan_lines content)
           in if scan_failed content then Inl MemScan
              else if Total out = 0 then Inl NoMemTotal
              else if Available out = 0 then Inr (out\<lparr>Available := Free out\<rparr>)
              else Inr out))"

section \<open>Reserve, recommendation, headroom\<close>

definition reserve_bytes :: "mem_info \<Rightarrow> u64" where
  "reserve_bytes m = Total m div 10"

definition recommend_rootfs_bytes :: "mem_info \<Rightarrow> u64" where
  "recommend_rootfs_bytes m =
     (let reserve = reserve_bytes m
      in if Available m \<le> reserve then 0 else Available m - reserve)"

datatype headroom = Insufficient | Enough bool \<comment> \<open>with the warning flag\<close>

definition headroom_check :: "mem_info \<Rightarrow> u64 \<Rightarrow> headroom" where
  "headroom_check m rootfsBytes =
     (let left = (if Available m > rootfsBytes then Available m - rootfsBytes else 0)
      in if left < Total m div 10 then Insufficient else Enough (left < Total m div 4))"

lemma unat_Total_div: "unat (Total m div 10) = unat (Total m) div 10"
  "unat (Total m div 4) = unat (Total m) div 4"
  by (simp_all add: unat_div)

lemma unat_minus: "b \<le> a \<Longrightarrow> unat (a - b :: u64) = unat a - unat b"
  by (simp add: unat_sub)

lemma headroom_left:
  "unat (if Available m > s then Available m - s else 0) = unat (Available m) - unat (s :: u64)"
  by (auto simp: unat_minus less_imp_le word_less_nat_alt)

text \<open>The RAM check, on 64-bit counters that cannot wrap: a root file system of the given size
  is refused exactly when the memory left of what is available, counted without going below
  zero, is under a tenth of the total, and otherwise warned about exactly when it is under a
  quarter.\<close>

theorem headroom_check_exact:
  "headroom_check m s =
    (let left = unat (Available m) - unat s
     in if left < unat (Total m) div 10 then Insufficient else Enough (left < unat (Total m) div 4))"
  by (simp add: headroom_check_def Let_def word_less_nat_alt [of "if _ then _ else _"] headroom_left
      unat_Total_div)

text \<open>The size recommended for the tmpfs leaves the reserve free to the byte, so a root file
  system that fits in it always passes the check that runs afterwards.\<close>

theorem recommended_size_fits:
  assumes "recommend_rootfs_bytes m \<noteq> 0" "s \<le> recommend_rootfs_bytes m"
  shows "unat (recommend_rootfs_bytes m) + unat (reserve_bytes m) = unat (Available m) \<and>
    headroom_check m s \<noteq> Insufficient"
proof -
  have r: "recommend_rootfs_bytes m = Available m - reserve_bytes m" "reserve_bytes m \<le> Available m"
    using assms(1) by (auto simp: recommend_rootfs_bytes_def Let_def split: if_splits)
  then have "unat (reserve_bytes m) \<le> unat (Available m)" by (simp add: word_le_nat_alt)
  with r unat_minus [OF r(2)] have sum:
    "unat (recommend_rootfs_bytes m) + unat (reserve_bytes m) = unat (Available m)" by simp
  have "unat s \<le> unat (recommend_rootfs_bytes m)" using assms(2) by (simp add: word_le_nat_alt)
  with sum have "\<not> unat (Available m) - unat s < unat (Total m) div 10"
    by (simp add: reserve_bytes_def unat_Total_div)
  with sum show ?thesis
    by (simp add: headroom_check_def Let_def word_less_nat_alt [of "if _ then _ else _"] headroom_left
        unat_Total_div)
qed

theorem recommended_size_fits_witness:
  "headroom_check \<lparr>Total = 1000, Free = 100, Available = 500\<rparr> 400 \<noteq> Insufficient"
  using recommended_size_fits [of "\<lparr>Total = 1000, Free = 100, Available = 500\<rparr>" 400]
  by (simp add: recommend_rootfs_bytes_def reserve_bytes_def)

end
