(* ===== verification/Helpers.thy ===== *)
theory Helpers
  imports Config World
begin

text \<open>
  Small helpers: the Tailscale arguments and host names (\<open>internal/helpers/tsargs.go\<close>,
  \<open>internal/postpivot/hostname.go\<close>), the passphrase generator
  (\<open>internal/passphrase/passphrase.go\<close>), and the password banner
  (\<open>internal/postpivot/announce.go\<close>).
\<close>

section \<open>Tailscale\<close>

definition read_hostname :: "world \<Rightarrow> string" where
  "read_hostname w = (case host_name w of Inr h \<Rightarrow> h | Inl _ \<Rightarrow> ''host'')"

definition resolve_tailscale_args :: "world \<Rightarrow> config \<Rightarrow> string" where
  "resolve_tailscale_args w cfg =
     (if \<not> tailscale_enabled cfg then ''--ssh''
      else if TailscaleArgs cfg \<noteq> [] then TailscaleArgs cfg
      else ''--ssh --hostname='' @ read_hostname w @ ''-xmorph'' @
           (if TailscaleServer cfg \<noteq> [] then '' --login-server='' @ TailscaleServer cfg else []))"

text \<open>The loop of \<open>splitArgs\<close>: \<open>cur\<close> is the argument being read.\<close>

fun split_args_from :: "string \<Rightarrow> string \<Rightarrow> string list" where
  "split_args_from cur [] = (if cur \<noteq> [] then [cur] else [])"
| "split_args_from cur (c # cs) =
     (if c = CHR '' '' \<or> c = CHR 0x09
      then (if cur \<noteq> [] then [cur] else []) @ split_args_from [] cs
      else split_args_from (cur @ [c]) cs)"

definition split_args :: "string \<Rightarrow> string list" where
  "split_args s = split_args_from [] s"

definition hostname_flag :: string where "hostname_flag = ''--hostname=''"

fun first_hostname :: "string list \<Rightarrow> string option" where
  "first_hostname [] = None"
| "first_hostname (tok # toks) =
     (case cut_prefix tok hostname_flag of
        Some rest \<Rightarrow> if rest \<noteq> [] then Some rest else first_hostname toks
      | None \<Rightarrow> first_hostname toks)"

definition tailscale_hostname :: "world \<Rightarrow> config \<Rightarrow> string" where
  "tailscale_hostname w cfg =
     (case first_hostname (split_args (TailscaleArgs cfg)) of
        Some host \<Rightarrow> host
      | None \<Rightarrow> read_hostname w @ ''-xmorph'')"

text \<open>\<open>hostnameFromArgs\<close>, on the other side of the pivot.\<close>

fun hostname_of_tokens :: "string list \<Rightarrow> string" where
  "hostname_of_tokens [] = []"
| "hostname_of_tokens (tok # toks) =
     (case cut_prefix tok hostname_flag of Some rest \<Rightarrow> rest | None \<Rightarrow> hostname_of_tokens toks)"

definition hostname_from_args :: "string \<Rightarrow> string" where
  "hostname_from_args args = hostname_of_tokens (GoStrings.fields args)"

section \<open>Passphrases\<close>

definition parse_wordlist :: "string \<Rightarrow> string list" where
  "parse_wordlist raw =
     filter (\<lambda>line. line \<noteq> [] \<and> \<not> has_prefix line ''#'') (map trim_space (split_byte CHR 0x0A raw))"

datatype passphrase_error = BadWordCount | EmptyWordlist | NoRandomness errno

definition DefaultWords :: int where "DefaultWords = 3"

text \<open>The draws, from the i-th on; \<open>n\<close> more words.\<close>

fun pick_words :: "string list \<Rightarrow> nat \<Rightarrow> nat \<Rightarrow> (passphrase_error, string list) res io" where
  "pick_words words i 0 = ret (Inr [])"
| "pick_words words i (Suc n) =
     bind_ok (map_err NoRandomness (ask (\<lambda>w h. random_below w i (length words)))) (\<lambda>idx.
     bind_ok (pick_words words (Suc i) n) (\<lambda>rest. ret (Inr (words ! idx # rest))))"

definition generate_passphrase :: "string list \<Rightarrow> int \<Rightarrow> (passphrase_error, string) res io" where
  "generate_passphrase words n =
     (if n \<le> 0 then ret (Inl BadWordCount)
      else if words = [] then ret (Inl EmptyWordlist)
      else bind_ok (pick_words words 0 (nat n)) (\<lambda>picked. ret (Inr (join_byte CHR ''-'' picked))))"

definition new_passphrase :: "string list \<Rightarrow> (passphrase_error, string) res io" where
  "new_passphrase words = generate_passphrase words DefaultWords"

section \<open>The banner\<close>

definition banner_rule :: string where
  "banner_rule = ''  ============================================================''"

definition newline :: string where "newline = [CHR 0x0A]"

definition announce_text :: "string \<Rightarrow> int \<Rightarrow> string" where
  "announce_text password port =
     newline @ banner_rule @ newline @
     ''  SSH is enabled and no credentials were given, so xmorph'' @ newline @
     ''  generated a root password for it:'' @ newline @ newline @
     ''      '' @ password @ newline @ newline @
     ''  Log in with:  ssh -p '' @ format_int (if port = 0 then 22 else port) @ '' root@<this machine>'' @ newline @
     ''  Write it down. Nothing keeps a copy you can read later.'' @ newline @
     banner_rule @ newline @ newline"

section \<open>Properties\<close>

lemma split_args_from_plain:
  "CHR '' '' \<notin> set s \<Longrightarrow> CHR 0x09 \<notin> set s \<Longrightarrow> split_args_from cur s = (if cur @ s = [] then [] else [cur @ s])"
  by (induction s arbitrary: cur) auto

text \<open>Without \<open>--tailscale.args\<close> the name registered before the pivot and the name the
  listener reattaches under after it never agree: the first is the host's name with a suffix,
  the second is empty.\<close>

theorem default_hostnames_differ:
  assumes "TailscaleArgs cfg = []"
  shows "tailscale_hostname w cfg = read_hostname w @ ''-xmorph'' \<and>
    hostname_from_args (TailscaleArgs cfg) = [] \<and>
    tailscale_hostname w cfg \<noteq> hostname_from_args (TailscaleArgs cfg)"
  using assms
  by (simp add: tailscale_hostname_def split_args_def hostname_from_args_def GoStrings.fields_def
      fields_from.simps [of "[]" "[]"])

theorem default_hostnames_differ_witness:
  "tailscale_hostname calm new_config = ''host-xmorph'' \<and> hostname_from_args [] = []"
  using default_hostnames_differ [of new_config calm] by (simp add: new_config_def calm_def read_hostname_def)

text \<open>What the draws give when the source of randomness keeps its contract.\<close>

lemma pick_words_ok:
  assumes "\<And>j. random_below w j (length words) = Inr (f j) \<and> f j < length words"
  shows "\<exists>ps. pick_words words i n w h = (Inr ps, h) \<and> length ps = n \<and>
    ps = map (\<lambda>j. words ! f j) [i ..< i + n]"
proof (induction n arbitrary: i)
  case (Suc n)
  obtain ps where "pick_words words (Suc i) n w h = (Inr ps, h)" "length ps = n"
      "ps = map (\<lambda>j. words ! f j) [Suc i ..< Suc i + n]" using Suc by blast
  moreover have "[i ..< i + Suc n] = i # [Suc i ..< Suc i + n]" by (simp add: upt_rec)
  ultimately show ?case using assms [of i]
    by (simp add: bind_ok_def map_err_def bind_io_def ask_def ret_def)
qed (simp add: ret_def)

text \<open>With a source of randomness that stays below its bound, a passphrase of \<open>n\<close> words is
  generated without touching the system, and splitting it at the hyphens gives back exactly the
  \<open>n\<close> words drawn, provided no word of the list contains a hyphen.\<close>

theorem passphrase_reads_back:
  assumes "words \<noteq> []" "n > 0" "\<forall>x \<in> set words. CHR ''-'' \<notin> set x"
    "\<forall>j. random_below w j (length words) = Inr (f j) \<and> f j < length words"
  shows "\<exists>p. generate_passphrase words n w h = (Inr p, h) \<and>
    split_byte CHR ''-'' p = map (\<lambda>j. words ! f j) [0 ..< nat n]"
proof -
  obtain ps where p: "pick_words words 0 (nat n) w h = (Inr ps, h)" "length ps = nat n"
      "ps = map (\<lambda>j. words ! f j) [0 ..< nat n]"
    using pick_words_ok [of w words f 0 "nat n" h] assms(4) by auto
  have "ps \<noteq> []" using p(2) assms(2) by auto
  moreover have "\<forall>x \<in> set ps. CHR ''-'' \<notin> set x" using p(3) assms(3,4) by auto
  ultimately have "split_byte CHR ''-'' (join_byte CHR ''-'' ps) = ps" by (rule split_byte_join)
  with p assms(1,2) show ?thesis
    by (simp add: generate_passphrase_def bind_ok_def bind_io_def ret_def)
qed

theorem passphrase_reads_back_witness:
  "\<exists>p. generate_passphrase [''acid'', ''acorn''] 3 calm [] = (Inr p, []) \<and>
     split_byte CHR ''-'' p = [''acid'', ''acid'', ''acid'']"
  using passphrase_reads_back [of "[''acid'', ''acorn'']" 3 calm "\<lambda>_. 0" "[]"]
  by (simp add: calm_def upt_rec [of 0] upt_rec)

end
