(* ===== verification/InitSys.thy ===== *)
theory InitSys
  imports ProcessProofs
begin

text \<open>
  Package \<open>internal/initsys\<close>: which init is running (\<open>detector.go\<close>), asking it to stop services
  and waiting for that (\<open>coordinator.go\<close>), and moving into a scope of our own (\<open>scope.go\<close>).
\<close>

section \<open>Detection\<close>

datatype kind = Unknown | Systemd | OpenRC | SysVinit | Runit | S6 | Upstart

fun kind_string :: "kind \<Rightarrow> string" where
  "kind_string Systemd = ''systemd''"
| "kind_string OpenRC = ''OpenRC''"
| "kind_string SysVinit = ''SysV init''"
| "kind_string Runit = ''runit''"
| "kind_string S6 = ''s6''"
| "kind_string Upstart = ''Upstart''"
| "kind_string Unknown = ''unknown''"

definition trim_nul_newline :: "string \<Rightarrow> string" where
  "trim_nul_newline s = rev (dropWhile (\<lambda>c. c = CHR 0x00 \<or> c = CHR 0x0A) (rev s))"

definition kind_of_comm :: "string \<Rightarrow> kind option" where
  "kind_of_comm comm =
     (if comm = ''systemd'' then Some Systemd
      else if comm = ''openrc'' \<or> comm = ''openrc-init'' then Some OpenRC
      else if comm = ''init'' then Some SysVinit
      else if comm = ''runit'' \<or> comm = ''runsvdir'' then Some Runit
      else if comm = ''s6-svscan'' then Some S6
      else None)"

definition detect_via_pid1 :: "kind option io" where
  "detect_via_pid1 =
     bind_io (ask (\<lambda>w h. file_text w h ''/proc/1/comm''))
       (\<lambda>r. ret (case r of Inl _ \<Rightarrow> None | Inr data \<Rightarrow> kind_of_comm (trim_space (trim_nul_newline data))))"

text \<open>\<open>exists\<close>: any answer but "no such file".\<close>

definition path_exists :: "world \<Rightarrow> history \<Rightarrow> string \<Rightarrow> bool" where
  "path_exists w h p = (path_error w h p \<noteq> Some ENOENT)"

definition detect_by_files :: "world \<Rightarrow> history \<Rightarrow> kind" where
  "detect_by_files w h =
     (let ex = path_exists w h
      in if ex ''/run/systemd/system'' then Systemd
         else if ex ''/run/openrc/softlevel'' \<or> ex ''/etc/init.d/openrc'' then OpenRC
         else if ex ''/etc/service'' then Runit
         else if ex ''/service'' \<or> ex ''/etc/s6'' then S6
         else if ex ''/etc/init'' \<and> ex ''/sbin/initctl'' then Upstart
         else if ex ''/etc/inittab'' then SysVinit
         else Unknown)"

definition detect :: "kind io" where
  "detect =
     bind_io detect_via_pid1 (\<lambda>k. case k of Some x \<Rightarrow> ret x | None \<Rightarrow> ask detect_by_files)"

section \<open>Coordination\<close>

record coordinator =
  Kind :: kind
  Timeout :: int

definition new_coordinator :: "int \<Rightarrow> coordinator io" where
  "new_coordinator timeout = bind_io detect (\<lambda>k. ret \<lparr>Kind = k, Timeout = timeout\<rparr>)"

definition systemd_start_unit :: "string \<Rightarrow> string \<Rightarrow> errno option io" where
  "systemd_start_unit name mode =
     bind_io (ask bus_error) (\<lambda>r. case r of Some e \<Rightarrow> ret (Some e) | None \<Rightarrow> do_call (Start_unit name mode))"

definition transition_to_rescue :: "coordinator \<Rightarrow> errno option io" where
  "transition_to_rescue c =
     (if Kind c = Systemd then systemd_start_unit ''basic.target'' ''isolate'' else ret None)"

text \<open>The loop that waits for systemd's job queue to empty. \<open>fuel\<close> bounds its rounds; the outer
  option is \<open>None\<close> when the bound is reached.\<close>

datatype wait_result = Stopped | TimedOut

fun wait_jobs :: "nat \<Rightarrow> int \<Rightarrow> wait_result option io" where
  "wait_jobs 0 deadline = ret None"
| "wait_jobs (Suc fuel) deadline =
     bind_io (ask (\<lambda>w h. clock_ns w h)) (\<lambda>now.
     if now \<ge> deadline then ret (Some TimedOut)
     else bind_io (ask job_count) (\<lambda>r.
          case r of
            Inl _ \<Rightarrow> ret (Some Stopped)
          | Inr n \<Rightarrow> if n = 0 then ret (Some Stopped)
                     else attempt (Sleep_ns 500000000) (wait_jobs fuel deadline)))"

definition wait_for_services :: "nat \<Rightarrow> coordinator \<Rightarrow> wait_result option io" where
  "wait_for_services fuel c =
     (if Kind c \<noteq> Systemd
      then attempt (Sleep_ns (min (Timeout c) 2000000000)) (ret (Some Stopped))
      else bind_io (ask bus_error) (\<lambda>r. case r of
             Some _ \<Rightarrow> ret (Some Stopped)
           | None \<Rightarrow> bind_io (ask (\<lambda>w h. clock_ns w h + Timeout c)) (wait_jobs fuel)))"

definition should_skip_coordination :: "bool io" where
  "should_skip_coordination =
     bind_io (ask (\<lambda>w h. path_error w h ''/.dockerenv'')) (\<lambda>r.
     if r = None then ret True
     else bind_io (ask (\<lambda>w h. file_text w h ''/proc/1/cgroup''))
       (\<lambda>r. ret (case r of Inl _ \<Rightarrow> False
                | Inr data \<Rightarrow> contains data ''docker'' \<or> contains data ''lxc'' \<or> contains data ''kubepods'')))"

section \<open>The scope\<close>

definition scope_name :: "int \<Rightarrow> string" where
  "scope_name pid = ''xmorph-'' @ format_int pid @ ''.scope''"

definition relocate_to_transient_scope :: "(errno, string) res io" where
  "relocate_to_transient_scope =
     bind_io (ask bus_error) (\<lambda>b. case b of
       Some e \<Rightarrow> ret (Inl e)
     | None \<Rightarrow>
         bind_io (ask (\<lambda>w h. getpid w)) (\<lambda>pid.
         bind_io (do_call (Start_scope (scope_name pid) pid))
           (\<lambda>r. ret (case r of Some e \<Rightarrow> Inl e | None \<Rightarrow> Inr (scope_name pid)))))"

definition running_over_ssh :: "world \<Rightarrow> bool" where
  "running_over_ssh w \<longleftrightarrow>
     env_var w ''SSH_CONNECTION'' \<noteq> [] \<or> env_var w ''SSH_CLIENT'' \<noteq> [] \<or> env_var w ''SSH_TTY'' \<noteq> []"

section \<open>Waiting ends\<close>

lemma wait_jobs_ends:
  assumes "ticking_clock (clock_ns w)" "clock_ns w h + int fuel * 500000000 > deadline"
  shows "fst (wait_jobs (Suc fuel) deadline w h) \<noteq> None"
  using assms(2)
proof (induction fuel arbitrary: h)
  case 0
  then show ?case by (simp add: bind_io_def ask_def ret_def)
next
  case (Suc fuel)
  let ?h = "h @ [(Sleep_ns 500000000, err_of w h (Sleep_ns 500000000))]"
  have "clock_ns w ?h \<ge> clock_ns w h + 500000000" using ticking_clock.sleep_lasts [OF assms(1)] .
  then have "fst (wait_jobs (Suc fuel) deadline w ?h) \<noteq> None" using Suc.prems by (intro Suc.IH) simp
  then show ?case
    by (simp only: wait_jobs.simps(2) [of "Suc fuel"])
       (auto simp: bind_io_def ask_def attempt_def do_call_def ret_def simp del: wait_jobs.simps
         split: sum.split)
qed

lemma wait_for_services_ends:
  assumes "ticking_clock (clock_ns w)" "int fuel * 500000000 > Timeout c"
  shows "fst (wait_for_services (Suc fuel) c w h) \<noteq> None"
proof -
  have "fst (wait_jobs (Suc fuel) (clock_ns w h + Timeout c) w h) \<noteq> None"
    using assms by (intro wait_jobs_ends) simp_all
  then show ?thesis
    by (auto simp: wait_for_services_def bind_io_def ask_def attempt_def do_call_def ret_def
        simp del: wait_jobs.simps split: option.split)
qed

text \<open>Waiting for services always comes back: on a clock that ticks, one round of waiting for
  every half second of the timeout, and two more, is enough, whatever the bus answers and
  whether or not the jobs ever finish.\<close>

theorem wait_for_services_returns:
  assumes "ticking_clock (clock_ns w)" "int fuel * 500000000 > Timeout c"
  shows "fst (wait_for_services (Suc fuel) c w h) \<noteq> None"
  by (rule wait_for_services_ends [OF assms])

theorem wait_for_services_returns_witness:
  "fst (wait_for_services 62 \<lparr>Kind = Systemd, Timeout = 30000000000\<rparr> (calm\<lparr>job_count := (\<lambda>h. Inr 3)\<rparr>) []) \<noteq> None"
  using wait_for_services_returns [of "calm\<lparr>job_count := (\<lambda>h. Inr 3)\<rparr>" "\<lparr>Kind = Systemd, Timeout = 30000000000\<rparr>" 61 "[]"]
    slept.ticking_clock_axioms by (simp add: calm_def)

end
