(* ===== verification/Watchdog.thy ===== *)
theory Watchdog
  imports World
begin

text \<open>
  The kernel watchdog before the pivot (\<open>internal/postpivot/watchdog_linux.go\<close>): finding and
  loading the module, opening the device, arming it for the supervisor to inherit. The petting
  loop after the pivot is in the theory of the supervisor.
\<close>

datatype watchdog_error =
    OpenFailed errno
  | ModuleMissing
  | Uname errno
  | ModuleOpen errno
  | FinitFailed errno
  | OpenAfterLoad errno
  | KeepFdFailed errno

definition is_module_file :: "string \<Rightarrow> string \<Rightarrow> bool" where
  "is_module_file name path =
     (path_base path = name @ ''.ko'' \<or> has_prefix (path_base path) (name @ ''.ko.''))"

definition path_ext :: "string \<Rightarrow> string" where
  "path_ext path =
     (case cut_last_byte CHR ''.'' (path_base path) of None \<Rightarrow> [] | Some (_, e) \<Rightarrow> CHR ''.'' # e)"

definition load_kernel_module :: "string \<Rightarrow> (watchdog_error, unit) res io" where
  "load_kernel_module name =
     bind_io (ask (\<lambda>w h. kernel_release w)) (\<lambda>u. case u of
       Inl e \<Rightarrow> ret (Inl (Uname e))
     | Inr release \<Rightarrow>
         bind_io (ask (\<lambda>w h. find (is_module_file name) (walk_files w (path_join [''/lib/modules'', release]))))
           (\<lambda>ko. case ko of
              None \<Rightarrow> ret (Inl ModuleMissing)
            | Some koPath \<Rightarrow>
                bind_io (ask (\<lambda>w h. file_text w h koPath)) (\<lambda>f. case f of
                  Inl e \<Rightarrow> ret (Inl (ModuleOpen e))
                | Inr _ \<Rightarrow>
                    bind_io (do_call (Load_module koPath (if path_ext koPath \<noteq> ''.ko'' then 4 else 0)))
                      (\<lambda>r. case r of
                         None \<Rightarrow> ret (Inr ())
                       | Some e \<Rightarrow> ret (if e = EEXIST then Inr () else Inl (FinitFailed e))))))"

definition open_watchdog :: "(watchdog_error, unit) res io" where
  "open_watchdog =
     bind_io (do_call Open_watchdog) (\<lambda>r. case r of
       None \<Rightarrow> ret (Inr ())
     | Some e \<Rightarrow>
         if e \<noteq> ENOENT then ret (Inl (OpenFailed e))
         else bind_ok (load_kernel_module ''softdog'')
                (\<lambda>_. check (do_call Open_watchdog) OpenAfterLoad (ret (Inr ()))))"

text \<open>Writing \<open>V\<close> and closing disarms the device.\<close>

definition disarm :: "unit io" where
  "disarm = attempt (Watchdog_write CHR ''V'') (attempt Watchdog_close (ret ()))"

definition ensure_watchdog_available :: "(watchdog_error, unit) res io" where
  "ensure_watchdog_available =
     bind_ok open_watchdog (\<lambda>_. bind_io disarm (\<lambda>_. ret (Inr ())))"

text \<open>\<open>timeout\<close> is a signed count of nanoseconds; the result says whether a device is held.\<close>

definition watchdog_seconds :: "int \<Rightarrow> int" where
  "watchdog_seconds timeout = (let secs = timeout div 1000000000 in if secs < 1 then 1 else secs)"

definition arm_watchdog_pre_pivot :: "int \<Rightarrow> (watchdog_error, bool) res io" where
  "arm_watchdog_pre_pivot timeout =
     (if timeout \<le> 0 then ret (Inr False)
      else bind_ok open_watchdog (\<lambda>_.
           attempt (Watchdog_timeout (watchdog_seconds timeout))
             (bind_io (do_call Watchdog_keep_fd) (\<lambda>r. case r of
                None \<Rightarrow> ret (Inr True)
              | Some e \<Rightarrow> bind_io disarm (\<lambda>_. ret (Inl (KeepFdFailed e)))))))"

section \<open>The state of the device\<close>

text \<open>Whether the watchdog is running after a history: a successful open starts it, the magic byte
  followed by a close stops it, a close without it does not.\<close>

datatype dog = Idle | Armed | Disarming

definition dog_event :: "dog \<Rightarrow> call \<Rightarrow> dog" where
  "dog_event s c =
     (case c of
        Open_watchdog \<Rightarrow> Armed
      | Watchdog_write b \<Rightarrow> (if s = Idle then Idle else if b = CHR ''V'' then Disarming else Armed)
      | Watchdog_close \<Rightarrow> (if s = Disarming then Idle else s)
      | _ \<Rightarrow> s)"

definition dog_after :: "history \<Rightarrow> dog" where
  "dog_after h = foldl dog_event Idle (done_calls h)"

lemma dog_snoc: "dog_after (h @ [(c, r)]) = (if r = None then dog_event (dog_after h) c else dog_after h)"
  by (simp add: dog_after_def)

end
