(* ===== verification/PostConfig.thy ===== *)
theory PostConfig
  imports World
begin

text \<open>
  The file that carries the configuration across the pivot (\<open>internal/postpivot/configwrite.go\<close>):
  its schema, as the JSON values the struct tags describe, the writing of the file and of the
  binary into the new root, and the reading back. The text form of JSON values is a parameter.
\<close>

section \<open>The schema\<close>

record ssh_config =
  Port :: int
  Password :: string
  PasswordGenerated :: bool
  AuthorizedKeys :: string

record ts_config =
  AuthKey :: string
  Args :: string

record post_config =
  FlushFirewall :: bool
  RebootOnExit :: bool
  WatchdogTimeoutSeconds :: int
  PostKeepOldRoot :: string
  LogPersistDir :: string
  SSH :: "ssh_config option"
  Tailscale :: "ts_config option"
  PostEntrypoint :: "string list"
  PostCommand :: "string list"

definition ConfigPath :: string where "ConfigPath = ''/etc/xmorph-init.json''"
definition BinaryPath :: string where "BinaryPath = ''/usr/local/bin/xmorph''"

text \<open>JSON values; a number that is no integer keeps its spelling.\<close>

datatype json =
    JNull | JBool bool | JInt int | JFrac string | JStr string
  | JArr "json list" | JObj "(string \<times> json) list"

text \<open>The text form: \<open>json_print\<close> is the encoder with its two-space indent, \<open>json_parse\<close> the first
  value of a stream, if it is well-formed.\<close>

record json_codec =
  json_print :: "json \<Rightarrow> string"
  json_parse :: "string \<Rightarrow> json option"

section \<open>Encoding\<close>

text \<open>A field with \<open>omitempty\<close> is left out when it is empty.\<close>

definition omit_empty :: "bool \<Rightarrow> string \<Rightarrow> json \<Rightarrow> (string \<times> json) list" where
  "omit_empty none k v = (if none then [] else [(k, v)])"

definition encode_ssh :: "ssh_config \<Rightarrow> json" where
  "encode_ssh c =
     JObj ([(''port'', JInt (Port c))] @
           omit_empty (Password c = []) ''password'' (JStr (Password c)) @
           omit_empty (\<not> PasswordGenerated c) ''password_generated'' (JBool (PasswordGenerated c)) @
           omit_empty (AuthorizedKeys c = []) ''authorized_keys'' (JStr (AuthorizedKeys c)))"

definition encode_ts :: "ts_config \<Rightarrow> json" where
  "encode_ts c =
     JObj (omit_empty (AuthKey c = []) ''authkey'' (JStr (AuthKey c)) @
           omit_empty (Args c = []) ''args'' (JStr (Args c)))"

definition encode_pointer :: "('a \<Rightarrow> json) \<Rightarrow> string \<Rightarrow> 'a option \<Rightarrow> (string \<times> json) list" where
  "encode_pointer enc k p = (case p of None \<Rightarrow> [] | Some a \<Rightarrow> [(k, enc a)])"

definition encode_config :: "post_config \<Rightarrow> json" where
  "encode_config c =
     JObj ([(''flush_firewall'', JBool (FlushFirewall c)),
            (''reboot_on_exit'', JBool (RebootOnExit c))] @
           omit_empty (WatchdogTimeoutSeconds c = 0) ''watchdog_timeout_seconds'' (JInt (WatchdogTimeoutSeconds c)) @
           omit_empty (PostKeepOldRoot c = []) ''keep_old_root'' (JStr (PostKeepOldRoot c)) @
           omit_empty (LogPersistDir c = []) ''log_persist_dir'' (JStr (LogPersistDir c)) @
           encode_pointer encode_ssh ''ssh'' (SSH c) @
           encode_pointer encode_ts ''tailscale'' (Tailscale c) @
           omit_empty (PostEntrypoint c = []) ''entrypoint'' (JArr (map JStr (PostEntrypoint c))) @
           omit_empty (PostCommand c = []) ''command'' (JArr (map JStr (PostCommand c))))"

section \<open>Decoding\<close>

text \<open>\<open>json.Decode\<close> into the struct: keys are matched without regard to case, unknown keys are
  skipped, \<open>null\<close> leaves a scalar as it is and clears a slice or a pointer, and a value of the
  wrong type is an error.\<close>

datatype decode_error = WrongType | IntRange

type_synonym 'a field_setter = "json \<Rightarrow> 'a \<Rightarrow> (decode_error, 'a) res"

definition int_min :: int where "int_min = - 9223372036854775808"
definition int_max :: int where "int_max = 9223372036854775807"

definition set_bool :: "((bool \<Rightarrow> bool) \<Rightarrow> 'a \<Rightarrow> 'a) \<Rightarrow> 'a field_setter" where
  "set_bool upd v a = (case v of JBool b \<Rightarrow> Inr (upd (\<lambda>_. b) a) | JNull \<Rightarrow> Inr a | _ \<Rightarrow> Inl WrongType)"

definition set_int :: "((int \<Rightarrow> int) \<Rightarrow> 'a \<Rightarrow> 'a) \<Rightarrow> 'a field_setter" where
  "set_int upd v a =
     (case v of
        JInt n \<Rightarrow> if int_min \<le> n \<and> n \<le> int_max then Inr (upd (\<lambda>_. n) a) else Inl IntRange
      | JNull \<Rightarrow> Inr a
      | _ \<Rightarrow> Inl WrongType)"

definition set_string :: "((string \<Rightarrow> string) \<Rightarrow> 'a \<Rightarrow> 'a) \<Rightarrow> 'a field_setter" where
  "set_string upd v a = (case v of JStr s \<Rightarrow> Inr (upd (\<lambda>_. s) a) | JNull \<Rightarrow> Inr a | _ \<Rightarrow> Inl WrongType)"

fun decode_strings :: "json list \<Rightarrow> (decode_error, string list) res" where
  "decode_strings [] = Inr []"
| "decode_strings (JStr s # vs) = bind_res (decode_strings vs) (\<lambda>ss. Inr (s # ss))"
| "decode_strings (JNull # vs) = bind_res (decode_strings vs) (\<lambda>ss. Inr ([] # ss))"
| "decode_strings (_ # vs) = Inl WrongType"

definition set_strings :: "((string list \<Rightarrow> string list) \<Rightarrow> 'a \<Rightarrow> 'a) \<Rightarrow> 'a field_setter" where
  "set_strings upd v a =
     (case v of
        JArr vs \<Rightarrow> bind_res (decode_strings vs) (\<lambda>ss. Inr (upd (\<lambda>_. ss) a))
      | JNull \<Rightarrow> Inr (upd (\<lambda>_. []) a)
      | _ \<Rightarrow> Inl WrongType)"

definition ascii_lower :: "char \<Rightarrow> char" where
  "ascii_lower c = (let n = of_char c :: nat in if 65 \<le> n \<and> n \<le> 90 then char_of (n + 32) else c)"

definition same_key :: "string \<Rightarrow> string \<Rightarrow> bool" where
  "same_key k name \<longleftrightarrow> map ascii_lower k = map ascii_lower name"

fun decode_fields ::
  "(string \<times> 'a field_setter) list \<Rightarrow> (string \<times> json) list \<Rightarrow> 'a \<Rightarrow> (decode_error, 'a) res" where
  "decode_fields fs [] a = Inr a"
| "decode_fields fs ((k, v) # kvs) a =
     (case find (\<lambda>f. same_key k (fst f)) fs of
        None \<Rightarrow> decode_fields fs kvs a
      | Some f \<Rightarrow> bind_res (snd f v a) (\<lambda>a'. decode_fields fs kvs a'))"

definition decode_struct :: "(string \<times> 'a field_setter) list \<Rightarrow> 'a field_setter" where
  "decode_struct fs v a =
     (case v of JObj kvs \<Rightarrow> decode_fields fs kvs a | JNull \<Rightarrow> Inr a | _ \<Rightarrow> Inl WrongType)"

definition set_pointer ::
  "(string \<times> 'b field_setter) list \<Rightarrow> 'b \<Rightarrow> (('b option \<Rightarrow> 'b option) \<Rightarrow> 'a \<Rightarrow> 'a) \<Rightarrow> ('a \<Rightarrow> 'b option)
     \<Rightarrow> 'a field_setter" where
  "set_pointer fs zero upd get v a =
     (case v of
        JNull \<Rightarrow> Inr (upd (\<lambda>_. None) a)
      | _ \<Rightarrow> bind_res (decode_struct fs v (case get a of None \<Rightarrow> zero | Some b \<Rightarrow> b))
               (\<lambda>b. Inr (upd (\<lambda>_. Some b) a)))"

definition zero_ssh :: ssh_config where
  "zero_ssh = \<lparr>Port = 0, Password = [], PasswordGenerated = False, AuthorizedKeys = []\<rparr>"

definition zero_ts :: ts_config where "zero_ts = \<lparr>AuthKey = [], Args = []\<rparr>"

definition zero_config :: post_config where
  "zero_config =
     \<lparr>FlushFirewall = False, RebootOnExit = False, WatchdogTimeoutSeconds = 0, PostKeepOldRoot = [],
      LogPersistDir = [], SSH = None, Tailscale = None, PostEntrypoint = [], PostCommand = []\<rparr>"

definition ssh_fields :: "(string \<times> ssh_config field_setter) list" where
  "ssh_fields =
     [(''port'', set_int Port_update), (''password'', set_string Password_update),
      (''password_generated'', set_bool PasswordGenerated_update),
      (''authorized_keys'', set_string AuthorizedKeys_update)]"

definition ts_fields :: "(string \<times> ts_config field_setter) list" where
  "ts_fields = [(''authkey'', set_string AuthKey_update), (''args'', set_string Args_update)]"

definition config_fields :: "(string \<times> post_config field_setter) list" where
  "config_fields =
     [(''flush_firewall'', set_bool FlushFirewall_update),
      (''reboot_on_exit'', set_bool RebootOnExit_update),
      (''watchdog_timeout_seconds'', set_int WatchdogTimeoutSeconds_update),
      (''keep_old_root'', set_string PostKeepOldRoot_update),
      (''log_persist_dir'', set_string LogPersistDir_update),
      (''ssh'', set_pointer ssh_fields zero_ssh SSH_update SSH),
      (''tailscale'', set_pointer ts_fields zero_ts Tailscale_update Tailscale),
      (''entrypoint'', set_strings PostEntrypoint_update),
      (''command'', set_strings PostCommand_update)]"

section \<open>The file\<close>

datatype config_file_error = MkdirConfig errno | OpenConfig errno | EncodeConfig errno

definition write_config :: "json_codec \<Rightarrow> string \<Rightarrow> post_config \<Rightarrow> (config_file_error, unit) res io" where
  "write_config codec rootfsRoot cfg =
     (let path = path_join [rootfsRoot, ConfigPath]
      in check (do_call (Mkdir_all (path_dir path) 0x1ED)) MkdirConfig
         (attempt (Unlink path)
         (check (do_call (Open_excl path 0x180)) OpenConfig
         (check (do_call (Write_opened path (json_print codec (encode_config cfg)))) EncodeConfig
         (ret (Inr ()))))))"

datatype load_config_error = ReadConfig errno | BadJson | BadField decode_error

definition load_config :: "json_codec \<Rightarrow> (load_config_error, post_config option) res io" where
  "load_config codec =
     bind_io (ask (\<lambda>w h. file_text w h ConfigPath)) (\<lambda>f. ret (case f of
       Inl e \<Rightarrow> if e = ENOENT then Inr None else Inl (ReadConfig e)
     | Inr data \<Rightarrow>
         (case json_parse codec data of
            None \<Rightarrow> Inl BadJson
          | Some v \<Rightarrow>
              (case decode_struct config_fields v zero_config of
                 Inl e \<Rightarrow> Inl (BadField e)
               | Inr cfg \<Rightarrow> Inr (Some cfg)))))"

section \<open>The binary\<close>

datatype copy_binary_error = ReadSelf errno | OpenSelf errno | MkdirBinary errno | CreateBinary errno | CopyBytes errno

definition copy_binary :: "string \<Rightarrow> (copy_binary_error, unit) res io" where
  "copy_binary rootfsRoot =
     bind_ok (map_err ReadSelf (ask (\<lambda>w h. self_exe w))) (\<lambda>src.
     bind_ok (map_err OpenSelf (ask (\<lambda>w h. file_text w h src))) (\<lambda>bytes.
     (let dstPath = path_join [rootfsRoot, BinaryPath]
      in check (do_call (Mkdir_all (path_dir dstPath) 0x1ED)) MkdirBinary
         (check (do_call (Open_trunc dstPath 0x1ED)) CreateBinary
         (check (do_call (Write_opened dstPath bytes)) CopyBytes (ret (Inr ())))))))"

section \<open>The configuration crosses the pivot\<close>

lemma decode_strings_map [simp]: "decode_strings (map JStr ss) = Inr ss"
  by (induction ss) simp_all

lemma decode_fields_append:
  "decode_fields fs (kvs @ kvs') a = bind_res (decode_fields fs kvs a) (decode_fields fs kvs')"
proof (induction kvs arbitrary: a)
  case (Cons kv kvs)
  obtain k v where kv: "kv = (k, v)" by (cases kv)
  show ?case
  proof (cases "find (\<lambda>f. same_key k (fst f)) fs")
    case (Some f)
    then show ?thesis by (cases "snd f v a") (simp_all add: kv Cons)
  qed (simp add: kv Cons)
qed simp

lemma decode_fields_omit:
  "decode_fields fs (omit_empty b k v) a =
    (if b then Inr a else case find (\<lambda>f. same_key k (fst f)) fs of None \<Rightarrow> Inr a | Some f \<Rightarrow> snd f v a)"
  by (cases "find (\<lambda>f. same_key k (fst f)) fs"; cases "snd (the (find (\<lambda>f. same_key k (fst f)) fs)) v a")
     (auto simp: omit_empty_def)


definition in_range :: "int \<Rightarrow> bool" where
  "in_range n \<longleftrightarrow> int_min \<le> n \<and> n \<le> int_max"

lemma find_field [simp]:
  "find (\<lambda>f. same_key k (fst f)) ((n, s) # fs) =
    (if same_key k n then Some (n, s) else find (\<lambda>f. same_key k (fst f)) fs)"
  by simp

lemma decode_ssh: "in_range (Port c) \<Longrightarrow> decode_struct ssh_fields (encode_ssh c) zero_ssh = Inr c"
  by (simp add: decode_struct_def encode_ssh_def decode_fields_append decode_fields_omit ssh_fields_def
      same_key_def ascii_lower_def zero_ssh_def set_int_def set_string_def set_bool_def in_range_def)

lemma decode_ts: "decode_struct ts_fields (encode_ts c) zero_ts = Inr c"
  by (simp add: decode_struct_def encode_ts_def decode_fields_append decode_fields_omit ts_fields_def
      same_key_def ascii_lower_def zero_ts_def set_string_def)

lemma find_config_fields:
  "find (\<lambda>f. same_key ''flush_firewall'' (fst f)) config_fields = Some (''flush_firewall'', set_bool FlushFirewall_update)"
  "find (\<lambda>f. same_key ''reboot_on_exit'' (fst f)) config_fields = Some (''reboot_on_exit'', set_bool RebootOnExit_update)"
  "find (\<lambda>f. same_key ''watchdog_timeout_seconds'' (fst f)) config_fields =
     Some (''watchdog_timeout_seconds'', set_int WatchdogTimeoutSeconds_update)"
  "find (\<lambda>f. same_key ''keep_old_root'' (fst f)) config_fields = Some (''keep_old_root'', set_string PostKeepOldRoot_update)"
  "find (\<lambda>f. same_key ''log_persist_dir'' (fst f)) config_fields = Some (''log_persist_dir'', set_string LogPersistDir_update)"
  "find (\<lambda>f. same_key ''ssh'' (fst f)) config_fields = Some (''ssh'', set_pointer ssh_fields zero_ssh SSH_update SSH)"
  "find (\<lambda>f. same_key ''tailscale'' (fst f)) config_fields =
     Some (''tailscale'', set_pointer ts_fields zero_ts Tailscale_update Tailscale)"
  "find (\<lambda>f. same_key ''entrypoint'' (fst f)) config_fields = Some (''entrypoint'', set_strings PostEntrypoint_update)"
  "find (\<lambda>f. same_key ''command'' (fst f)) config_fields = Some (''command'', set_strings PostCommand_update)"
  by (simp_all add: config_fields_def same_key_def ascii_lower_def)

lemma decode_pointer:
  assumes "find (\<lambda>f. same_key k (fst f)) fs = Some (n, set_pointer sub zero upd get)"
    "get a = None" "\<And>b. p = Some b \<Longrightarrow> decode_struct sub (enc b) zero = Inr b" "\<And>b. enc b \<noteq> JNull"
  shows "decode_fields fs (encode_pointer enc k p) a =
    Inr (case p of None \<Rightarrow> a | Some b \<Rightarrow> upd (\<lambda>_. Some b) a)"
proof (cases p)
  case (Some b)
  then have "set_pointer sub zero upd get (enc b) a = Inr (upd (\<lambda>_. Some b) a)"
    using assms(2,3,4) by (cases "enc b") (simp_all add: set_pointer_def)
  with Some assms(1) show ?thesis by (simp add: encode_pointer_def)
qed (simp add: encode_pointer_def)

lemma encode_not_null: "encode_ssh b \<noteq> JNull" "encode_ts d \<noteq> JNull"
  by (simp_all add: encode_ssh_def encode_ts_def)

lemma load_config_written:
  assumes "file_text w h ConfigPath = Inr (json_print codec (encode_config c))"
    "json_parse codec (json_print codec (encode_config c)) = Some (encode_config c)"
    "in_range (WatchdogTimeoutSeconds c)" "\<forall>s. SSH c = Some s \<longrightarrow> in_range (Port s)"
  shows "load_config codec w h = (Inr (Some c), h)"
proof -
  have s: "decode_fields config_fields (encode_pointer encode_ssh ''ssh'' (SSH c)) a
      = Inr (case SSH c of None \<Rightarrow> a | Some b \<Rightarrow> SSH_update (\<lambda>_. Some b) a)" if "SSH a = None" for a
    using assms(4) that
    by (intro decode_pointer [OF find_config_fields(6)]) (auto simp: decode_ssh encode_not_null)
  have t: "decode_fields config_fields (encode_pointer encode_ts ''tailscale'' (Tailscale c)) a
      = Inr (case Tailscale c of None \<Rightarrow> a | Some b \<Rightarrow> Tailscale_update (\<lambda>_. Some b) a)" if "Tailscale a = None" for a
    using that by (intro decode_pointer [OF find_config_fields(7)]) (auto simp: decode_ts encode_not_null)
  have "decode_struct config_fields (encode_config c) zero_config = Inr c"
    using assms(3)
    by (simp add: decode_struct_def encode_config_def decode_fields_append decode_fields_omit
        find_config_fields s t set_int_def set_string_def set_bool_def set_strings_def in_range_def zero_config_def
        split: option.split)
  with assms(1,2) show ?thesis by (simp add: load_config_def bind_io_def ask_def ret_def)
qed

text \<open>C10: The supervisor reads back exactly the configuration the pivot wrote, whichever fields are
  set, empty or absent: encoding with the omitted fields and decoding into a zeroed struct is
  the identity, for integers that fit Go's \<open>int\<close> and a text form that the JSON library reads
  back.\<close>

theorem config_crosses_pivot:
  assumes "file_text w h ConfigPath = Inr (json_print codec (encode_config c))"
    "json_parse codec (json_print codec (encode_config c)) = Some (encode_config c)"
    "in_range (WatchdogTimeoutSeconds c)" "\<forall>s. SSH c = Some s \<longrightarrow> in_range (Port s)"
  shows "load_config codec w h = (Inr (Some c), h)"
  by (rule load_config_written [OF assms])

definition sample_config :: post_config where
  "sample_config =
     \<lparr>FlushFirewall = True, RebootOnExit = True, WatchdogTimeoutSeconds = 60,
      PostKeepOldRoot = ''/mnt/oldroot'', LogPersistDir = [],
      SSH = Some \<lparr>Port = 2222, Password = ''acorn-basil-cider'', PasswordGenerated = True, AuthorizedKeys = []\<rparr>,
      Tailscale = None, PostEntrypoint = [BinaryPath, ''idle''], PostCommand = []\<rparr>"

theorem config_crosses_pivot_witness:
  "load_config \<lparr>json_print = (\<lambda>v. ''{}''), json_parse = (\<lambda>s. Some (encode_config sample_config))\<rparr>
     (calm\<lparr>file_text := (\<lambda>h p. Inr ''{}'')\<rparr>) [] = (Inr (Some sample_config), [])"
  using config_crosses_pivot [of "calm\<lparr>file_text := (\<lambda>h p. Inr ''{}'')\<rparr>" "[]"
      "\<lparr>json_print = (\<lambda>v. ''{}''), json_parse = (\<lambda>s. Some (encode_config sample_config))\<rparr>" sample_config]
  by (simp add: sample_config_def in_range_def int_min_def int_max_def)

end
