(* ===== verification/ResolvConf.thy ===== *)
theory ResolvConf
  imports World
begin

text \<open>
  The resolver configuration of the new root (\<open>internal/postpivot/resolvconf.go\<close>). The parser of IP
  addresses is a parameter: the canonical text of an address, if it is one, and whether it is
  a loopback address.
\<close>

record ip_library =
  parse_ip :: "string \<Rightarrow> string option" \<comment> \<open>\<open>net.ParseIP\<close>, then its \<open>String\<close>\<close>
  is_loopback :: "string \<Rightarrow> bool" \<comment> \<open>of an address given by any text of it\<close>

definition FallbackNameservers :: "string list" where
  "FallbackNameservers = [''1.1.1.1'', ''8.8.8.8'', ''2606:4700:4700::1111'']"

definition nameserver_line :: "ip_library \<Rightarrow> string \<Rightarrow> string list" where
  "nameserver_line lib text_line =
     (let line = trim_space text_line
      in if line = [] \<or> has_prefix line ''#'' \<or> has_prefix line '';'' then []
         else case GoStrings.fields line of
                key # addr # _ \<Rightarrow>
                  if key = ''nameserver''
                  then (case parse_ip lib addr of Some a \<Rightarrow> [a] | None \<Rightarrow> []) else []
              | _ \<Rightarrow> [])"

definition nameservers_of :: "ip_library \<Rightarrow> string \<Rightarrow> string list" where
  "nameservers_of lib data = concat (map (nameserver_line lib) (scan_lines data))"

definition read_nameservers :: "ip_library \<Rightarrow> string \<Rightarrow> string list io" where
  "read_nameservers lib path =
     bind_io (ask (\<lambda>w h. file_text w h path))
       (\<lambda>f. ret (case f of Inl _ \<Rightarrow> [] | Inr data \<Rightarrow> nameservers_of lib data))"

definition filter_routable :: "ip_library \<Rightarrow> string list \<Rightarrow> string list" where
  "filter_routable lib servers = filter (\<lambda>s. parse_ip lib s \<noteq> None \<and> \<not> is_loopback lib s) servers"

definition all_loopback :: "ip_library \<Rightarrow> string list \<Rightarrow> bool" where
  "all_loopback lib servers \<longleftrightarrow> filter_routable lib servers = []"

definition resolv_header :: string where
  "resolv_header = ''# written by xmorph: the pre-pivot resolver does not survive pivot_root'' @ [CHR 0x0A]"

definition resolv_text :: "string list \<Rightarrow> string" where
  "resolv_text servers = resolv_header @ concat (map (\<lambda>s. ''nameserver '' @ s @ [CHR 0x0A]) servers)"

definition resolv_path :: "string \<Rightarrow> string" where
  "resolv_path rootfsRoot = path_join [rootfsRoot, ''etc'', ''resolv.conf'']"

datatype resolv_error = MkdirResolv errno | WriteResolv errno

definition chosen_servers :: "ip_library \<Rightarrow> string list \<Rightarrow> string list" where
  "chosen_servers lib host =
     (let usable = filter_routable lib host in if usable \<noteq> [] then usable else FallbackNameservers)"

definition ensure_resolv_conf :: "ip_library \<Rightarrow> string \<Rightarrow> (resolv_error, unit) res io" where
  "ensure_resolv_conf lib rootfsRoot =
     bind_io (read_nameservers lib (resolv_path rootfsRoot)) (\<lambda>servers.
     if servers \<noteq> [] \<and> \<not> all_loopback lib servers then ret (Inr ())
     else
     bind_io (read_nameservers lib ''/etc/resolv.conf'') (\<lambda>host.
     check (do_call (Mkdir_all (path_dir (resolv_path rootfsRoot)) 0x1ED)) MkdirResolv
     (attempt (Unlink (resolv_path rootfsRoot))
     (check (do_call (Write_file (resolv_path rootfsRoot) (resolv_text (chosen_servers lib host)) 0x1A4))
        WriteResolv (ret (Inr ()))))))"

section \<open>What the file says\<close>

text \<open>An address as the library prints it: it parses to itself and is one short word.\<close>

definition plain_address :: "ip_library \<Rightarrow> string \<Rightarrow> bool" where
  "plain_address lib a \<longleftrightarrow>
     parse_ip lib a = Some a \<and> a \<noteq> [] \<and> length a < 100 \<and> list_all plain_char a"

text \<open>What is relied on from the address library.\<close>

definition ip_contract :: "ip_library \<Rightarrow> bool" where
  "ip_contract lib \<longleftrightarrow>
     (\<forall>s a. parse_ip lib s = Some a \<longrightarrow> plain_address lib a) \<and>
     list_all (\<lambda>a. plain_address lib a \<and> \<not> is_loopback lib a) FallbackNameservers"

lemma nameserver_line_address:
  assumes "plain_address lib a"
  shows "nameserver_line lib (''nameserver '' @ a) = [a]"
proof -
  have a: "parse_ip lib a = Some a" "a \<noteq> []" "\<forall>c \<in> set a. plain_char c"
    using assms by (auto simp: plain_address_def list_all_iff)
  have w: "\<forall>c \<in> set ''nameserver''. plain_char c" by (simp add: plain_char_def)
  have "GoStrings.fields (''nameserver'' @ CHR '' '' # a) = [''nameserver'', a]"
    by (rule fields_two_words [OF _ a(2) w a(3)]) simp
  moreover have "trim_space (''nameserver '' @ a) = ''nameserver '' @ a"
    using a(2,3) by (intro trim_space_plain) (simp_all add: plain_char_def)
  ultimately show ?thesis using a(1) by (simp add: nameserver_line_def has_prefix_def)
qed

lemma resolv_text_lines:
  "resolv_text ss =
    concat (map (\<lambda>l. l @ [CHR 0x0A])
      (''# written by xmorph: the pre-pivot resolver does not survive pivot_root'' # map (\<lambda>s. ''nameserver '' @ s) ss))"
  by (simp add: resolv_text_def resolv_header_def comp_def)

lemma plain_line:
  assumes "list_all plain_char a"
  shows "CHR 0x0A \<notin> set a" "a \<noteq> [] \<Longrightarrow> last a \<noteq> CHR 0x0D"
proof -
  have p: "\<forall>c \<in> set a. plain_char c" using assms by (simp add: list_all_iff)
  have "\<not> plain_char CHR 0x0A" "\<not> plain_char CHR 0x0D" by (simp_all add: plain_char_def)
  with p show "CHR 0x0A \<notin> set a" "a \<noteq> [] \<Longrightarrow> last a \<noteq> CHR 0x0D" using last_in_set by (metis, metis)
qed

lemma nameservers_written:
  assumes "\<forall>s \<in> set ss. plain_address lib s"
  shows "nameservers_of lib (resolv_text ss) = ss"
proof -
  let ?ls = "''# written by xmorph: the pre-pivot resolver does not survive pivot_root'' # map (\<lambda>s. ''nameserver '' @ s) ss"
  have "\<forall>l \<in> set ?ls. CHR 0x0A \<notin> set l \<and> length l < 65536 \<and> (l \<noteq> [] \<longrightarrow> last l \<noteq> CHR 0x0D)"
    using assms by (auto simp: plain_address_def dest: plain_line)
  then have "scan_lines (resolv_text ss) = ?ls"
    unfolding resolv_text_lines by (rule scan_lines_concat)
  moreover have "nameserver_line lib ''# written by xmorph: the pre-pivot resolver does not survive pivot_root'' = []"
  proof -
    have "trim_space ''# written by xmorph: the pre-pivot resolver does not survive pivot_root''
        = ''# written by xmorph: the pre-pivot resolver does not survive pivot_root''"
      by (intro trim_space_plain) (simp_all add: plain_char_def)
    then show ?thesis by (simp add: nameserver_line_def has_prefix_def)
  qed
  moreover have "concat (map (\<lambda>s. nameserver_line lib (''nameserver '' @ s)) ss) = ss"
    using assms by (induction ss) (simp_all add: nameserver_line_address [simplified])
  ultimately show ?thesis by (simp add: nameservers_of_def comp_def)
qed

lemma nameserver_line_parsed: "list_all (\<lambda>a. \<exists>s. parse_ip lib s = Some a) (nameserver_line lib l)"
  by (auto simp: nameserver_line_def Let_def split: list.split option.split)

lemma nameservers_plain:
  assumes "ip_contract lib" "s \<in> set (nameservers_of lib data)"
  shows "plain_address lib s"
proof -
  obtain l where "s \<in> set (nameserver_line lib l)" using assms(2) by (auto simp: nameservers_of_def)
  then obtain t where "parse_ip lib t = Some s" using nameserver_line_parsed [of lib l] by (auto simp: list_all_iff)
  with assms(1) show ?thesis by (auto simp: ip_contract_def)
qed

text \<open>C29: When the resolver configuration has been prepared, the new root has a usable one: either
  the image's own file, left alone, names a server that is not a loopback address, or the file
  was written afresh, after removing what was there, and a resolver that reads it finds exactly
  the servers chosen, at least one and none of them loopback.\<close>

theorem resolv_conf_usable:
  assumes "ip_contract lib" "ensure_resolv_conf lib root w h = (Inr (), h')"
  shows "(\<exists>data. h' = h \<and> file_text w h (resolv_path root) = Inr data \<and>
            (\<exists>s \<in> set (nameservers_of lib data). \<not> is_loopback lib s)) \<or>
    (\<exists>new data. h' = h @ new @ [(Write_file (resolv_path root) data 0x1A4, None)] \<and>
       Unlink (resolv_path root) \<in> set (calls new) \<and>
       nameservers_of lib data \<noteq> [] \<and> (\<forall>s \<in> set (nameservers_of lib data). \<not> is_loopback lib s))"
proof -
  define own where "own = fst (read_nameservers lib (resolv_path root) w h)"
  define host where "host = fst (read_nameservers lib ''/etc/resolv.conf'' w h)"
  have q: "read_nameservers lib p w h = (fst (read_nameservers lib p w h), h)" for p
    by (simp add: read_nameservers_def bind_io_def ask_def ret_def)
  show ?thesis
  proof (cases "own \<noteq> [] \<and> \<not> all_loopback lib own")
    case True
    then have "h' = h" using assms(2) q [of "resolv_path root"]
      by (auto simp: ensure_resolv_conf_def bind_io_eq own_def)
    moreover from True obtain s where s: "s \<in> set own" "\<not> is_loopback lib s"
      by (auto simp: all_loopback_def filter_routable_def filter_empty_conv)
    moreover from s(1) obtain data where "file_text w h (resolv_path root) = Inr data" "own = nameservers_of lib data"
      by (cases "file_text w h (resolv_path root)")
         (auto simp: own_def read_nameservers_def bind_io_def ask_def ret_def)
    ultimately show ?thesis by auto
  next
    case False
    let ?ss = "chosen_servers lib host"
    have ok: "plain_address lib s \<and> \<not> is_loopback lib s" if "s \<in> set ?ss" for s
    proof -
      have "plain_address lib s" if "s \<in> set host"
        using that nameservers_plain [OF assms(1)]
        by (cases "file_text w h ''/etc/resolv.conf''")
           (auto simp: host_def read_nameservers_def bind_io_def ask_def ret_def)
      then show ?thesis using that assms(1)
        by (auto simp: chosen_servers_def filter_routable_def Let_def ip_contract_def list_all_iff split: if_splits)
    qed
    then have "nameservers_of lib (resolv_text ?ss) = ?ss" by (intro nameservers_written) blast
    moreover have "?ss \<noteq> []" by (simp add: chosen_servers_def Let_def FallbackNameservers_def)
    moreover have "\<exists>e e'. h' = h @ [(Mkdir_all (path_dir (resolv_path root)) 0x1ED, e), (Unlink (resolv_path root), e')]
        @ [(Write_file (resolv_path root) (resolv_text ?ss) 0x1A4, None)]"
    proof -
      have run: "bind_io (read_nameservers lib p) f w h = f (fst (read_nameservers lib p w h)) w h" for p f
        using q [of p] by (metis bind_io_def case_prod_conv)
      have "check (do_call (Mkdir_all (path_dir (resolv_path root)) 0x1ED)) MkdirResolv
         (attempt (Unlink (resolv_path root))
         (check (do_call (Write_file (resolv_path root) (resolv_text ?ss) 0x1A4))
            WriteResolv (ret (Inr ())))) w h = (Inr (), h')"
        using assms(2)
        unfolding ensure_resolv_conf_def run own_def [symmetric] if_not_P [OF False] host_def [symmetric] .
      then show ?thesis by (simp add: check_Inr)
    qed
    ultimately show ?thesis using ok by fastforce
  qed
qed

definition few_ips :: ip_library where
  "few_ips =
     \<lparr>parse_ip = (\<lambda>s. if s \<in> set FallbackNameservers then Some s else None), is_loopback = (\<lambda>s. False)\<rparr>"

lemma few_ips_contract: "ip_contract few_ips"
proof -
  have "list_all (\<lambda>a. a \<noteq> [] \<and> length a < 100 \<and> list_all plain_char a) FallbackNameservers"
    by (simp add: FallbackNameservers_def plain_char_def)
  then show ?thesis by (auto simp: ip_contract_def plain_address_def few_ips_def list_all_iff)
qed

theorem resolv_conf_usable_witness:
  "\<exists>new data. snd (ensure_resolv_conf few_ips ''/r'' calm []) =
      new @ [(Write_file (resolv_path ''/r'') data 0x1A4, None)] \<and> nameservers_of few_ips data \<noteq> []"
proof -
  have "fst (ensure_resolv_conf few_ips ''/r'' calm []) = Inr ()"
    by (simp add: ensure_resolv_conf_def read_nameservers_def bind_io_def ask_def ret_def check_def do_call_def
        attempt_def calm_def)
  then have "ensure_resolv_conf few_ips ''/r'' calm [] = (Inr (), snd (ensure_resolv_conf few_ips ''/r'' calm []))"
    by (metis prod.collapse)
  from resolv_conf_usable [OF few_ips_contract this] show ?thesis by (auto simp: calm_def)
qed

end
