(* ===== verification/Tailnet.thy ===== *)
theory Tailnet
  imports World
begin

text \<open>
  Package \<open>internal/tsnetauth\<close>: joining the tailnet before the pivot (\<open>preauth.go\<close>) and bringing the
  node up again after it (\<open>postpivot.go\<close>). The node itself is a library; its calls are calls of the
  world.
\<close>

record pre_auth_options =
  RootfsPath :: string
  PreAuthKey :: string
  Hostname :: string
  ControlURL :: string

datatype tailnet_error = StateDir errno | Up errno | ListenSSH errno | Cancelled

definition state_dir :: "string \<Rightarrow> string" where
  "state_dir rootfs = path_join [rootfs, ''var/lib/tailscale'']"

definition pre_auth :: "pre_auth_options \<Rightarrow> (tailnet_error, unit) res io" where
  "pre_auth opts =
     check (do_call (Mkdir_all (state_dir (RootfsPath opts)) 0x1C0)) StateDir
     (bind_io (do_call (Tailnet_auth (state_dir (RootfsPath opts)) (PreAuthKey opts) (Hostname opts) (ControlURL opts)))
        (\<lambda>r. attempt Tailnet_close
           (ret (case r of Some e \<Rightarrow> Inl (Up e) | None \<Rightarrow> Inr ()))))"

text \<open>\<open>NewPostPivotServer\<close>: the node is closed again when it does not come up.\<close>

definition new_post_pivot_server :: "string \<Rightarrow> (tailnet_error, unit) res io" where
  "new_post_pivot_server hostname =
     bind_io (do_call (Tailnet_up hostname))
       (\<lambda>r. case r of
          Some e \<Rightarrow> attempt Tailnet_close (ret (Inl (Up e)))
        | None \<Rightarrow> ret (Inr ()))"

text \<open>\<open>ServeSSH\<close> blocks until its context is cancelled, and \<open>PostPivot\<close> does both; both return only with an
  error.\<close>

definition ssh_addr :: "string \<Rightarrow> string" where
  "ssh_addr addr = (if addr = [] then '':22'' else addr)"

definition serve_tailnet_ssh :: "string \<Rightarrow> (tailnet_error, unit) res io" where
  "serve_tailnet_ssh addr =
     check (do_call (Listen ''tailnet'' (ssh_addr addr))) ListenSSH
       (attempt (Close_listener (ssh_addr addr)) (ret (Inl Cancelled)))"

definition tailnet_post_pivot :: "string \<Rightarrow> (tailnet_error, unit) res io" where
  "tailnet_post_pivot hostname =
     bind_ok (new_post_pivot_server hostname) (\<lambda>_.
     bind_io (serve_tailnet_ssh '':22'') (\<lambda>r. attempt Tailnet_close (ret r)))"

text \<open>A node that came up before the pivot left its state under the new root.\<close>

lemma pre_auth_done:
  assumes "pre_auth opts w h = (Inr (), h')"
  shows "Tailnet_auth (state_dir (RootfsPath opts)) (PreAuthKey opts) (Hostname opts) (ControlURL opts)
    \<in> set (done_calls h')"
  using assms by (auto simp: pre_auth_def check_Inr bind_io_eq split: option.splits)

end
