(* ===== verification/RunPivot.thy ===== *)
theory RunPivot
  imports ImageConfig Sizes Config Helpers Mounts InitSys Watchdog PostConfig ResolvConf Tailnet
begin

text \<open>
  The pivot pipeline of \<open>internal/cli/pivot.go\<close>, stage by stage in the order of the code, over the
  world: everything it does before the point of no return and after it, with every error return
  and the two deferred clean-ups. The image configuration is what the build of the root file
  system reports.
\<close>

section \<open>Choosing the entrypoint\<close>

definition resolve_entrypoint ::
  "config \<Rightarrow> image_config option \<Rightarrow> string \<times> string list \<times> string list option" where
  "resolve_entrypoint cfg ic =
     (let entry = (case ic of None \<Rightarrow> [] | Some i \<Rightarrow> slice (image_config.Entrypoint i));
          cmd = (case ic of None \<Rightarrow> [] | Some i \<Rightarrow> slice (image_config.Cmd i));
          env = (case ic of None \<Rightarrow> None | Some i \<Rightarrow> image_config.Env i)
      in if EntrypointExplicit cfg then (config.Entrypoint cfg, Command cfg, env)
         else if entry \<noteq> [] then (hd entry, tl entry @ cmd, env)
         else if cmd \<noteq> [] then (hd cmd, tl cmd, env)
         else (config.Entrypoint cfg, Command cfg, env))"

definition shell_entrypoints :: "string list" where
  "shell_entrypoints = [''sh'', ''bash'', ''ash'', ''dash'', ''zsh'', ''busybox'']"

definition entrypoint_survives_detach :: "world \<Rightarrow> config \<Rightarrow> string \<Rightarrow> bool" where
  "entrypoint_survives_detach w cfg entrypoint \<longleftrightarrow>
     Contain cfg \<or> path_base entrypoint \<notin> set shell_entrypoints \<or> stdin_tty w"

definition ssh_port :: "config \<Rightarrow> u16" where
  "ssh_port cfg = (case SSHPort cfg of Some p \<Rightarrow> p | None \<Rightarrow> 22)"

section \<open>The configuration handed across the pivot\<close>

text \<open>Go's division of signed integers truncates towards zero.\<close>

definition quot :: "int \<Rightarrow> int \<Rightarrow> int" where
  "quot a b = (if a < 0 then - ((- a) div b) else a div b)"

definition build_postpivot_config :: "config \<Rightarrow> string \<Rightarrow> string list \<Rightarrow> post_config" where
  "build_postpivot_config cfg entrypoint entryArgs =
     \<lparr>FlushFirewall = (\<not> KeepFirewall cfg),
      RebootOnExit = True,
      WatchdogTimeoutSeconds = quot (sint (WatchdogTimeout cfg)) (sint second),
      PostKeepOldRoot = KeepOldRoot cfg,
      LogPersistDir =
        (if LogPersistPath cfg \<noteq> [] \<and> KeepOldRoot cfg \<noteq> []
         then path_join [KeepOldRoot cfg, LogPersistDevice cfg, LogPersistPath cfg] else []),
      SSH =
        (if ssh_enabled cfg
         then Some \<lparr>Port = int (unat (ssh_port cfg)), Password = SSHPassword cfg,
                    PasswordGenerated = SSHPasswordGenerated cfg, AuthorizedKeys = SSHAuthorizedKeys cfg\<rparr>
         else None),
      Tailscale =
        (if tailscale_enabled cfg
         then Some \<lparr>AuthKey = TailscaleAuthkey cfg, Args = TailscaleArgs cfg\<rparr> else None),
      PostEntrypoint = entrypoint # entryArgs,
      PostCommand = []\<rparr>"

section \<open>Failures and inputs\<close>

datatype failure =
    NotRoot
  | NotConfirmed
  | WorkDir errno
  | Meminfo mem_error
  | Statfs errno
  | CheckWorkDir errno
  | CleanWorkDir errno
  | RootfsSizeError size_error
  | NoRam
  | NoHeadroom
  | Tmpfs pivot_error
  | BuildFailed errno
  | ShellWithoutTerminal
  | NoPassword passphrase_error
  | WriteConfigFailed config_file_error
  | CopyBinaryFailed copy_binary_error
  | ResolvConfFailed resolv_error
  | TailnetAuthFailed tailnet_error
  | WatchdogCheck watchdog_error
  | LogPersistNeedsOldRoot
  | LogPersistDirError errno
  | ArmWatchdog watchdog_error
  | PreparePivot pivot_error
  | OldRootMountPoint errno
  | PivotRootFailed pivot_error
  | ExecFailed errno
  | ContainFailed pivot_error
  | OutOfFuel

datatype outcome_kind = Planned | Contained | Replaced

text \<open>What the pipeline depends on besides the configuration and the world: the image configuration
  the build reports, whether a log handler is installed, the wordlist, the conversions of
  floating-point numbers, the JSON and address libraries, the random part of the probe's name,
  the rounds allowed to the waiting loops, and the number of the watchdog's file descriptor.\<close>

record inputs =
  built_config :: "image_config option"
  log_handler :: bool
  wordlist :: "string list"
  float_parser :: "string \<Rightarrow> (num_error, f64) res"
  float_overflow :: "f64 \<Rightarrow> u64"
  json :: json_codec
  ips :: ip_library
  probe_suffix :: string
  rounds :: nat
  watchdog_fd :: nat

definition ns_per_second :: int where "ns_per_second = 1000000000"

section \<open>Before the build\<close>

definition attach_log_file :: "inputs \<Rightarrow> config \<Rightarrow> unit io" where
  "attach_log_file inp cfg =
     (if LogDir cfg \<noteq> [] \<and> log_handler inp then
        bind_io (do_call (Mkdir_all (LogDir cfg) 0x1ED)) (\<lambda>r. case r of
          Some _ \<Rightarrow> ret ()
        | None \<Rightarrow>
            bind_io (do_call (Open_append (path_join [LogDir cfg, ''xmorph.log'']))) (\<lambda>r. case r of
              Some _ \<Rightarrow> ret ()
            | None \<Rightarrow> attempt (Add_log_sink (path_join [LogDir cfg, ''xmorph.log''])) (ret ())))
      else ret ())"

definition detach :: "config \<Rightarrow> bool io" where
  "detach cfg =
     (if SystemdMode cfg then ret False
      else bind_io detect (\<lambda>k.
           if k \<noteq> Systemd then ret False
           else bind_io relocate_to_transient_scope (\<lambda>r. ret (is_ok r))))"

definition ssh_grace :: "bool \<Rightarrow> unit io" where
  "ssh_grace detached =
     bind_io (ask (\<lambda>w h. running_over_ssh w)) (\<lambda>over.
     if over \<and> \<not> detached then attempt (Sleep_ns (10 * ns_per_second)) (ret ()) else ret ())"

definition read_memory :: "(failure, mem_info) res io" where
  "read_memory = map_err Meminfo (ask (\<lambda>w h. read_meminfo (file_text w h ''/proc/meminfo'')))"

text \<open>Where the root file system goes: the budget in bytes, and whether a tmpfs was mounted for it.\<close>

definition mount_rootfs_tmpfs :: "inputs \<Rightarrow> config \<Rightarrow> mem_info \<Rightarrow> (failure, u64 \<times> bool) res io" where
  "mount_rootfs_tmpfs inp cfg mem =
     bind_ok (if RootfsSize cfg \<noteq> []
              then map_err RootfsSizeError
                     (ret (parse_size (float_parser inp) (float_overflow inp) (RootfsSize cfg) (Total mem)))
              else ret (Inr (recommend_rootfs_bytes mem))) (\<lambda>budget.
     if budget = 0 then ret (Inl NoRam)
     else case headroom_check mem budget of
       Insufficient \<Rightarrow> ret (Inl NoHeadroom)
     | Enough _ \<Rightarrow>
         bind_ok (map_err Tmpfs (mount_tmpfs (config.WorkDir cfg) budget)) (\<lambda>_. ret (Inr (budget, True))))"

definition arrange_storage :: "inputs \<Rightarrow> config \<Rightarrow> mem_info \<Rightarrow> (failure, u64 \<times> bool) res io" where
  "arrange_storage inp cfg mem =
     (if NoRootfsTmpfs cfg then
        bind_ok (map_err Statfs (free_bytes (config.WorkDir cfg))) (\<lambda>free. ret (Inr (free, False)))
      else
        bind_ok (map_err CheckWorkDir (is_mount_point (config.WorkDir cfg))) (\<lambda>mounted.
        if mounted then
          bind_io (free_bytes (config.WorkDir cfg)) (\<lambda>free.
          check (do_call (Clean_dir (config.WorkDir cfg))) CleanWorkDir
            (ret (Inr ((case free of Inr b \<Rightarrow> b | Inl _ \<Rightarrow> 0), False))))
        else mount_rootfs_tmpfs inp cfg mem))"

section \<open>From the build to the point of no return\<close>

definition ensure_ssh_usable :: "inputs \<Rightarrow> config \<Rightarrow> (failure, config \<times> string) res io" where
  "ensure_ssh_usable inp cfg =
     (if \<not> ssh_enabled cfg then ret (Inr (cfg, []))
      else if SSHPassword cfg \<noteq> [] \<or> SSHAuthorizedKeys cfg \<noteq> [] then ret (Inr (cfg, []))
      else bind_ok (map_err NoPassword (new_passphrase (wordlist inp)))
             (\<lambda>pw. ret (Inr (cfg\<lparr>SSHPassword := pw, SSHPasswordGenerated := True\<rparr>, pw))))"

definition announce :: "config \<Rightarrow> string \<Rightarrow> unit io" where
  "announce cfg pw =
     (if pw \<noteq> [] then attempt (Announce_password (announce_text pw (int (unat (ssh_port cfg))))) (ret ())
      else ret ())"

definition check_tailnet :: "config \<Rightarrow> (failure, unit) res io" where
  "check_tailnet cfg =
     (if tailscale_enabled cfg then
        bind_io (ask (\<lambda>w h. tailscale_hostname w cfg)) (\<lambda>host.
        map_err TailnetAuthFailed
          (pre_auth \<lparr>RootfsPath = config.WorkDir cfg, PreAuthKey = TailscaleAuthkey cfg,
                     Hostname = host, ControlURL = TailscaleServer cfg\<rparr>))
      else ret (Inr ()))"

definition check_watchdog :: "config \<Rightarrow> (failure, unit) res io" where
  "check_watchdog cfg =
     (if sint (WatchdogTimeout cfg) > 0 then map_err WatchdogCheck ensure_watchdog_available
      else ret (Inr ()))"

definition ensure_log_dir_writable :: "string \<Rightarrow> string \<Rightarrow> (failure, unit) res io" where
  "ensure_log_dir_writable random dir =
     check (do_call (Mkdir_all dir 0x1ED)) LogPersistDirError
     (check (do_call (Create_probe dir)) LogPersistDirError
     (check (do_call (Unlink (path_join [dir, ''.xmorph-probe-'' @ random]))) LogPersistDirError (ret (Inr ()))))"

definition check_log_persist :: "inputs \<Rightarrow> config \<Rightarrow> (failure, unit) res io" where
  "check_log_persist inp cfg =
     (if LogPersistPath cfg = [] then ret (Inr ())
      else if KeepOldRoot cfg = [] then ret (Inl LogPersistNeedsOldRoot)
      else ensure_log_dir_writable (probe_suffix inp) (path_join [''/'', LogPersistDevice cfg, LogPersistPath cfg]))"

text \<open>The checks and the staging, all of which leave the running system as it is. The result is the
  configuration with the generated password, the entrypoint and its arguments.\<close>

definition stage :: "inputs \<Rightarrow> config \<Rightarrow> (failure, config \<times> string \<times> string list) res io" where
  "stage inp cfg0 =
     check (do_call (Build_rootfs (config.WorkDir cfg0))) BuildFailed
     (case resolve_entrypoint cfg0 (built_config inp) of (entrypoint, entryArgs, _) \<Rightarrow>
     bind_io (ask (\<lambda>w h. entrypoint_survives_detach w cfg0 entrypoint)) (\<lambda>survives.
     if \<not> survives then ret (Inl ShellWithoutTerminal)
     else
     bind_ok (ensure_ssh_usable inp cfg0) (\<lambda>(cfg, pw).
     bind_io (announce cfg pw) (\<lambda>_.
     bind_ok (map_err WriteConfigFailed
       (write_config (json inp) (config.WorkDir cfg) (build_postpivot_config cfg entrypoint entryArgs))) (\<lambda>_.
     bind_ok (map_err CopyBinaryFailed (copy_binary (config.WorkDir cfg))) (\<lambda>_.
     bind_ok (map_err ResolvConfFailed (ensure_resolv_conf (ips inp) (config.WorkDir cfg))) (\<lambda>_.
     bind_ok (check_tailnet cfg) (\<lambda>_.
     bind_ok (check_watchdog cfg) (\<lambda>_.
     bind_ok (check_log_persist inp cfg) (\<lambda>_.
     ret (Inr (cfg, entrypoint, entryArgs))))))))))))"

section \<open>Past it\<close>

definition stop_services :: "inputs \<Rightarrow> config \<Rightarrow> (failure, unit) res io" where
  "stop_services inp cfg =
     (let timeout = int (unat (config.Timeout cfg)) * ns_per_second
      in if SystemdMode cfg then ret (Inr ())
         else
         bind_io (if NoInitCoord cfg then ret True else should_skip_coordination) (\<lambda>skip.
         bind_ok
           (if skip then ret (Inr ())
            else bind_io (new_coordinator timeout) (\<lambda>coord.
                 bind_io (transition_to_rescue coord) (\<lambda>_.
                 bind_io (wait_for_services (rounds inp) coord) (\<lambda>r.
                 ret (case r of None \<Rightarrow> Inl OutOfFuel | Some _ \<Rightarrow> Inr ()))))) (\<lambda>_.
         bind_io (terminate (rounds inp)
                    \<lparr>GracefulTimeout = timeout, KillTimeout = 0, SkipEssential = True, ExcludePIDs = []\<rparr>)
           (\<lambda>r. ret (case r of None \<Rightarrow> Inl OutOfFuel | Some _ \<Rightarrow> Inr ())))))"

definition watchdog_env :: "nat \<Rightarrow> string" where
  "watchdog_env fd = ''XMORPH_WATCHDOG_FD='' @ format_uint fd"

definition supervisor_argv :: "string \<Rightarrow> string list \<Rightarrow> string list" where
  "supervisor_argv entrypoint entryArgs =
     [BinaryPath, ''--init'', entrypoint] @ entryArgs"

text \<open>From the mounts to the exec of the supervisor. \<open>armed\<close> says that a watchdog is held.\<close>

definition switch_root ::
  "inputs \<Rightarrow> config \<Rightarrow> string \<Rightarrow> string list \<Rightarrow> bool \<Rightarrow> (failure, outcome_kind) res io" where
  "switch_root inp cfg entrypoint entryArgs armed =
     (let dir = config.WorkDir cfg
      in bind_ok (map_err PreparePivot
                    (prepare \<lparr>NewRoot = dir, prepare_options.SkipVerify = True, CreateNamespace = True\<rparr>)) (\<lambda>_.
         check (do_call (Mkdir_all (path_join [dir, ''mnt/oldroot'']) 0x1ED)) OldRootMountPoint
         (bind_io (if log_handler inp
                   then attempt (Flush_log (path_join [dir, LogDir cfg, ''xmorph.log''])) (ret ())
                   else ret ()) (\<lambda>_.
         bind_ok (map_err PivotRootFailed (pivot_root dir ''mnt/oldroot'')) (\<lambda>_.
         bind_io (if KeepOldRoot cfg = []
                  then bind_io (cleanup_old_root ''/mnt/oldroot'') (\<lambda>_. ret ())
                  else ret ()) (\<lambda>_.
         bind_io (ask (\<lambda>w h. environ w @ (if armed then [watchdog_env (watchdog_fd inp)] else []))) (\<lambda>env.
         check (do_call (Exec BinaryPath (supervisor_argv entrypoint entryArgs) env)) ExecFailed
           (ret (Inr Replaced)))))))))"

text \<open>A deferred call runs on every return; the exec that succeeds does not return.\<close>

definition deferring :: "unit io \<Rightarrow> (failure, outcome_kind) res io \<Rightarrow> (failure, outcome_kind) res io" where
  "deferring cleanup m =
     bind_io m (\<lambda>r. if r = Inr Replaced then ret r else bind_io cleanup (\<lambda>_. ret r))"

definition commit :: "inputs \<Rightarrow> config \<Rightarrow> string \<Rightarrow> string list \<Rightarrow> (failure, outcome_kind) res io" where
  "commit inp cfg entrypoint entryArgs =
     attempt (Ignore_signals [SIGINT, SIGTERM])
     (bind_ok (stop_services inp cfg) (\<lambda>_.
      if sint (WatchdogTimeout cfg) > 0 then
        bind_ok (map_err ArmWatchdog (arm_watchdog_pre_pivot (sint (WatchdogTimeout cfg)))) (\<lambda>armed.
        deferring disarm (switch_root inp cfg entrypoint entryArgs armed))
      else switch_root inp cfg entrypoint entryArgs False))"

definition stage_and_commit :: "inputs \<Rightarrow> config \<Rightarrow> (failure, outcome_kind) res io" where
  "stage_and_commit inp cfg =
     bind_ok (stage inp cfg) (\<lambda>(cfg', entrypoint, entryArgs). commit inp cfg' entrypoint entryArgs)"

section \<open>The pipeline\<close>

definition run_contain :: "inputs \<Rightarrow> config \<Rightarrow> (failure, outcome_kind) res io" where
  "run_contain inp cfg =
     bind_io (ask (\<lambda>w h. geteuid w)) (\<lambda>uid.
     if uid \<noteq> 0 then ret (Inl NotRoot)
     else
     check (do_call (Clean_dir (config.WorkDir cfg))) CleanWorkDir
     (check (do_call (Build_rootfs (config.WorkDir cfg))) BuildFailed
     (case resolve_entrypoint cfg (built_config inp) of (entrypoint, entryArgs, env) \<Rightarrow>
      bind_ok (map_err ContainFailed
        (contain \<lparr>contain_root = config.WorkDir cfg, contain_entrypoint = entrypoint,
                  contain_args = entryArgs, contain_env = env\<rparr>)) (\<lambda>_. ret (Inr Contained)))))"

definition run_pivot :: "inputs \<Rightarrow> config \<Rightarrow> (failure, outcome_kind) res io" where
  "run_pivot inp cfg =
     (if DryRun cfg then attempt Print_plan (ret (Inr Planned))
      else if Contain cfg then run_contain inp cfg
      else
      bind_io (ask (\<lambda>w h. geteuid w)) (\<lambda>uid.
      if uid \<noteq> 0 then ret (Inl NotRoot)
      else if \<not> Force cfg then ret (Inl NotConfirmed)
      else
      bind_io (attach_log_file inp cfg) (\<lambda>_.
      bind_io (detach cfg) (\<lambda>detached.
      bind_io (ssh_grace detached) (\<lambda>_.
      attempt (Ignore_signals [SIGHUP, SIGPIPE])
      (check (do_call (Mkdir_all (config.WorkDir cfg) 0x1ED)) failure.WorkDir
      (bind_ok read_memory (\<lambda>mem.
       bind_ok (arrange_storage inp cfg mem) (\<lambda>(budget, mounted).
       if mounted
       then deferring (bind_io (unmount_tmpfs (config.WorkDir cfg)) (\<lambda>_. ret ())) (stage_and_commit inp cfg)
       else stage_and_commit inp cfg)))))))))"

end
