(* ===== verification/RunPivotProofs.thy ===== *)
theory RunPivotProofs
  imports RunPivot MountProofs
begin

text \<open>
  The safety of the pipeline: nothing destructive happens before every check has passed, an
  abort takes back what was set up, and what the exec hands over.
\<close>

section \<open>Destructive calls\<close>

text \<open>The calls that take something from the running system: stopping units, signalling processes,
  leaving the mount namespace, moving the root, replacing the process, arming the watchdog for
  good.\<close>

fun destructive :: "call \<Rightarrow> bool" where
  "destructive (Start_unit _ _) = True"
| "destructive (Send_signal _ _) = True"
| "destructive Unshare_mounts = True"
| "destructive (Pivot_root _ _) = True"
| "destructive (Chdir _) = True"
| "destructive (Exec _ _ _) = True"
| "destructive (Run_child _ _ _ _) = True"
| "destructive Watchdog_keep_fd = True"
| "destructive (Ignore_signals s) = (SIGINT \<in> set s)"
| "destructive (Mount source _ _ _ _) = (source \<noteq> ''tmpfs'')"
| "destructive Reboot_machine = True"
| "destructive _ = False"

abbreviation harmless :: "call \<Rightarrow> bool" where "harmless c \<equiv> \<not> destructive c"

text \<open>The one call that gives the new root its own tmpfs.\<close>

fun mounts_tmpfs :: "call \<Rightarrow> bool" where
  "mounts_tmpfs (Mount source _ fstype _ _) = (source = ''tmpfs'' \<and> fstype = ''tmpfs'')"
| "mounts_tmpfs _ = False"

abbreviation tmpfs_mounted :: "history \<Rightarrow> bool" where
  "tmpfs_mounted h \<equiv> list_ex mounts_tmpfs (done_calls h)"

abbreviation staging :: "call \<Rightarrow> bool" where "staging c \<equiv> harmless c \<and> \<not> mounts_tmpfs c"

lemma quiet_only: "quiet m \<Longrightarrow> only S m"
  by (simp add: quiet_def only_def)

lemma quiet_detect: "quiet detect"
  by (auto simp: detect_def detect_via_pid1_def split: option.split)

lemma only_mono_if [hoare_rules]: "only S m \<Longrightarrow> only S n \<Longrightarrow> only S (if b then m else n)"
  by simp

lemma only_case_option [hoare_rules]:
  "only S m \<Longrightarrow> (\<And>a. only S (f a)) \<Longrightarrow> only S (case x of None \<Rightarrow> m | Some a \<Rightarrow> f a)"
  by (simp split: option.split)

lemma only_case_sum [hoare_rules]:
  "(\<And>a. only S (f a)) \<Longrightarrow> (\<And>b. only S (g b)) \<Longrightarrow> only S (case x of Inl a \<Rightarrow> f a | Inr b \<Rightarrow> g b)"
  by (simp split: sum.split)

lemma only_case_prod [hoare_rules]: "(\<And>a b. only S (f a b)) \<Longrightarrow> only S (case x of (a, b) \<Rightarrow> f a b)"
  by (simp split: prod.split)

lemma only_relocate: "only harmless relocate_to_transient_scope"
  unfolding relocate_to_transient_scope_def by (intro hoare_rules) simp

lemma only_attach: "only harmless (attach_log_file inp cfg)"
  unfolding attach_log_file_def by (intro hoare_rules; simp)

lemma only_detach: "only harmless (RunPivot.detach cfg)"
  unfolding RunPivot.detach_def by (intro hoare_rules quiet_only quiet_detect only_relocate)

lemma only_grace: "only harmless (ssh_grace d)"
  unfolding ssh_grace_def by (intro hoare_rules; simp)

lemma only_storage: "only harmless (arrange_storage inp cfg mem)"
  unfolding arrange_storage_def mount_rootfs_tmpfs_def free_bytes_def is_mount_point_def mount_tmpfs_def
  by (auto intro!: hoare_rules split: headroom.split)

lemma only_pick: "only S (pick_words ws i n)"
  by (induction n arbitrary: i) (auto intro!: hoare_rules)

lemma only_open_watchdog: "only staging open_watchdog"
  unfolding open_watchdog_def load_kernel_module_def by (intro hoare_rules; simp)

section \<open>What a completed staging has done\<close>

definition wrote_config :: "json_codec \<Rightarrow> string \<Rightarrow> post_config \<Rightarrow> call list \<Rightarrow> bool" where
  "wrote_config codec dir pc d \<longleftrightarrow>
     Open_excl (path_join [dir, ConfigPath]) 0x180 \<in> set d \<and>
     Write_opened (path_join [dir, ConfigPath]) (json_print codec (encode_config pc)) \<in> set d"

definition staged :: "inputs \<Rightarrow> config \<Rightarrow> history \<Rightarrow> bool" where
  "staged inp cfg h \<longleftrightarrow>
     (let dir = config.WorkDir cfg; d = done_calls h
      in Build_rootfs dir \<in> set d \<and>
         (\<exists>pw gen. case resolve_entrypoint cfg (built_config inp) of (entrypoint, entryArgs, _) \<Rightarrow>
            wrote_config (json inp) dir
              (build_postpivot_config (cfg\<lparr>SSHPassword := pw, SSHPasswordGenerated := gen\<rparr>) entrypoint entryArgs) d) \<and>
         Open_trunc (path_join [dir, BinaryPath]) 0x1ED \<in> set d \<and>
         (tailscale_enabled cfg \<longrightarrow>
            (\<exists>host. Tailnet_auth (state_dir dir) (TailscaleAuthkey cfg) host (TailscaleServer cfg) \<in> set d)) \<and>
         (sint (WatchdogTimeout cfg) > 0 \<longrightarrow> Open_watchdog \<in> set d) \<and>
         (LogPersistPath cfg \<noteq> [] \<longrightarrow> KeepOldRoot cfg \<noteq> [] \<and>
            Create_probe (path_join [''/'', LogPersistDevice cfg, LogPersistPath cfg]) \<in> set d))"

lemma ensure_ssh_usable_keeps:
  assumes "ensure_ssh_usable inp cfg w h = (Inr (cfg', pw), h')"
  shows "h' = h \<and> (\<exists>p g. cfg' = cfg\<lparr>SSHPassword := p, SSHPasswordGenerated := g\<rparr>)"
proof -
  have "quiet (pick_words ws i n)" for ws i n
    by (induction n arbitrary: i) (auto simp: map_err_def split: sum.split)
  then have "quiet (new_passphrase ws)" for ws
    by (auto simp: new_passphrase_def generate_passphrase_def)
  then have np: "new_passphrase ws w h = (r, h1) \<Longrightarrow> h1 = h" for ws r h1 by (metis quiet_def snd_conv)
  have "\<exists>p g. cfg = cfg\<lparr>SSHPassword := p, SSHPasswordGenerated := g\<rparr>"
    by (intro exI [of _ "SSHPassword cfg"] exI [of _ "SSHPasswordGenerated cfg"]) simp
  then show ?thesis using assms
    by (auto simp: ensure_ssh_usable_def run_eqs dest: np split: if_splits)
qed

lemma write_config_done:
  "write_config codec dir pc w h = (Inr u, h') \<Longrightarrow> wrote_config codec dir pc (done_calls h')"
  by (auto simp: write_config_def wrote_config_def run_eqs Let_def)

lemma copy_binary_done:
  "copy_binary dir w h = (Inr u, h') \<Longrightarrow> Open_trunc (path_join [dir, BinaryPath]) 0x1ED \<in> set (done_calls h')"
  by (auto simp: copy_binary_def run_eqs Let_def)

lemma open_watchdog_done: "open_watchdog w h = (Inr u, h') \<Longrightarrow> Open_watchdog \<in> set (done_calls h')"
  by (auto simp: open_watchdog_def run_eqs split: option.splits if_splits)

lemma only_all_disarm: "only (\<lambda>_. True) disarm"
  unfolding disarm_def by (intro hoare_rules) simp_all

lemma check_watchdog_done:
  assumes "check_watchdog cfg w h = (Inr u, h')" "sint (WatchdogTimeout cfg) > 0"
  shows "Open_watchdog \<in> set (done_calls h')"
proof -
  from assms obtain h1 a where "open_watchdog w h = (Inr a, h1)" "disarm w h1 = (a, h')"
    by (auto simp: check_watchdog_def ensure_watchdog_available_def run_eqs)
  then show ?thesis using open_watchdog_done only_keeps [OF only_all_disarm] by blast
qed

lemma check_tailnet_done:
  assumes "check_tailnet cfg w h = (Inr u, h')" "tailscale_enabled cfg"
  shows "\<exists>host. Tailnet_auth (state_dir (config.WorkDir cfg)) (TailscaleAuthkey cfg) host (TailscaleServer cfg)
    \<in> set (done_calls h')"
  using assms pre_auth_done
  by (fastforce simp: check_tailnet_def run_eqs)

lemma check_log_persist_done:
  assumes "check_log_persist inp cfg w h = (Inr u, h')" "LogPersistPath cfg \<noteq> []"
  shows "KeepOldRoot cfg \<noteq> [] \<and>
    Create_probe (path_join [''/'', LogPersistDevice cfg, LogPersistPath cfg]) \<in> set (done_calls h')"
  using assms by (auto simp: check_log_persist_def ensure_log_dir_writable_def run_eqs split: if_splits)

lemma stage_run:
  assumes "stage inp cfg0 w h = (Inr (cfg, entrypoint, entryArgs), h')"
  obtains env pw h1 h2 h3 h4 h5 h6 h7 where
    "resolve_entrypoint cfg0 (built_config inp) = (entrypoint, entryArgs, env)"
    "ensure_ssh_usable inp cfg0 w (h @ [(Build_rootfs (config.WorkDir cfg0), None)]) = (Inr (cfg, pw), h1)"
    "announce cfg pw w h1 = ((), h2)"
    "write_config (json inp) (config.WorkDir cfg) (build_postpivot_config cfg entrypoint entryArgs) w h2 = (Inr (), h3)"
    "copy_binary (config.WorkDir cfg) w h3 = (Inr (), h4)"
    "ensure_resolv_conf (ips inp) (config.WorkDir cfg) w h4 = (Inr (), h5)"
    "check_tailnet cfg w h5 = (Inr (), h6)" "check_watchdog cfg w h6 = (Inr (), h7)"
    "check_log_persist inp cfg w h7 = (Inr (), h')"
proof -
  obtain ep ea env where re: "resolve_entrypoint cfg0 (built_config inp) = (ep, ea, env)"
    by (cases "resolve_entrypoint cfg0 (built_config inp)")
  show ?thesis using assms that unfolding stage_def re by (simp add: run_eqs split: if_splits) blast
qed

lemma only_write_config: "only staging (write_config codec dir pc)"
  unfolding write_config_def Let_def by (auto intro!: hoare_rules)

lemma only_copy_binary: "only staging (copy_binary dir)"
  unfolding copy_binary_def Let_def by (auto intro!: hoare_rules)

lemma only_resolv: "only staging (ensure_resolv_conf lib dir)"
  unfolding ensure_resolv_conf_def read_nameservers_def by (auto intro!: hoare_rules)

lemma only_announce: "only staging (announce cfg pw)"
  unfolding announce_def by (auto intro!: hoare_rules)

lemma only_tailnet: "only staging (check_tailnet cfg)"
  unfolding check_tailnet_def pre_auth_def by (auto intro!: hoare_rules)

lemma only_check_watchdog: "only staging (check_watchdog cfg)"
  unfolding check_watchdog_def ensure_watchdog_available_def disarm_def
  by (auto intro!: hoare_rules only_open_watchdog)

lemma only_log_persist: "only staging (check_log_persist inp cfg)"
  unfolding check_log_persist_def ensure_log_dir_writable_def by (auto intro!: hoare_rules)

lemma only_stage: "only staging (stage inp cfg)"
  unfolding stage_def ensure_ssh_usable_def new_passphrase_def generate_passphrase_def
  by (auto intro!: hoare_rules only_pick only_write_config only_copy_binary only_resolv only_announce
      only_tailnet only_check_watchdog only_log_persist)

lemma stage_staged:
  assumes "stage inp cfg0 w h = (Inr (cfg, entrypoint, entryArgs), h')"
  shows "staged inp cfg0 h'"
proof -
  from stage_run [OF assms] obtain env pw h1 h2 h3 h4 h5 h6 h7 where r:
    "resolve_entrypoint cfg0 (built_config inp) = (entrypoint, entryArgs, env)"
    "ensure_ssh_usable inp cfg0 w (h @ [(Build_rootfs (config.WorkDir cfg0), None)]) = (Inr (cfg, pw), h1)"
    "announce cfg pw w h1 = ((), h2)"
    "write_config (json inp) (config.WorkDir cfg) (build_postpivot_config cfg entrypoint entryArgs) w h2 = (Inr (), h3)"
    "copy_binary (config.WorkDir cfg) w h3 = (Inr (), h4)"
    "ensure_resolv_conf (ips inp) (config.WorkDir cfg) w h4 = (Inr (), h5)"
    "check_tailnet cfg w h5 = (Inr (), h6)" "check_watchdog cfg w h6 = (Inr (), h7)"
    "check_log_persist inp cfg w h7 = (Inr (), h')" by metis
  obtain p g where c: "cfg = cfg0\<lparr>SSHPassword := p, SSHPasswordGenerated := g\<rparr>"
      and h1: "h1 = h @ [(Build_rootfs (config.WorkDir cfg0), None)]"
    using ensure_ssh_usable_keeps [OF r(2)] by blast
  note k = only_keeps [OF only_announce r(3)] only_keeps [OF only_write_config r(4)]
    only_keeps [OF only_copy_binary r(5)] only_keeps [OF only_resolv r(6)] only_keeps [OF only_tailnet r(7)]
    only_keeps [OF only_check_watchdog r(8)] only_keeps [OF only_log_persist r(9)]
  have up: "set (done_calls h3) \<subseteq> set (done_calls h')" "set (done_calls h4) \<subseteq> set (done_calls h')"
    "set (done_calls h6) \<subseteq> set (done_calls h')" "set (done_calls h7) \<subseteq> set (done_calls h')"
    using k by blast+
  have b: "Build_rootfs (config.WorkDir cfg0) \<in> set (done_calls h')"
    using k(1) up(1) k(2) by (simp add: h1) blast
  have w: "wrote_config (json inp) (config.WorkDir cfg0) (build_postpivot_config cfg entrypoint entryArgs) (done_calls h')"
    using write_config_done [OF r(4)] up(1) by (auto simp: wrote_config_def c)
  have t: "tailscale_enabled cfg0 \<longrightarrow> (\<exists>host. Tailnet_auth (state_dir (config.WorkDir cfg0))
      (TailscaleAuthkey cfg0) host (TailscaleServer cfg0) \<in> set (done_calls h'))"
    using check_tailnet_done [OF r(7)] up(3) c
    by (cases "TailscaleEnable cfg0") (fastforce simp: tailscale_enabled_def)+
  have "Open_trunc (path_join [config.WorkDir cfg0, BinaryPath]) 0x1ED \<in> set (done_calls h')"
    using copy_binary_done [OF r(5)] up(2) c by auto
  moreover have "sint (WatchdogTimeout cfg0) > 0 \<longrightarrow> Open_watchdog \<in> set (done_calls h')"
    using check_watchdog_done [OF r(8)] up(4) c by auto
  moreover have "LogPersistPath cfg0 \<noteq> [] \<longrightarrow> KeepOldRoot cfg0 \<noteq> [] \<and>
      Create_probe (path_join [''/'', LogPersistDevice cfg0, LogPersistPath cfg0]) \<in> set (done_calls h')"
    using check_log_persist_done [OF r(9)] c by auto
  ultimately show ?thesis
    unfolding staged_def Let_def r(1) case_prod_conv using b w t c by blast
qed

lemma stage_config:
  assumes "stage inp cfg0 w h = (Inr (cfg, entrypoint, entryArgs), h')"
  shows "\<exists>p g. cfg = cfg0\<lparr>SSHPassword := p, SSHPasswordGenerated := g\<rparr>"
    "\<exists>env. resolve_entrypoint cfg0 (built_config inp) = (entrypoint, entryArgs, env)"
  using stage_run [OF assms] ensure_ssh_usable_keeps by meson+

section \<open>The shape of a run\<close>

lemma deferring_eq:
  "deferring cl m w h = (r, h') \<longleftrightarrow>
    (\<exists>h1. m w h = (r, h1) \<and> (if r = Inr Replaced then h' = h1 else cl w h1 = ((), h')))"
  by (auto simp: deferring_def bind_io_eq split: if_splits)

text \<open>Harmless events, and then, once staging is complete, the rest.\<close>

definition safe_trace :: "inputs \<Rightarrow> config \<Rightarrow> history \<Rightarrow> history \<Rightarrow> bool" where
  "safe_trace inp cfg h h' \<longleftrightarrow>
     (\<exists>pre post. h' = h @ pre @ post \<and> (\<forall>ev \<in> set pre. harmless (fst ev)) \<and>
        (post = [] \<or> fst (hd post) = Ignore_signals [SIGINT, SIGTERM] \<and> staged inp cfg (h @ pre)))"

lemma safe_trace_before:
  "\<forall>ev \<in> set new. harmless (fst ev) \<Longrightarrow> safe_trace inp cfg (h @ new) h' \<Longrightarrow> safe_trace inp cfg h h'"
  unfolding safe_trace_def by (metis append.assoc UnE set_append)

lemma safe_trace_after:
  assumes "safe_trace inp cfg h h1" "\<forall>ev \<in> set new. harmless (fst ev)"
  shows "safe_trace inp cfg h (h1 @ new)"
proof -
  obtain pre post where p: "h1 = h @ pre @ post" "\<forall>ev \<in> set pre. harmless (fst ev)"
      "post = [] \<or> fst (hd post) = Ignore_signals [SIGINT, SIGTERM] \<and> staged inp cfg (h @ pre)"
    using assms(1) by (auto simp: safe_trace_def)
  show ?thesis
  proof (cases "post = []")
    case True
    with p assms(2) show ?thesis unfolding safe_trace_def
      by (intro exI [of _ "pre @ new"] exI [of _ "[]"]) auto
  next
    case False
    with p show ?thesis unfolding safe_trace_def
      by (intro exI [of _ pre] exI [of _ "post @ new"]) auto
  qed
qed

lemma safe_trace_refl: "safe_trace inp cfg h h"
  by (auto simp: safe_trace_def intro: exI [of _ "[]"])

text \<open>The calls that stop services, and those that switch the root.\<close>

fun stopping :: "call \<Rightarrow> bool" where
  "stopping (Start_unit _ _) = True"
| "stopping (Send_signal _ _) = True"
| "stopping (Sleep_ns _) = True"
| "stopping _ = False"

fun switching :: "call \<Rightarrow> bool" where
  "switching (Mount _ _ fstype _ _) = (fstype \<noteq> ''tmpfs'')"
| "switching (Unmount _ _) = True"
| "switching Unshare_mounts = True"
| "switching (Mkdir_all _ _) = True"
| "switching (Flush_log _) = True"
| "switching (Pivot_root _ _) = True"
| "switching (Chdir _) = True"
| "switching (Exec _ _ _) = True"
| "switching _ = False"

fun arming :: "call \<Rightarrow> bool" where
  "arming Open_watchdog = True"
| "arming (Load_module _ _) = True"
| "arming (Watchdog_timeout _) = True"
| "arming Watchdog_keep_fd = True"
| "arming (Watchdog_write _) = True"
| "arming Watchdog_close = True"
| "arming _ = False"

lemma only_polling: "only stopping (graceful_polling n pids deadline)"
  by (induction n) (auto intro!: hoare_rules quiet_only [OF quiet_count])

lemma only_kill_each: "only stopping (kill_each sig pids)"
  unfolding kill_each_def by (intro hoare_rules) simp

lemma only_terminate: "only stopping (terminate fuel opts)"
  unfolding terminate_def terminate_targets_def Let_def
  by (intro hoare_rules quiet_only quiet_scan quiet_split only_kill_each only_polling) simp_all

lemma only_wait_jobs: "only stopping (wait_jobs n deadline)"
  by (induction n) (auto intro!: hoare_rules)

lemma only_stop_services: "only stopping (stop_services inp cfg)"
  unfolding stop_services_def Let_def should_skip_coordination_def new_coordinator_def
    transition_to_rescue_def systemd_start_unit_def wait_for_services_def
  by (auto intro!: hoare_rules quiet_only [OF quiet_detect] only_terminate only_wait_jobs)

lemma only_setup_mounts: "\<forall>m \<in> set ms. FSType m \<noteq> ''tmpfs'' \<Longrightarrow> only switching (setup_mounts root ms)"
  by (induction ms) (auto simp: Let_def ensure_directory_def intro!: hoare_rules)

lemma only_unmount_each: "only switching (unmount_each flags ms)"
  by (induction ms) (auto intro!: hoare_rules)

lemma only_verify_root: "only S (verify_root root)"
proof -
  have "only S (verify_dirs root ds)" for ds by (induction ds) (auto intro!: hoare_rules)
  moreover have "only S (verify_shells root xs)" for xs by (induction xs) (auto intro!: hoare_rules)
  ultimately show ?thesis unfolding verify_root_def by (intro hoare_rules)
qed

lemma only_setup_essentials: "only switching (setup_essentials root)"
  unfolding setup_essentials_def by (rule only_setup_mounts) (simp add: essential_mounts_def)

lemma only_prepare: "only switching (prepare opts)"
  unfolding prepare_def create_mount_namespace_def make_private_def is_mount_point_def
    ensure_mount_point_def
  by (auto intro!: hoare_rules only_verify_root only_setup_essentials)

lemma only_switch_root: "only switching (switch_root inp cfg ep ea armed)"
  unfolding switch_root_def Let_def pivot_root_def make_private_def cleanup_old_root_def
    unmount_under_def read_mount_targets_def
  by (auto intro!: hoare_rules only_prepare only_unmount_each)

lemma only_disarm: "only arming disarm"
  unfolding disarm_def by (intro hoare_rules) simp_all

lemma only_arm: "only arming (arm_watchdog_pre_pivot t)"
  unfolding arm_watchdog_pre_pivot_def open_watchdog_def load_kernel_module_def
  by (intro hoare_rules only_disarm; simp)

abbreviation committing :: "call \<Rightarrow> bool" where
  "committing c \<equiv> stopping c \<or> switching c \<or> arming c"

lemma only_commit_tail:
  "only committing
     (bind_ok (stop_services inp cfg) (\<lambda>_.
      if sint (WatchdogTimeout cfg) > 0 then
        bind_ok (map_err ArmWatchdog (arm_watchdog_pre_pivot (sint (WatchdogTimeout cfg)))) (\<lambda>armed.
        deferring disarm (switch_root inp cfg ep ea armed))
      else switch_root inp cfg ep ea False))"
  unfolding deferring_def
  by (intro hoare_rules only_weaken [OF only_stop_services] only_weaken [OF only_arm]
      only_weaken [OF only_switch_root] only_weaken [OF only_disarm]) simp_all

lemma commit_starts:
  assumes "commit inp cfg ep ea w h = (r, h')"
  shows "\<exists>e post. h' = h @ (Ignore_signals [SIGINT, SIGTERM], e) # post \<and>
    (\<forall>ev \<in> set post. committing (fst ev))"
  using assms only_extends [OF only_commit_tail]
  unfolding commit_def by (fastforce)

lemma stage_and_commit_safe:
  assumes "stage_and_commit inp cfg w h = (r, h')"
  shows "safe_trace inp cfg h h'"
proof -
  obtain r1 h1 where s: "stage inp cfg w h = (r1, h1)" by (cases "stage inp cfg w h")
  obtain pre where pre: "h1 = h @ pre" "\<forall>ev \<in> set pre. harmless (fst ev)"
    using only_extends [OF only_stage s] by blast
  show ?thesis
  proof (cases r1)
    case (Inl e)
    then have "h' = h1" using assms s by (auto simp: stage_and_commit_def bind_ok_def bind_io_def ret_def)
    with pre show ?thesis
      using safe_trace_after [OF safe_trace_refl, of pre inp cfg h] by simp
  next
    case (Inr x)
    obtain cfg' ep ea where x: "x = (cfg', ep, ea)" by (cases x)
    have st: "staged inp cfg h1"
      using stage_staged [of inp cfg w h cfg' ep ea h1] s Inr x by simp
    have "commit inp cfg' ep ea w h1 = (r, h')"
      using assms s Inr x by (auto simp: stage_and_commit_def bind_ok_def bind_io_def)
    then obtain e post where "h' = h1 @ (Ignore_signals [SIGINT, SIGTERM], e) # post"
      using commit_starts by blast
    with pre st show ?thesis unfolding safe_trace_def
      by (intro exI [of _ pre] exI [of _ "(Ignore_signals [SIGINT, SIGTERM], e) # post"]) simp
  qed
qed

section \<open>The way to the build\<close>

text \<open>The calls before the build; the only mount among them is the tmpfs of the new root.\<close>

fun prelim :: "call \<Rightarrow> bool" where
  "prelim (Mkdir_all _ _) = True"
| "prelim (Open_append _) = True"
| "prelim (Add_log_sink _) = True"
| "prelim (Start_scope _ _) = True"
| "prelim (Sleep_ns _) = True"
| "prelim (Ignore_signals s) = (SIGINT \<notin> set s)"
| "prelim (Clean_dir _) = True"
| "prelim _ = False"

lemma prelim_harmless: "prelim c \<or> mounts_tmpfs c \<Longrightarrow> harmless c"
  by (cases c) auto

lemma prelim_no_tmpfs: "\<forall>ev \<in> set new. \<not> mounts_tmpfs (fst ev) \<Longrightarrow> \<not> tmpfs_mounted new"
  by (auto simp: done_calls_def list_ex_iff)

lemma only_intro:
  "only prelim (bind_io (attach_log_file inp cfg) (\<lambda>_. bind_io (RunPivot.detach cfg) (\<lambda>d. bind_io (ssh_grace d)
     (\<lambda>_. attempt (Ignore_signals [SIGHUP, SIGPIPE]) (check (do_call (Mkdir_all (config.WorkDir cfg) 0x1ED))
       failure.WorkDir read_memory)))))"
  unfolding attach_log_file_def RunPivot.detach_def relocate_to_transient_scope_def ssh_grace_def read_memory_def
  by (auto intro!: hoare_rules quiet_only [OF quiet_detect])

definition storage_done :: "history \<Rightarrow> (failure, u64 \<times> bool) res \<Rightarrow> history \<Rightarrow> bool" where
  "storage_done h r h' \<longleftrightarrow>
     (\<exists>new. h' = h @ new \<and> (\<forall>ev \<in> set new. prelim (fst ev) \<or> mounts_tmpfs (fst ev)) \<and>
       (tmpfs_mounted new \<longleftrightarrow> (\<exists>b. r = Inr (b, True))))"

lemma storage_done_simps [simp]:
  "storage_done h (Inl e) h" "storage_done h (Inr (b, False)) h"
  "storage_done h (Inl e) (h @ [(Clean_dir d, x)])" "storage_done h (Inr (b, False)) (h @ [(Clean_dir d, x)])"
  "storage_done h (Inl e) (h @ [(Mkdir_all d m, x)])"
  "storage_done h (Inl e) (h @ [(Mkdir_all d m, x), (Mount ''tmpfs'' d ''tmpfs'' fl o', Some y)])"
  "storage_done h (Inr (b, True)) (h @ [(Mkdir_all d m, x), (Mount ''tmpfs'' d ''tmpfs'' fl o', None)])"
  by (auto simp: storage_done_def)

lemma mount_rootfs_tmpfs_run: "wp (mount_rootfs_tmpfs inp cfg mem) (storage_done h) w h"
  unfolding mount_rootfs_tmpfs_def mount_tmpfs_def
  by (auto simp: hoare_rules split: sum.split option.split headroom.split)

lemma arrange_storage_run: "wp (arrange_storage inp cfg mem) (storage_done h) w h"
  unfolding arrange_storage_def free_bytes_def is_mount_point_def
  by (auto simp: hoare_rules mount_rootfs_tmpfs_run split: sum.split option.split)

lemma storage_run: "arrange_storage inp cfg mem w h = (r, h') \<Longrightarrow> storage_done h r h'"
  using arrange_storage_run [of inp cfg mem h w] by (simp add: wp_def)

text \<open>What is left of the pipeline once storage is arranged.\<close>

definition rest_of_run :: "inputs \<Rightarrow> config \<Rightarrow> bool \<Rightarrow> (failure, outcome_kind) res io" where
  "rest_of_run inp cfg mounted =
     (if mounted
      then deferring (bind_io (unmount_tmpfs (config.WorkDir cfg)) (\<lambda>_. ret ())) (stage_and_commit inp cfg)
      else stage_and_commit inp cfg)"

lemma run_pivot_regroup:
  "\<not> DryRun cfg \<Longrightarrow> \<not> Contain cfg \<Longrightarrow> geteuid w = 0 \<Longrightarrow> Force cfg \<Longrightarrow>
   run_pivot inp cfg w h =
     bind_ok (bind_io (attach_log_file inp cfg) (\<lambda>_. bind_io (RunPivot.detach cfg) (\<lambda>d. bind_io (ssh_grace d)
       (\<lambda>_. attempt (Ignore_signals [SIGHUP, SIGPIPE]) (check (do_call (Mkdir_all (config.WorkDir cfg) 0x1ED))
         failure.WorkDir read_memory)))))
     (\<lambda>mem. bind_ok (arrange_storage inp cfg mem) (\<lambda>(b, mounted). rest_of_run inp cfg mounted)) w h"
  by (simp add: run_pivot_def rest_of_run_def bind_ok_def check_def bind_io_def ask_def ret_def do_call_def
      split: prod.split option.split)

lemma run_pivot_shape:
  assumes "run_pivot inp cfg w h = (r, h')" "\<not> DryRun cfg" "\<not> Contain cfg"
  obtains
    (early) new e where "h' = h @ new" "\<forall>ev \<in> set new. prelim (fst ev) \<or> mounts_tmpfs (fst ev)"
      "\<not> tmpfs_mounted new" "r = Inl e"
  | (late) new mounted where "\<forall>ev \<in> set new. prelim (fst ev) \<or> mounts_tmpfs (fst ev)"
      "tmpfs_mounted new = mounted" "rest_of_run inp cfg mounted w (h @ new) = (r, h')"
proof (cases "geteuid w = 0 \<and> Force cfg")
  case False
  with assms(2,3) have "run_pivot inp cfg w h = (Inl (if geteuid w = 0 then NotConfirmed else NotRoot), h)"
    by (auto simp: run_pivot_def bind_io_def [of "ask _"] ask_def ret_def)
  with assms(1) have "h' = h @ []" "r = Inl (if geteuid w = 0 then NotConfirmed else NotRoot)" by simp_all
  with early [of "[]"] show ?thesis by simp
next
  case True
  let ?intro = "bind_io (attach_log_file inp cfg) (\<lambda>_. bind_io (RunPivot.detach cfg) (\<lambda>d. bind_io (ssh_grace d)
       (\<lambda>_. attempt (Ignore_signals [SIGHUP, SIGPIPE]) (check (do_call (Mkdir_all (config.WorkDir cfg) 0x1ED))
         failure.WorkDir read_memory))))"
  have run: "bind_ok ?intro (\<lambda>mem. bind_ok (arrange_storage inp cfg mem)
      (\<lambda>(b, mounted). rest_of_run inp cfg mounted)) w h = (r, h')"
    using assms True run_pivot_regroup by metis
  obtain r1 h1 where i: "?intro w h = (r1, h1)" by (cases "?intro w h")
  obtain n1 where n1: "h1 = h @ n1" "\<forall>ev \<in> set n1. prelim (fst ev)"
    using only_extends [OF only_intro i] by blast
  have "\<forall>ev \<in> set n1. \<not> mounts_tmpfs (fst ev)"
  proof
    fix ev assume "ev \<in> set n1"
    with n1(2) have "prelim (fst ev)" by blast
    then show "\<not> mounts_tmpfs (fst ev)" by (cases "fst ev") auto
  qed
  then have t1: "\<not> tmpfs_mounted n1" by (rule prelim_no_tmpfs)
  show ?thesis
  proof (cases r1)
    case (Inl e)
    with run i have "r = Inl e" "h' = h1" by (auto simp: bind_ok_def bind_io_def ret_def)
    with early [of n1 e] n1 t1 show ?thesis by auto
  next
    case (Inr mem)
    obtain r2 h2 where st: "arrange_storage inp cfg mem w h1 = (r2, h2)"
      by (cases "arrange_storage inp cfg mem w h1")
    obtain n2 where n2: "h2 = h1 @ n2" "\<forall>ev \<in> set n2. prelim (fst ev) \<or> mounts_tmpfs (fst ev)"
        "tmpfs_mounted n2 \<longleftrightarrow> (\<exists>b. r2 = Inr (b, True))"
      using storage_run [OF st] unfolding storage_done_def by blast
    have run2: "bind_ok (arrange_storage inp cfg mem) (\<lambda>(b, mounted). rest_of_run inp cfg mounted) w h1 = (r, h')"
      using run i Inr by (simp add: bind_ok_def [of ?intro] bind_io_def)
    show ?thesis
    proof (cases r2)
      case (Inl e)
      with run2 st have "r = Inl e" "h' = h2" by (auto simp: bind_ok_def bind_io_def ret_def)
      with early [of "n1 @ n2" e] n1 n2 t1 Inl show ?thesis by auto
    next
      case (Inr bm)
      obtain b mounted where bm: "bm = (b, mounted)" by (cases bm)
      with run2 st Inr have "rest_of_run inp cfg mounted w h2 = (r, h')"
        by (simp add: bind_ok_def bind_io_def)
      with late [of "n1 @ n2" mounted] n1 n2 t1 Inr bm show ?thesis by auto
    qed
  qed
qed

end
