(* ===== verification/Trial.thy ===== *)
theory Trial
  imports RunPivotProofs
begin

text \<open>
  A concrete machine and configuration on which the pipeline runs to the exec: 8 GiB of memory, a
  watchdog, an entrypoint that is no shell, systemd mode. The witnesses of the pipeline's
  properties use it.
\<close>

definition trial_config :: config where
  "trial_config = new_config\<lparr>Force := True, SystemdMode := True, EntrypointExplicit := True,
     Entrypoint := ''/sbin/init'', LogPersistPath := [], WatchdogTimeout := 60000000000\<rparr>"
definition trial_inputs :: inputs where
  "trial_inputs =
     \<lparr>built_config = None, log_handler = False, wordlist = [], float_parser = (\<lambda>s. Inl ErrSyntax),
      float_overflow = (\<lambda>v. 0), json = \<lparr>json_print = (\<lambda>v. ''{}''), json_parse = (\<lambda>s. None)\<rparr>,
      ips = few_ips, probe_suffix = [], rounds = 400, watchdog_fd = 7\<rparr>"
definition trial_world :: world where
  "trial_world = calm\<lparr>file_text := (\<lambda>h p. if p = ''/proc/meminfo''
      then Inr (''MemTotal: 8388608 kB'' @ [CHR 0x0A] @ ''MemFree: 4194304 kB'' @ [CHR 0x0A] @ ''MemAvailable: 6291456 kB'' @ [CHR 0x0A])
      else if p = ''/usr/bin/xmorph'' then Inr ''ELF'' else Inl ENOENT)\<rparr>"

lemma trial_mem: "read_meminfo (file_text trial_world h ''/proc/meminfo'') =
   Inr \<lparr>Total = 8589934592, Free = 4294967296, Available = 6442450944\<rparr>"
proof -
  let ?ls = "[''MemTotal: 8388608 kB'', ''MemFree: 4194304 kB'', ''MemAvailable: 6291456 kB'']"
  have s: "scan_lines (concat (map (\<lambda>l. l @ [CHR 0x0A]) ?ls)) = ?ls" by (rule scan_lines_concat) simp
  have f: "\<not> scan_failed (concat (map (\<lambda>l. l @ [CHR 0x0A]) ?ls))"
    unfolding scan_failed_def by (subst raw_lines_concat) simp_all
  have m: "mem_line m ''MemTotal: 8388608 kB'' = m\<lparr>Total := 8589934592\<rparr>"
     "mem_line m ''MemFree: 4194304 kB'' = m\<lparr>Free := 4294967296\<rparr>"
     "mem_line m ''MemAvailable: 6291456 kB'' = m\<lparr>Available := 6442450944\<rparr>" for m
  proof -
    have t: "trim_space '' 8388608 kB'' = ''8388608 kB''" "trim_space '' 4194304 kB'' = ''4194304 kB''"
        "trim_space '' 6291456 kB'' = ''6291456 kB''" by code_simp+
    have f: "GoStrings.fields ''8388608 kB'' = [''8388608'', ''kB'']" "GoStrings.fields ''4194304 kB'' = [''4194304'', ''kB'']"
        "GoStrings.fields ''6291456 kB'' = [''6291456'', ''kB'']" by code_simp+
    have p: "parse_uint 64 ''8388608'' = Inr 8388608" "parse_uint 64 ''4194304'' = Inr 4194304"
        "parse_uint 64 ''6291456'' = Inr 6291456"
      by (simp_all add: parse_uint_def digit_val_def)
    show "mem_line m ''MemTotal: 8388608 kB'' = m\<lparr>Total := 8589934592\<rparr>"
     "mem_line m ''MemFree: 4194304 kB'' = m\<lparr>Free := 4294967296\<rparr>"
     "mem_line m ''MemAvailable: 6291456 kB'' = m\<lparr>Available := 6442450944\<rparr>"
      by (simp_all add: mem_line_def cut_byte_def t f p)
  qed
  show ?thesis using s f m
    by (simp add: read_meminfo_def trial_world_def Let_def)
qed

lemma trial_err [simp]: "err_of trial_world h c = None" "geteuid trial_world = 0" "device_of trial_world h p = Inr 0"
  "self_exe trial_world = Inr ''/usr/bin/xmorph''" "file_text trial_world h ''/usr/bin/xmorph'' = Inr ''ELF''"
  "environ trial_world = []" "env_var trial_world v = []"
  by (simp_all add: trial_world_def calm_def)


lemma trial_sel [simp]:
  "DryRun trial_config = False" "Contain trial_config = False" "Force trial_config = True"
  "SystemdMode trial_config = True" "NoRootfsTmpfs trial_config = False" "RootfsSize trial_config = []"
  "EntrypointExplicit trial_config = True" "config.Entrypoint trial_config = ''/sbin/init''"
  "LogPersistPath trial_config = []" "WatchdogTimeout trial_config = 60000000000"
  "ssh_enabled trial_config = False" "tailscale_enabled trial_config = False" "KeepOldRoot trial_config = DefaultKeepOldRoot"
  "log_handler trial_inputs = False" "built_config trial_inputs = None" "ips trial_inputs = few_ips"
  by (simp_all add: trial_config_def new_config_def trial_inputs_def ssh_enabled_def tailscale_enabled_def)


lemmas io_defs = Let_def bind_io_def ask_def ret_def do_call_def check_def bind_ok_def map_err_def
lemma trial_file: "p \<noteq> ''/proc/meminfo'' \<Longrightarrow> p \<noteq> ''/usr/bin/xmorph'' \<Longrightarrow> file_text trial_world h p = Inl ENOENT"
  by (simp add: trial_world_def)
lemma trial_ns [simp]: "read_nameservers few_ips (resolv_path (config.WorkDir trial_config)) trial_world h = ([], h)"
  "read_nameservers few_ips ''/etc/resolv.conf'' trial_world h = ([], h)"
proof -
  have "resolv_path (config.WorkDir trial_config) = ''/run/xmorph/rootfs/etc/resolv.conf''" by code_simp
  then show "read_nameservers few_ips (resolv_path (config.WorkDir trial_config)) trial_world h = ([], h)"
  "read_nameservers few_ips ''/etc/resolv.conf'' trial_world h = ([], h)"
    by (simp_all add: read_nameservers_def io_defs trial_file)
qed
lemma trial_base: "path_base ''/sbin/init'' = ''init''" by code_simp

lemmas trial_defs =
  run_pivot_def attach_log_file_def RunPivot.detach_def ssh_grace_def running_over_ssh_def read_memory_def arrange_storage_def is_mount_point_def mount_rootfs_tmpfs_def mount_tmpfs_def recommend_rootfs_bytes_def reserve_bytes_def headroom_check_def stage_and_commit_def stage_def resolve_entrypoint_def entrypoint_survives_detach_def shell_entrypoints_def ensure_ssh_usable_def announce_def write_config_def copy_binary_def ensure_resolv_conf_def check_tailnet_def check_watchdog_def ensure_watchdog_available_def open_watchdog_def disarm_def check_log_persist_def commit_def stop_services_def arm_watchdog_pre_pivot_def deferring_def switch_root_def prepare_def create_mount_namespace_def make_private_def setup_essentials_def essential_mounts_def ensure_directory_def pivot_root_def ensure_mount_point_def DefaultKeepOldRoot_def

text \<open>The same machine on which the exec of the supervisor fails.\<close>

definition no_exec_world :: world where
  "no_exec_world = trial_world\<lparr>err_of := (\<lambda>h c. case c of Exec p argv env \<Rightarrow> Some ENOENT | _ \<Rightarrow> None)\<rparr>"

lemma no_exec_reads [simp]:
  "file_text no_exec_world = file_text trial_world" "geteuid no_exec_world = 0" "device_of no_exec_world h p = Inr 0"
  "self_exe no_exec_world = Inr ''/usr/bin/xmorph''" "environ no_exec_world = []" "env_var no_exec_world v = []"
  by (simp_all add: no_exec_world_def)

lemma no_exec_err [simp]: "err_of no_exec_world h c = (case c of Exec p argv env \<Rightarrow> Some ENOENT | _ \<Rightarrow> None)"
  by (simp add: no_exec_world_def)

lemma no_exec_ns [simp]:
  "read_nameservers few_ips (resolv_path (config.WorkDir trial_config)) no_exec_world h = ([], h)"
  "read_nameservers few_ips ''/etc/resolv.conf'' no_exec_world h = ([], h)"
  using trial_ns by (simp_all add: read_nameservers_def io_defs)

lemma trial_run:
  "fst (run_pivot trial_inputs trial_config trial_world []) = Inr Replaced"
  "tmpfs_mounted (snd (run_pivot trial_inputs trial_config trial_world []))"
  by (simp_all add: trial_defs io_defs trial_mem trial_base)

lemma no_exec_run:
  "fst (run_pivot trial_inputs trial_config no_exec_world []) = Inl (ExecFailed ENOENT)"
  "tmpfs_mounted (snd (run_pivot trial_inputs trial_config no_exec_world []))"
  by (simp_all add: trial_defs io_defs trial_mem trial_base unmount_tmpfs_def)

end
