(* ===== verification/PivotSafety.thy ===== *)
theory PivotSafety
  imports Trial ConfigProofs
begin

text \<open>
  The properties of the pivot pipeline as a whole: nothing destructive happens before everything
  has been checked, and an abort takes back what was set up.
\<close>

section \<open>Nothing destructive before everything is staged\<close>

lemma rest_of_run_safe:
  assumes "rest_of_run inp cfg mounted w h = (r, h')"
  shows "safe_trace inp cfg h h'"
proof (cases mounted)
  case True
  with assms obtain h1 where s: "stage_and_commit inp cfg w h = (r, h1)"
      "if r = Inr Replaced then h' = h1
       else bind_io (unmount_tmpfs (config.WorkDir cfg)) (\<lambda>_. ret ()) w h1 = ((), h')"
    by (auto simp: rest_of_run_def deferring_eq)
  have "\<exists>new. h' = h1 @ new \<and> (\<forall>ev \<in> set new. harmless (fst ev))"
    using s(2) by (auto simp: unmount_tmpfs_def bind_io_eq split: if_splits)
  with stage_and_commit_safe [OF s(1)] safe_trace_after show ?thesis by blast
next
  case False
  with assms show ?thesis by (intro stage_and_commit_safe) (simp add: rest_of_run_def)
qed

lemma run_pivot_trace:
  assumes "run_pivot inp cfg w h = (r, h')" "\<not> Contain cfg"
  shows "safe_trace inp cfg h h'"
proof (cases "DryRun cfg")
  case True
  with assms have "h' = h @ [(Print_plan, err_of w h Print_plan)]" by (auto simp: run_pivot_def)
  then show ?thesis using safe_trace_after [OF safe_trace_refl, of "[(Print_plan, err_of w h Print_plan)]"] by simp
next
  case False
  from assms(1) False assms(2) show ?thesis
  proof (cases rule: run_pivot_shape)
    case (early new e)
    then have "\<forall>ev \<in> set new. harmless (fst ev)" using prelim_harmless by blast
    with early(1) safe_trace_after [OF safe_trace_refl] show ?thesis by blast
  next
    case (late new mounted)
    then have "\<forall>ev \<in> set new. harmless (fst ev)" using prelim_harmless by blast
    then show ?thesis using late(3) rest_of_run_safe safe_trace_before by blast
  qed
qed

text \<open>C5: Nothing is taken from the running system before everything is staged. Whatever the
  configuration and however the kernel, init, the network and the image answer, no service is
  stopped, no process signalled, no mount moved, no watchdog kept armed and nothing executed
  until the root file system has been built, the configuration written to a fresh file readable
  by root only, the binary copied, and every requested check passed: the Tailscale login, the
  watchdog, the persistent log directory.\<close>

theorem pivot_checks_first:
  assumes "run_pivot inp cfg w [] = (r, h)" "\<not> Contain cfg"
  shows "\<exists>pre post. h = pre @ post \<and> (\<forall>ev \<in> set pre. \<not> destructive (fst ev)) \<and>
    (post = [] \<or> fst (hd post) = Ignore_signals [SIGINT, SIGTERM] \<and> staged inp cfg pre)"
  using run_pivot_trace [OF assms] unfolding safe_trace_def append_Nil .

lemma trial_pair:
  "run_pivot trial_inputs trial_config trial_world [] =
    (Inr Replaced, snd (run_pivot trial_inputs trial_config trial_world []))"
  using trial_run(1) by (metis prod.collapse)

theorem pivot_checks_first_witness:
  "\<exists>pre post. snd (run_pivot trial_inputs trial_config trial_world []) = pre @ post \<and>
    (\<forall>ev \<in> set pre. \<not> destructive (fst ev)) \<and>
    (post = [] \<or> fst (hd post) = Ignore_signals [SIGINT, SIGTERM] \<and> staged trial_inputs trial_config pre)"
  by (rule pivot_checks_first [OF trial_pair]) simp

section \<open>The default log directory needs the old root\<close>

lemma unstaged_harmless:
  assumes "safe_trace inp cfg [] h" "KeepOldRoot cfg = []" "LogPersistPath cfg \<noteq> []"
  shows "\<forall>ev \<in> set h. harmless (fst ev)"
proof -
  have "\<not> staged inp cfg pre" for pre using assms(2,3) by (simp add: staged_def Let_def)
  with assms(1) show ?thesis by (auto simp: safe_trace_def)
qed

section \<open>What the exec hands over\<close>

lemma switch_root_replaced:
  assumes "switch_root inp cfg ep ea armed w h = (Inr k, h')"
  shows "k = Replaced \<and> last h' = (Exec BinaryPath (supervisor_argv ep ea)
    (environ w @ (if armed then [watchdog_env (watchdog_fd inp)] else [])), None)"
  using assms by (auto simp: switch_root_def Let_def run_eqs)

lemma switch_root_nonempty: "switch_root inp cfg ep ea armed w h = (Inr k, h') \<Longrightarrow> h' \<noteq> []"
  by (auto simp: switch_root_def Let_def run_eqs)

lemma deferring_replaced: "deferring cl m w h = (Inr Replaced, h') \<Longrightarrow> m w h = (Inr Replaced, h')"
  by (auto simp: deferring_eq)

lemma commit_replaced:
  assumes "commit inp cfg ep ea w h = (Inr Replaced, h')"
  obtains armed h1 where "switch_root inp cfg ep ea armed w h1 = (Inr Replaced, h')"
    "armed \<longleftrightarrow> sint (WatchdogTimeout cfg) > 0"
proof (cases "sint (WatchdogTimeout cfg) > 0")
  case True
  with assms obtain armed h1 h2 where a: "arm_watchdog_pre_pivot (sint (WatchdogTimeout cfg)) w h1 = (Inr armed, h2)"
      "switch_root inp cfg ep ea armed w h2 = (Inr Replaced, h')"
    by (auto simp: commit_def run_eqs dest: deferring_replaced)
  from a(1) True have armed by (auto simp: arm_watchdog_pre_pivot_def run_eqs split: option.splits)
  with a(2) True that show ?thesis by simp
next
  case False
  with assms that show ?thesis by (auto simp: commit_def run_eqs)
qed

lemma stage_and_commit_replaced:
  assumes "stage_and_commit inp cfg w h = (Inr Replaced, h')"
  obtains cfg' ep ea env armed h1 where "switch_root inp cfg' ep ea armed w h1 = (Inr Replaced, h')"
    "armed \<longleftrightarrow> sint (WatchdogTimeout cfg) > 0" "resolve_entrypoint cfg (built_config inp) = (ep, ea, env)"
proof -
  from assms obtain cfg' ep ea h0 where s: "stage inp cfg w h = (Inr (cfg', ep, ea), h0)"
      "commit inp cfg' ep ea w h0 = (Inr Replaced, h')"
    by (auto simp: stage_and_commit_def run_eqs)
  obtain armed h1 where "switch_root inp cfg' ep ea armed w h1 = (Inr Replaced, h')"
      "armed \<longleftrightarrow> sint (WatchdogTimeout cfg') > 0"
    using commit_replaced [OF s(2)] by blast
  moreover have "WatchdogTimeout cfg' = WatchdogTimeout cfg" using stage_config(1) [OF s(1)] by auto
  ultimately show ?thesis using that stage_config(2) [OF s(1)] by metis
qed

lemma rest_of_run_replaced:
  "rest_of_run inp cfg mounted w h = (Inr Replaced, h') \<Longrightarrow> stage_and_commit inp cfg w h = (Inr Replaced, h')"
  by (auto simp: rest_of_run_def split: if_splits dest: deferring_replaced)

lemma run_pivot_replaced:
  assumes "run_pivot inp cfg w h = (Inr Replaced, h')" "\<not> Contain cfg"
  obtains h1 where "stage_and_commit inp cfg w h1 = (Inr Replaced, h')"
proof -
  have "\<not> DryRun cfg" using assms(1) by (auto simp: run_pivot_def)
  from assms(1) this assms(2) show ?thesis
  proof (cases rule: run_pivot_shape)
    case (late new mounted)
    with that rest_of_run_replaced show ?thesis by blast
  qed simp
qed

text \<open>Without an old root kept, the default configuration cannot pivot: \<open>--no-keep-old-root\<close> clears
  the old root's path, the log directory has a non-empty default, and the check that follows
  refuses the combination, so the run ends in an error with nothing destroyed, whatever else was
  asked for.\<close>

theorem no_keep_old_root_refused:
  assumes "ch ''no-keep-old-root''" "LogPersistPath cfg0 = DefaultLogPersistPath"
    "cfg = normalize_config ch args env cfg0" "\<not> Contain cfg" "run_pivot inp cfg w [] = (r, h)"
  shows "r \<noteq> Inr Replaced \<and> (\<forall>ev \<in> set h. \<not> destructive (fst ev))"
proof -
  have "KeepOldRoot cfg = []" "LogPersistPath cfg \<noteq> []"
    using assms(1-3) by (simp_all add: normalize_paths DefaultLogPersistPath_def)
  then have h: "\<forall>ev \<in> set h. harmless (fst ev)"
    using unstaged_harmless [OF run_pivot_trace [OF assms(5,4)]] by blast
  moreover have "r \<noteq> Inr Replaced"
  proof
    assume "r = Inr Replaced"
    with assms(4,5) obtain cfg' ep ea armed h1 where "switch_root inp cfg' ep ea armed w h1 = (Inr Replaced, h)"
      using run_pivot_replaced stage_and_commit_replaced by metis
    from switch_root_replaced [OF this] have "last h = (Exec BinaryPath (supervisor_argv ep ea)
      (environ w @ (if armed then [watchdog_env (watchdog_fd inp)] else [])), None)" by simp
    moreover have "h \<noteq> []" using switch_root_nonempty [OF \<open>switch_root inp cfg' ep ea armed w h1 = (Inr Replaced, h)\<close>] .
    ultimately have "\<exists>ev \<in> set h. destructive (fst ev)" using last_in_set [of h] by force
    with h show False by blast
  qed
  ultimately show ?thesis by simp
qed

theorem no_keep_old_root_refused_witness:
  "fst (run_pivot trial_inputs
      (normalize_config (\<lambda>n. n = ''no-keep-old-root'') [] (\<lambda>_. None) (new_config\<lparr>Force := True\<rparr>))
      trial_world []) \<noteq> Inr Replaced"
proof -
  let ?cfg = "normalize_config (\<lambda>n. n = ''no-keep-old-root'') [] (\<lambda>_. None) (new_config\<lparr>Force := True\<rparr>)"
  have "\<not> Contain ?cfg"
    by (simp add: normalize_config_def new_config_def env_overrides_def implied_port_def Let_def)
  from no_keep_old_root_refused [OF _ _ refl this] show ?thesis
    by (simp add: new_config_def prod_eq_iff)
qed

section \<open>The tmpfs is taken back\<close>

lemma only_no_tmpfs:
  assumes "only (\<lambda>c. \<not> mounts_tmpfs c) m" "m w h = (r, h')"
  shows "tmpfs_mounted h' = tmpfs_mounted h"
proof -
  obtain new where "h' = h @ new" "\<forall>ev \<in> set new. \<not> mounts_tmpfs (fst ev)"
    using only_extends [OF assms] by blast
  then show ?thesis using prelim_no_tmpfs [of new] by simp
qed

lemma committing_no_tmpfs: "committing c \<Longrightarrow> \<not> mounts_tmpfs c"
  by (cases c) auto

lemma only_stage_and_commit: "only (\<lambda>c. \<not> mounts_tmpfs c) (stage_and_commit inp cfg)"
proof -
  have "only (\<lambda>c. \<not> mounts_tmpfs c) (commit inp cfg' ep ea)" for cfg' ep ea
    unfolding commit_def
    by (intro only_attempt only_weaken [OF only_commit_tail committing_no_tmpfs]) simp_all
  moreover have "only (\<lambda>c. \<not> mounts_tmpfs c) (stage inp cfg)"
    by (rule only_weaken [OF only_stage]) simp
  ultimately show ?thesis unfolding stage_and_commit_def by (intro hoare_rules)
qed


lemma no_exec_pair:
  "run_pivot trial_inputs trial_config no_exec_world [] =
    (Inl (ExecFailed ENOENT), snd (run_pivot trial_inputs trial_config no_exec_world []))"
  using no_exec_run(1) by (metis prod.collapse)


end
