(* ===== verification/PivotWatchdog.thy ===== *)
theory PivotWatchdog
  imports PivotSafety
begin

text \<open>
  The watchdog across the pipeline: it is handed over running or left disarmed, and what a failed
  exec leaves behind.
\<close>

section \<open>The watchdog\<close>

fun moves_dog :: "call \<Rightarrow> bool" where
  "moves_dog Open_watchdog = True"
| "moves_dog (Watchdog_write _) = True"
| "moves_dog Watchdog_close = True"
| "moves_dog _ = False"

lemma dog_unmoved: "\<not> moves_dog c \<Longrightarrow> dog_event s c = s"
  by (cases c) (auto simp: dog_event_def)

lemma dog_after_append:
  "\<forall>ev \<in> set new. \<not> moves_dog (fst ev) \<Longrightarrow> dog_after (h @ new) = dog_after h"
proof (induction new rule: rev_induct)
  case (snoc ev new)
  then have "dog_after (h @ new) = dog_after h" by simp
  moreover have "dog_after ((h @ new) @ [(fst ev, snd ev)]) = dog_after (h @ new)"
    using snoc.prems by (subst dog_snoc) (simp add: dog_unmoved)
  ultimately show ?case by simp
qed simp

lemma only_dog: "only (\<lambda>c. \<not> moves_dog c) m \<Longrightarrow> m w h = (r, h') \<Longrightarrow> dog_after h' = dog_after h"
  using only_extends [of "\<lambda>c. \<not> moves_dog c" m w h r h'] dog_after_append by blast

lemma switching_dog: "stopping c \<or> switching c \<Longrightarrow> \<not> moves_dog c"
  by (cases c) auto

lemma only_dog_load: "only (\<lambda>c. \<not> moves_dog c) (load_kernel_module name)"
  unfolding load_kernel_module_def by (intro hoare_rules; simp)

lemma open_watchdog_dog:
  assumes "open_watchdog w h = (r, h')"
  shows "dog_after h' = (case r of Inr _ \<Rightarrow> Armed | Inl _ \<Rightarrow> dog_after h)"
proof (cases "err_of w h Open_watchdog")
  case None
  with assms show ?thesis by (auto simp: open_watchdog_def bind_io_eq dog_snoc dog_event_def)
next
  case (Some e)
  let ?h1 = "h @ [(Open_watchdog, Some e)]"
  have d: "dog_after ?h1 = dog_after h" by (simp add: dog_snoc)
  show ?thesis
  proof (cases "e = ENOENT")
    case False
    with assms Some d show ?thesis by (auto simp: open_watchdog_def bind_io_eq)
  next
    case True
    obtain r2 h2 where l: "load_kernel_module ''softdog'' w ?h1 = (r2, h2)"
      by (cases "load_kernel_module ''softdog'' w ?h1")
    have "dog_after h2 = dog_after h" using only_dog [OF only_dog_load l] d by simp
    with assms Some True l show ?thesis
      by (cases r2; cases "err_of w h2 Open_watchdog")
         (auto simp: open_watchdog_def bind_io_def do_call_def ret_def bind_ok_def check_def dog_snoc dog_event_def)
  qed
qed

text \<open>A device whose magic close works.\<close>

definition disarms :: "world \<Rightarrow> bool" where
  "disarms w \<longleftrightarrow> (\<forall>h. err_of w h (Watchdog_write CHR ''V'') = None \<and> err_of w h Watchdog_close = None)"

lemma disarm_dog: "disarms w \<Longrightarrow> disarm w h = (u, h') \<Longrightarrow> dog_after h' = Idle"
  by (cases "dog_after h") (auto simp: disarm_def disarms_def dog_after_def dog_event_def)


definition dog_idle :: "history \<Rightarrow> bool" where
  "dog_idle h \<longleftrightarrow> dog_after h = Idle"

lemma only_dog_idle: "only S m \<Longrightarrow> (\<And>c. S c \<Longrightarrow> \<not> moves_dog c) \<Longrightarrow> keeps w dog_idle m"
  by (rule only_keeps_inv) (auto simp: dog_idle_def dog_after_append)

lemma keeps_disarm: "disarms w \<Longrightarrow> keeps w dog_idle disarm"
  unfolding keeps_def dog_idle_def using disarm_dog by (metis prod.collapse)

lemma check_watchdog_dog:
  assumes "disarms w"
  shows "keeps w dog_idle (check_watchdog cfg)"
proof -
  have "dog_after (snd (ensure_watchdog_available w h)) = Idle" if "dog_after h = Idle" for h
  proof (cases "open_watchdog w h")
    case (Pair r h1)
    with open_watchdog_dog [OF Pair] that disarm_dog [OF assms, of h1] show ?thesis
      by (cases r; cases "disarm w h1")
         (auto simp: ensure_watchdog_available_def bind_ok_def bind_io_def ret_def)
  qed
  then have "keeps w dog_idle ensure_watchdog_available" by (simp add: keeps_def dog_idle_def)
  then show ?thesis unfolding check_watchdog_def by (intro result_rules)
qed

lemma arm_watchdog_dog:
  assumes "disarms w" "t > 0" "dog_after h = Idle" "arm_watchdog_pre_pivot t w h = (r, h')"
  shows "dog_after h' = (case r of Inr _ \<Rightarrow> Armed | Inl _ \<Rightarrow> Idle) \<and>
    (\<forall>b. r = Inr b \<longrightarrow> b \<and> Watchdog_keep_fd \<in> set (done_calls h'))"
proof (cases "open_watchdog w h")
  case (Pair r1 h1)
  note o = open_watchdog_dog [OF Pair]
  show ?thesis
  proof (cases r1)
    case (Inl e)
    with assms Pair o show ?thesis by (auto simp: arm_watchdog_pre_pivot_def bind_ok_def bind_io_def ret_def)
  next
    case (Inr u)
    let ?h2 = "h1 @ [(Watchdog_timeout (watchdog_seconds t), err_of w h1 (Watchdog_timeout (watchdog_seconds t)))]"
    have d: "dog_after (?h2 @ [(Watchdog_keep_fd, x)]) = Armed" for x
      using o Inr by (auto simp: dog_after_def dog_event_def)
    show ?thesis
    proof (cases "err_of w ?h2 Watchdog_keep_fd")
      case None
      with assms Pair Inr d [of None] show ?thesis
        by (auto simp: arm_watchdog_pre_pivot_def bind_ok_def bind_io_def ret_def do_call_def)
    next
      case (Some e)
      obtain h3 where h3: "disarm w (?h2 @ [(Watchdog_keep_fd, Some e)]) = ((), h3)"
        by (metis (full_types) old.unit.exhaust prod.exhaust)
      with assms Pair Inr Some disarm_dog [OF assms(1) h3] show ?thesis
        by (auto simp: arm_watchdog_pre_pivot_def bind_ok_def bind_io_def ret_def do_call_def)
    qed
  qed
qed

lemma no_moves_switch_root: "only (\<lambda>c. \<not> moves_dog c) (switch_root inp cfg ep ea armed)"
  by (rule only_weaken [OF only_switch_root]) (use switching_dog in blast)

lemma no_moves_stop: "only (\<lambda>c. \<not> moves_dog c) (stop_services inp cfg)"
  by (rule only_weaken [OF only_stop_services]) (use switching_dog in blast)

text \<open>How the watchdog is left: running exactly when the supervisor takes over and one was asked for.\<close>

definition dog_left :: "config \<Rightarrow> (failure, outcome_kind) res \<Rightarrow> history \<Rightarrow> bool" where
  "dog_left cfg r h \<longleftrightarrow>
     (if r = Inr Replaced \<and> sint (WatchdogTimeout cfg) > 0
      then dog_after h = Armed \<and> Watchdog_keep_fd \<in> set (done_calls h)
      else dog_after h = Idle)"

lemma commit_dog:
  assumes "disarms w" "dog_after h = Idle" "commit inp cfg ep ea w h = (r, h')"
  shows "dog_left cfg r h'"
proof -
  let ?h0 = "h @ [(Ignore_signals [SIGINT, SIGTERM], err_of w h (Ignore_signals [SIGINT, SIGTERM]))]"
  have d0: "dog_after ?h0 = Idle" using assms(2) by (simp add: dog_snoc dog_event_def)
  obtain r1 h1 where st: "stop_services inp cfg w ?h0 = (r1, h1)" by (cases "stop_services inp cfg w ?h0")
  have d1: "dog_after h1 = Idle" using only_dog [OF no_moves_stop st] d0 by simp
  show ?thesis
  proof (cases r1)
    case (Inl e)
    with st assms(3) d1 show ?thesis by (auto simp: commit_def bind_ok_def bind_io_def ret_def dog_left_def)
  next
    case (Inr u)
    show ?thesis
    proof (cases "sint (WatchdogTimeout cfg) > 0")
      case False
      with Inr st assms(3) have "switch_root inp cfg ep ea False w h1 = (r, h')"
        by (simp add: commit_def bind_ok_def bind_io_def)
      with only_dog [OF no_moves_switch_root this] d1 False show ?thesis by (simp add: dog_left_def)
    next
      case True
      obtain r2 h2 where a: "arm_watchdog_pre_pivot (sint (WatchdogTimeout cfg)) w h1 = (r2, h2)"
        by (cases "arm_watchdog_pre_pivot (sint (WatchdogTimeout cfg)) w h1")
      note d2 = arm_watchdog_dog [OF assms(1) True d1 a]
      show ?thesis
      proof (cases r2)
        case (Inl e)
        with Inr st a assms(3) d2 True show ?thesis
          by (auto simp: commit_def bind_ok_def bind_io_def map_err_def ret_def dog_left_def)
      next
        case (Inr armed)
        then have df: "deferring disarm (switch_root inp cfg ep ea armed) w h2 = (r, h')"
          using \<open>r1 = Inr u\<close> st a assms(3) True
          by (simp add: commit_def bind_ok_def bind_io_def map_err_def ret_def)
        then obtain h3 where s: "switch_root inp cfg ep ea armed w h2 = (r, h3)"
            "if r = Inr Replaced then h' = h3 else disarm w h3 = ((), h')"
          by (auto simp: deferring_eq)
        have "dog_after h3 = Armed" using only_dog [OF no_moves_switch_root s(1)] d2 Inr by simp
        moreover have "Watchdog_keep_fd \<in> set (done_calls h3)"
          using only_keeps [OF no_moves_switch_root s(1)] d2 Inr by auto
        ultimately show ?thesis using s(2) True disarm_dog [OF assms(1)]
          by (auto simp: dog_left_def split: if_splits)
      qed
    qed
  qed
qed

abbreviation unmoved :: "call \<Rightarrow> bool" where "unmoved c \<equiv> \<not> moves_dog c"

lemma unmoved_announce: "only unmoved (announce cfg pw)"
  unfolding announce_def by (intro hoare_rules) simp

lemma unmoved_write_config: "only unmoved (write_config codec dir pc)"
  unfolding write_config_def Let_def by (intro hoare_rules) simp_all

lemma unmoved_copy_binary: "only unmoved (copy_binary dir)"
  unfolding copy_binary_def Let_def by (intro hoare_rules) simp_all

lemma unmoved_resolv: "only unmoved (ensure_resolv_conf lib dir)"
  unfolding ensure_resolv_conf_def read_nameservers_def by (intro hoare_rules) simp_all

lemma unmoved_tailnet: "only unmoved (check_tailnet cfg)"
  unfolding check_tailnet_def pre_auth_def by (intro hoare_rules) simp_all

lemma unmoved_log_persist: "only unmoved (check_log_persist inp cfg)"
  unfolding check_log_persist_def ensure_log_dir_writable_def by (intro hoare_rules) simp_all

lemma unmoved_ssh: "only unmoved (ensure_ssh_usable inp cfg)"
  unfolding ensure_ssh_usable_def new_passphrase_def generate_passphrase_def
  by (intro hoare_rules only_pick)

lemma unmoved_idle: "only unmoved m \<Longrightarrow> keeps w dog_idle m"
  by (rule only_dog_idle)

lemmas stage_parts_idle =
  unmoved_idle [OF unmoved_announce] unmoved_idle [OF unmoved_write_config] unmoved_idle [OF unmoved_copy_binary]
  unmoved_idle [OF unmoved_resolv] unmoved_idle [OF unmoved_tailnet] unmoved_idle [OF unmoved_log_persist]
  unmoved_idle [OF unmoved_ssh] unmoved_idle [OF only_call]

lemma stage_dog: "disarms w \<Longrightarrow> keeps w dog_idle (stage inp cfg)"
  unfolding stage_def
  by (intro result_rules check_watchdog_dog stage_parts_idle unmoved_idle [OF unmoved_ssh]) simp_all

lemma stage_and_commit_dog:
  assumes "disarms w" "dog_after h = Idle" "stage_and_commit inp cfg w h = (r, h')"
  shows "dog_left cfg r h'"
proof -
  obtain r1 h1 where s: "stage inp cfg w h = (r1, h1)" by (cases "stage inp cfg w h")
  have d: "dog_after h1 = Idle"
    using keepsD [OF stage_dog [OF assms(1)] _ s] assms(2) by (simp add: dog_idle_def)
  show ?thesis
  proof (cases r1)
    case (Inl e)
    with s assms(3) d show ?thesis by (auto simp: stage_and_commit_def bind_ok_def bind_io_def ret_def dog_left_def)
  next
    case (Inr x)
    obtain cfg' ep ea where x: "x = (cfg', ep, ea)" by (cases x)
    with s assms(3) Inr have "commit inp cfg' ep ea w h1 = (r, h')"
      by (simp add: stage_and_commit_def bind_ok_def bind_io_def)
    moreover have "WatchdogTimeout cfg' = WatchdogTimeout cfg"
      using stage_config(1) [of inp cfg w h cfg' ep ea h1] s Inr x by auto
    ultimately show ?thesis using commit_dog [OF assms(1) d] by (metis dog_left_def)
  qed
qed

lemma rest_of_run_dog:
  assumes "disarms w" "dog_after h = Idle" "rest_of_run inp cfg mounted w h = (r, h')"
  shows "dog_left cfg r h'"
proof (cases mounted)
  case False
  with assms show ?thesis by (auto simp: rest_of_run_def intro: stage_and_commit_dog)
next
  case True
  with assms(3) obtain h1 where s: "stage_and_commit inp cfg w h = (r, h1)"
      "if r = Inr Replaced then h' = h1
       else bind_io (unmount_tmpfs (config.WorkDir cfg)) (\<lambda>_. ret ()) w h1 = ((), h')"
    by (auto simp: rest_of_run_def deferring_eq)
  have "dog_left cfg r h1" by (rule stage_and_commit_dog [OF assms(1,2) s(1)])
  with s(2) show ?thesis
    by (auto simp: dog_left_def unmount_tmpfs_def bind_io_eq dog_snoc dog_event_def split: if_splits)
qed

lemma prelim_unmoved: "prelim c \<or> mounts_tmpfs c \<Longrightarrow> unmoved c"
  by (cases c) auto

lemma run_pivot_dog:
  assumes "run_pivot inp cfg w [] = (r, h)" "\<not> Contain cfg" "disarms w"
  shows "dog_left cfg r h"
proof (cases "DryRun cfg")
  case True
  with assms(1) show ?thesis by (auto simp: run_pivot_def dog_left_def dog_after_def dog_event_def)
next
  case False
  have idle: "dog_after new = Idle"
    if "\<forall>ev \<in> set new. prelim (fst ev) \<or> mounts_tmpfs (fst ev)" for new
    using dog_after_append [of new "[]"] that prelim_unmoved by (simp add: dog_after_def) 
  from assms(1) False assms(2) show ?thesis
  proof (cases rule: run_pivot_shape)
    case (early new e)
    with idle show ?thesis by (simp add: dog_left_def)
  next
    case (late new mounted)
    with rest_of_run_dog [OF assms(3) idle [OF late(1)]] show ?thesis by simp
  qed
qed

text \<open>C7: The watchdog is handed over running, or left alone. On a device whose magic close works,
  a pivot that reaches the exec with a watchdog asked for leaves the device running, its
  descriptor inheritable, and its number in the supervisor's environment; every other run,
  aborts included, ends with the device disarmed.\<close>

theorem watchdog_handed_over:
  assumes "run_pivot inp cfg w [] = (r, h)" "\<not> Contain cfg" "disarms w"
  shows "if r = Inr Replaced \<and> sint (WatchdogTimeout cfg) > 0
    then dog_after h = Armed \<and> Watchdog_keep_fd \<in> set (done_calls h) \<and>
      (\<exists>argv. last h = (Exec BinaryPath argv (environ w @ [watchdog_env (watchdog_fd inp)]), None))
    else dog_after h = Idle"
proof (cases "r = Inr Replaced \<and> sint (WatchdogTimeout cfg) > 0")
  case True
  with assms(1,2) obtain h1 where "stage_and_commit inp cfg w h1 = (Inr Replaced, h)"
    using run_pivot_replaced by blast
  from stage_and_commit_replaced [OF this] obtain cfg' ep ea env armed h2
    where s: "switch_root inp cfg' ep ea armed w h2 = (Inr Replaced, h)"
      "armed \<longleftrightarrow> sint (WatchdogTimeout cfg) > 0" by metis
  with switch_root_replaced [OF s(1)] True run_pivot_dog [OF assms] show ?thesis
    by (auto simp: dog_left_def)
next
  case False
  with run_pivot_dog [OF assms] show ?thesis by (auto simp: dog_left_def)
qed

lemma disarms_trial: "disarms trial_world" "disarms no_exec_world"
  by (simp_all add: disarms_def)

theorem watchdog_handed_over_witness:
  "dog_after (snd (run_pivot trial_inputs trial_config trial_world [])) = Armed"
  using watchdog_handed_over [OF trial_pair _ disarms_trial(1)] by simp

section \<open>An exec that fails\<close>

text \<open>The two roots have been exchanged.\<close>

definition root_switched :: "history \<Rightarrow> bool" where
  "root_switched h \<longleftrightarrow> list_ex (\<lambda>c. case c of Pivot_root _ _ \<Rightarrow> True | _ \<Rightarrow> False) (done_calls h)"

lemma root_switched_append [simp]: "root_switched h \<Longrightarrow> root_switched (h @ new)"
  by (simp add: root_switched_def)

lemma only_root_switched: "only S m \<Longrightarrow> m w h = (r, h') \<Longrightarrow> root_switched h \<Longrightarrow> root_switched h'"
  using only_extends [of S m w h r h'] by auto

lemma pivot_root_switches: "pivot_root dir old w h = (Inr u, h') \<Longrightarrow> root_switched h'"
  by (auto simp: pivot_root_def run_eqs root_switched_def)

lemma only_after_pivot:
  "only (\<lambda>c. True) (if KeepOldRoot cfg = [] then bind_io (cleanup_old_root r) (\<lambda>_. ret ()) else ret ())"
  unfolding cleanup_old_root_def unmount_under_def read_mount_targets_def
  by (intro hoare_rules only_weaken [OF only_unmount_each]) simp_all

lemma switch_root_exec_failed:
  assumes "switch_root inp cfg ep ea armed w h = (Inl (ExecFailed e), h')"
  shows "root_switched h'"
proof -
  from assms obtain h1 h2 h3 c where p: "pivot_root (config.WorkDir cfg) ''mnt/oldroot'' w h1 = (Inr (), h2)"
    and c: "(if KeepOldRoot cfg = [] then bind_io (cleanup_old_root ''/mnt/oldroot'') (\<lambda>_. ret ()) else ret ()) w h2 = ((), h3)"
    and h': "h' = h3 @ [c]"
    unfolding switch_root_def Let_def run_eqs by (auto simp: run_eqs)
  from only_root_switched [OF only_after_pivot c pivot_root_switches [OF p]] show ?thesis
    unfolding h' by simp
qed

abbreviation not_exec :: "failure \<Rightarrow> bool" where "not_exec f \<equiv> \<forall>e. f \<noteq> ExecFailed e"

lemma stage_errs: "errs w not_exec (stage inp cfg)"
  unfolding stage_def ensure_ssh_usable_def check_tailnet_def check_watchdog_def check_log_persist_def
    ensure_log_dir_writable_def
  by (intro result_rules) auto

lemma stop_errs: "errs w not_exec (stop_services inp cfg)"
  unfolding stop_services_def Let_def
  by (intro result_rules) (auto split: option.splits)

lemma not_exec_run: "errs w not_exec m \<Longrightarrow> m w h \<noteq> (Inl (ExecFailed e), h')"
  unfolding errs_def by (metis fst_conv)

lemmas stage_not_exec = not_exec_run [OF stage_errs]
lemmas stop_not_exec = not_exec_run [OF stop_errs]

lemma deferring_keeps_switch:
  assumes "deferring cl m w h = (r, h')" "only S cl" "\<And>h1. m w h = (r, h1) \<Longrightarrow> root_switched h1"
  shows "root_switched h'"
  using assms by (auto simp: deferring_eq dest: only_root_switched split: if_splits)

lemma commit_exec_failed:
  assumes "commit inp cfg ep ea w h = (Inl (ExecFailed e), h')"
  shows "root_switched h'"
proof (cases "sint (WatchdogTimeout cfg) > 0")
  case False
  with assms show ?thesis
    by (auto simp: commit_def bind_ok_Inl stop_not_exec intro: switch_root_exec_failed)
next
  case True
  with assms obtain armed h1 where "deferring disarm (switch_root inp cfg ep ea armed) w h1 = (Inl (ExecFailed e), h')"
    by (auto simp: commit_def bind_ok_Inl map_err_Inl stop_not_exec)
  then show ?thesis by (rule deferring_keeps_switch [OF _ only_disarm switch_root_exec_failed])
qed

lemma stage_and_commit_exec_failed:
  "stage_and_commit inp cfg w h = (Inl (ExecFailed e), h') \<Longrightarrow> root_switched h'"
  by (auto simp: stage_and_commit_def bind_ok_Inl stage_not_exec intro: commit_exec_failed)

lemma rest_of_run_exec_failed:
  assumes "rest_of_run inp cfg mounted w h = (Inl (ExecFailed e), h')"
  shows "root_switched h'"
proof (cases mounted)
  case False
  with assms stage_and_commit_exec_failed show ?thesis by (auto simp: rest_of_run_def)
next
  case True
  have "only (\<lambda>c. True) (bind_io (unmount_tmpfs (config.WorkDir cfg)) (\<lambda>_. ret ()))"
    unfolding unmount_tmpfs_def by (intro hoare_rules) simp_all
  with True assms deferring_keeps_switch stage_and_commit_exec_failed show ?thesis
    by (auto simp: rest_of_run_def)
qed

lemma run_early_not_exec:
  assumes "\<not> DryRun cfg" "\<not> Contain cfg" "run_pivot inp cfg w h = (Inl (ExecFailed e), h')"
  obtains mounted h1 where "rest_of_run inp cfg mounted w h1 = (Inl (ExecFailed e), h')"
proof -
  have i: "errs w not_exec (bind_io (attach_log_file inp cfg) (\<lambda>_. bind_io (RunPivot.detach cfg) (\<lambda>d. bind_io (ssh_grace d)
       (\<lambda>_. attempt (Ignore_signals [SIGHUP, SIGPIPE]) (check (do_call (Mkdir_all (config.WorkDir cfg) 0x1ED))
         failure.WorkDir read_memory)))))"
    unfolding read_memory_def by (intro result_rules) simp_all
  have st: "errs w not_exec (arrange_storage inp cfg mem)" for mem
    unfolding arrange_storage_def mount_rootfs_tmpfs_def
    by (intro result_rules) (auto split: headroom.split intro!: result_rules)
  have "geteuid w = 0 \<and> Force cfg" using assms
    by (auto simp: run_pivot_def bind_io_def [of "ask _"] ask_def ret_def split: if_splits)
  with assms run_pivot_regroup have "bind_ok (bind_io (attach_log_file inp cfg) (\<lambda>_. bind_io (RunPivot.detach cfg) (\<lambda>d. bind_io (ssh_grace d)
       (\<lambda>_. attempt (Ignore_signals [SIGHUP, SIGPIPE]) (check (do_call (Mkdir_all (config.WorkDir cfg) 0x1ED))
         failure.WorkDir read_memory)))))
     (\<lambda>mem. bind_ok (arrange_storage inp cfg mem) (\<lambda>(b, mounted). rest_of_run inp cfg mounted)) w h = (Inl (ExecFailed e), h')"
    by metis
  then obtain mem h1 where "bind_ok (arrange_storage inp cfg mem) (\<lambda>(b, mounted). rest_of_run inp cfg mounted) w h1
      = (Inl (ExecFailed e), h')"
    using not_exec_run [OF i] unfolding bind_ok_Inl by blast
  then show ?thesis using that by (auto simp: bind_ok_Inl not_exec_run [OF st])
qed

text \<open>An exec that fails leaves the machine in the new root: the two roots are already exchanged,
  the error is returned, and the deferred call has disarmed the watchdog that was to reboot a
  pivoted machine that hangs.\<close>

theorem failed_exec_strands:
  assumes "run_pivot inp cfg w [] = (Inl (ExecFailed e), h)" "\<not> Contain cfg" "disarms w"
  shows "root_switched h \<and> dog_after h = Idle"
proof -
  have "\<not> DryRun cfg" using assms(1) by (auto simp: run_pivot_def)
  with assms(1,2) obtain mounted h1 where "rest_of_run inp cfg mounted w h1 = (Inl (ExecFailed e), h)"
    using run_early_not_exec by metis
  with rest_of_run_exec_failed run_pivot_dog [OF assms] show ?thesis by (auto simp: dog_left_def)
qed

theorem failed_exec_strands_witness:
  "root_switched (snd (run_pivot trial_inputs trial_config no_exec_world [])) \<and>
    dog_after (snd (run_pivot trial_inputs trial_config no_exec_world [])) = Idle"
  by (rule failed_exec_strands [OF no_exec_pair _ disarms_trial(2)]) simp

end
