(* ===== verification/PivotEnds.thy ===== *)
theory PivotEnds
  imports PivotSafety
begin

text \<open>
  The pivot pipeline comes back: none of its waiting loops runs out of the rounds it is given.
\<close>

section \<open>The pipeline comes back\<close>

lemma errs_bind_when:
  assumes "\<And>h. Q (fst (m w h))" "\<And>a. Q a \<Longrightarrow> errs w P (f a)"
  shows "errs w P (bind_io m f)"
  using assms by (auto simp: errs_def bind_io_def split: prod.split) (metis fst_conv)

abbreviation ended :: "failure \<Rightarrow> bool" where "ended f \<equiv> f \<noteq> OutOfFuel"

definition enough_rounds :: "inputs \<Rightarrow> config \<Rightarrow> bool" where
  "enough_rounds inp cfg \<longleftrightarrow>
     (\<exists>n. rounds inp = Suc n \<and> int n * 100000000 > max 5000000000 (int (unat (config.Timeout cfg)) * ns_per_second))"

lemma coordinator_timeout: "Timeout (fst (new_coordinator t w h)) = t"
  by (simp add: new_coordinator_def bind_io_def ret_def split: prod.split)

lemma stop_ended:
  assumes "ticking_clock (clock_ns w)" "enough_rounds inp cfg"
  shows "errs w ended (stop_services inp cfg)"
proof -
  let ?t = "int (unat (config.Timeout cfg)) * ns_per_second"
  obtain n where n: "rounds inp = Suc n" "int n * 100000000 > 5000000000" "int n * 100000000 > ?t"
    using assms(2) by (auto simp: enough_rounds_def)
  have wait: "fst (wait_for_services (rounds inp) c w h) \<noteq> None" if "Timeout c = ?t" for c h
    unfolding n(1) by (rule wait_for_services_ends [OF assms(1)]) (use n(2,3) that in linarith)
  have term_ok: "fst (terminate (rounds inp) \<lparr>GracefulTimeout = ?t, KillTimeout = 0, SkipEssential = True, ExcludePIDs = []\<rparr> w h) \<noteq> None" for h
    unfolding n(1) using terminate_ends [OF assms(1)] n(2,3) by (fastforce simp: with_defaults_def)
  have c: "errs w ended (bind_io (new_coordinator ?t) (\<lambda>coord. bind_io (transition_to_rescue coord)
      (\<lambda>_. bind_io (wait_for_services (rounds inp) coord) (\<lambda>r. ret (case r of None \<Rightarrow> Inl OutOfFuel | Some _ \<Rightarrow> Inr ())))))"
    by (rule errs_bind_when [where Q = "\<lambda>c. Timeout c = ?t"], simp add: coordinator_timeout)
       (intro errs_bind errs_bind_when [where Q = "\<lambda>r. r \<noteq> None"] errs_ret; auto simp: wait split: option.splits)
  show ?thesis
    unfolding stop_services_def Let_def
    by (intro result_rules c errs_bind_when [where Q = "\<lambda>r. r \<noteq> None" and m = "terminate _ _"] term_ok)
       (auto split: option.splits)
qed

lemma switch_ended: "errs w ended (switch_root inp cfg ep ea armed)"
  unfolding switch_root_def Let_def by (intro result_rules) simp_all

lemma deferring_ended: "errs w ended m \<Longrightarrow> errs w ended (deferring cl m)"
  by (auto simp: errs_def deferring_def bind_io_def ret_def split: prod.splits if_splits) (metis fst_conv)+

lemma commit_ended:
  assumes "ticking_clock (clock_ns w)" "enough_rounds inp cfg"
  shows "errs w ended (commit inp cfg ep ea)"
  unfolding commit_def
  by (intro result_rules stop_ended [OF assms] deferring_ended switch_ended) simp_all

lemma stage_ended: "errs w ended (stage inp cfg)"
  unfolding stage_def ensure_ssh_usable_def check_tailnet_def check_watchdog_def check_log_persist_def
    ensure_log_dir_writable_def
  by (intro result_rules) auto

lemma stage_and_commit_ended:
  assumes "ticking_clock (clock_ns w)" "enough_rounds inp cfg"
  shows "errs w ended (stage_and_commit inp cfg)"
  unfolding errs_def
proof (intro allI impI)
  fix h e
  assume "fst (stage_and_commit inp cfg w h) = Inl e"
  then obtain h' where "stage_and_commit inp cfg w h = (Inl e, h')" by (metis prod.collapse)
  then consider "stage inp cfg w h = (Inl e, h')"
    | cfg' ep ea h1 where "stage inp cfg w h = (Inr (cfg', ep, ea), h1)" "commit inp cfg' ep ea w h1 = (Inl e, h')"
    by (auto simp: stage_and_commit_def bind_ok_Inl)
  then show "ended e"
  proof cases
    case 1
    with stage_ended [of w inp cfg] show ?thesis unfolding errs_def by (metis fst_conv)
  next
    case 2
    from stage_config(1) [OF 2(1)] have "config.Timeout cfg' = config.Timeout cfg" by auto
    then have "enough_rounds inp cfg'" using assms(2) by (simp add: enough_rounds_def)
    with commit_ended [OF assms(1)] 2(2) show ?thesis unfolding errs_def by (metis fst_conv)
  qed
qed

lemma run_contain_ended: "errs w ended (run_contain inp cfg)"
  unfolding run_contain_def by (intro result_rules) simp_all

lemma run_pivot_ended:
  assumes "ticking_clock (clock_ns w)" "enough_rounds inp cfg"
  shows "errs w ended (run_pivot inp cfg)"
proof -
  have "errs w ended (arrange_storage inp cfg mem)" for mem
    unfolding arrange_storage_def mount_rootfs_tmpfs_def
    by (intro result_rules) (auto split: headroom.split intro!: result_rules)
  then show ?thesis
    unfolding run_pivot_def read_memory_def
    by (intro result_rules run_contain_ended deferring_ended stage_and_commit_ended [OF assms]) simp_all
qed

text \<open>C8: The pipeline always comes back: on a clock that ticks, one round of waiting for every
  tenth of a second of the timeout (or of the five seconds it stands for when it is zero), and
  two more, is enough for both loops that wait for services and processes to end, whatever
  refuses to die and in whatever order things fail.\<close>

theorem pivot_comes_back:
  assumes "ticking_clock (clock_ns w)" "rounds inp = Suc n"
    "int n * 100000000 > max 5000000000 (int (unat (config.Timeout cfg)) * ns_per_second)"
  shows "fst (run_pivot inp cfg w h) \<noteq> Inl OutOfFuel"
proof -
  have "enough_rounds inp cfg" using assms(2,3) by (auto simp: enough_rounds_def)
  from run_pivot_ended [OF assms(1) this] show ?thesis by (auto simp: errs_def)
qed

theorem pivot_comes_back_witness:
  "fst (run_pivot trial_inputs (trial_config\<lparr>SystemdMode := False\<rparr>) trial_world []) \<noteq> Inl OutOfFuel"
  using pivot_comes_back [of trial_world trial_inputs 399 "trial_config\<lparr>SystemdMode := False\<rparr>" "[]"]
    slept.ticking_clock_axioms
  by (simp add: trial_world_def calm_def trial_inputs_def trial_config_def new_config_def DefaultTimeout_def ns_per_second_def)

section \<open>A flag without effect\<close>

text \<open>Whatever \<open>--skip-verify\<close> says, the mounts are prepared without the check of the root.\<close>

lemma skip_verify_ignored:
  "switch_root inp (cfg\<lparr>config.SkipVerify := b\<rparr>) entrypoint entryArgs armed = switch_root inp cfg entrypoint entryArgs armed"
  by (simp add: switch_root_def Let_def cong: if_cong)

end
