(* ===== verification/Channel.thy ===== *)
theory Channel
  imports Prelude
begin

text \<open>
  Buffered channels fed by Go's signal package, which never blocks on a send: a signal that finds
  the buffer full is dropped. The interface is a locale; the channels of the supervisor are its
  instance.
\<close>

section \<open>The interface\<close>

locale dropping_channel =
  fixes offer :: "'a \<Rightarrow> 'c \<Rightarrow> 'c"
    and receive :: "'c \<Rightarrow> ('a \<times> 'c) option"
    and pending :: "'c \<Rightarrow> 'a list"
    and room :: "'c \<Rightarrow> nat"
  assumes receive_None: "receive c = None \<longleftrightarrow> pending c = []"
    and receive_Some: "receive c = Some (a, c') \<Longrightarrow> pending c = a # pending c' \<and> room c' = room c"
    and offer_pending:
      "pending (offer a c) = (if length (pending c) < room c then pending c @ [a] else pending c)"
    and offer_room: "room (offer a c) = room c"
begin

lemma offer_bounded: "length (pending c) \<le> room c \<Longrightarrow> length (pending (offer a c)) \<le> room (offer a c)"
  by (simp add: offer_pending offer_room)

lemma receive_bounded:
  "receive c = Some (a, c') \<Longrightarrow> length (pending c) \<le> room c \<Longrightarrow> length (pending c') \<le> room c'"
  by (drule receive_Some) simp

text \<open>What has been taken out, followed by what is still there, is what went in.\<close>

lemma offer_keeps_order:
  "out @ pending c = log \<Longrightarrow>
   out @ pending (offer a c) = (if length (pending c) < room c then log @ [a] else log)"
  by (auto simp: offer_pending)

lemma receive_keeps_order:
  "receive c = Some (a, c') \<Longrightarrow> out @ pending c = log \<Longrightarrow> (out @ [a]) @ pending c' = log"
  by (drule receive_Some) simp

lemma receive_shrinks: "receive c = Some (a, c') \<Longrightarrow> length (pending c') < length (pending c)"
  by (drule receive_Some) simp

lemma receive_enabled: "pending c \<noteq> [] \<Longrightarrow> \<exists>a c'. receive c = Some (a, c')"
  using receive_None [of c] by (cases "receive c") auto

end

section \<open>The supervisor's channels\<close>

record 'a chan =
  buffer :: "'a list"
  capacity :: nat

definition make_chan :: "nat \<Rightarrow> 'a chan" where
  "make_chan n = \<lparr>buffer = [], capacity = n\<rparr>"

definition notify_send :: "'a \<Rightarrow> 'a chan \<Rightarrow> 'a chan" where
  "notify_send a c = (if length (buffer c) < capacity c then c\<lparr>buffer := buffer c @ [a]\<rparr> else c)"

definition chan_receive :: "'a chan \<Rightarrow> ('a \<times> 'a chan) option" where
  "chan_receive c = (case buffer c of [] \<Rightarrow> None | a # as \<Rightarrow> Some (a, c\<lparr>buffer := as\<rparr>))"

interpretation sig_chan: dropping_channel notify_send chan_receive buffer capacity
  by unfold_locales (auto simp: notify_send_def chan_receive_def split: list.splits)

lemma make_chan_simps [simp]: "buffer (make_chan n) = []" "capacity (make_chan n) = n"
  by (simp_all add: make_chan_def)

lemma notify_send_simps [simp]: "capacity (notify_send a c) = capacity c"
  by (rule sig_chan.offer_room)

end
