(* ===== verification/Supervise.thy ===== *)
theory Supervise
  imports Channel Mounts
begin

text \<open>
  The supervised entrypoint (\<open>internal/postpivot/supervise.go\<close>, \<open>reboot_linux.go\<close>). The select
  loop, the goroutine that waits for the child, the signal package and the child itself move
  independently, so \<open>Supervise\<close> is a step relation; a step of the environment (a signal, the
  child's end, an error of the kernel) is a step like any other.
\<close>

section \<open>Options, results and exit statuses\<close>

record supervise_options =
  SupArgv :: "string list"
  SupEnv :: "string list option"
  SupRebootOnExit :: bool
  OldRootPath :: string
  LogWriter :: bool

text \<open>How a process ended: \<open>WIFEXITED\<close>, \<open>WIFSIGNALED\<close>, or neither.\<close>

datatype process_state = Exited int | Signaled nat | Suspended

text \<open>\<open>cmd.ProcessState\<close> after \<open>Wait\<close>, and whether \<open>Wait\<close> returned an error.\<close>

type_synonym wait_report = "process_state option \<times> bool"

definition exit_status_from :: "process_state option \<Rightarrow> bool \<Rightarrow> int" where
  "exit_status_from ps waitErr =
     (case ps of
        Some (Exited code) \<Rightarrow> code
      | Some (Signaled n) \<Rightarrow> 128 + int n
      | _ \<Rightarrow> if waitErr then 1 else 0)"

text \<open>\<open>Wait\<close> returns an error for every end but a clean exit, and for a clean exit when the copying
  of its output failed.\<close>

definition wait_outcome :: "process_state \<Rightarrow> wait_report \<Rightarrow> bool" where
  "wait_outcome e r \<longleftrightarrow> fst r = Some e \<and> (e \<noteq> Exited 0 \<longrightarrow> snd r)"

datatype supervise_error = EmptyArgv | StartFailed errno

text \<open>How \<open>Supervise\<close> ends: it returns, or it calls \<open>rebootHook\<close>, which does not return.\<close>

datatype supervise_end = Returned int "supervise_error option" | Rebooting

section \<open>The step relation\<close>

definition forwarded_signals :: "signal_name list" where
  "forwarded_signals = [SIGTERM, SIGINT, SIGHUP, SIGUSR1, SIGUSR2]"

datatype phase = Starting | Started | Looping | Over supervise_end

datatype child_state = NoChild | Running | Ended process_state | Waited process_state

text \<open>\<open>acts\<close> are the calls so far; \<open>heard\<close>, a history variable, the signals the channel took. With a
  log, the child's output is a pipe, \<open>Wait\<close> returns only when its last writer has closed it, and
  \<open>writers\<close> counts the processes that still hold it besides the child.\<close>

record sup =
  phase :: phase
  sigCh :: "signal_name chan"
  notifying :: bool
  doneCh :: "wait_report option"
  child :: child_state
  writers :: nat
  acts :: history
  heard :: "signal_name list"

definition sup_init :: sup where
  "sup_init = \<lparr>phase = Starting, sigCh = make_chan 8, notifying = False, doneCh = None,
     child = NoChild, writers = 0, acts = [], heard = []\<rparr>"

definition act :: "call \<Rightarrow> errno option \<Rightarrow> sup \<Rightarrow> sup" where
  "act c r s = s\<lparr>acts := acts s @ [(c, r)]\<rparr>"

definition hear :: "signal_name \<Rightarrow> sup \<Rightarrow> sup" where
  "hear sg s = s\<lparr>sigCh := notify_send sg (sigCh s),
     heard := (if length (buffer (sigCh s)) < capacity (sigCh s) then heard s @ [sg] else heard s)\<rparr>"

text \<open>Who moves: the supervisor with its goroutine, or the rest of the machine.\<close>

datatype actor = Supervisor | Environment

inductive sup_step :: "supervise_options \<Rightarrow> actor \<Rightarrow> sup \<Rightarrow> sup \<Rightarrow> bool" for opts where
  empty_argv: "phase s = Starting \<Longrightarrow> SupArgv opts = [] \<Longrightarrow>
    sup_step opts Supervisor s (s\<lparr>phase := Over (Returned 1 (Some EmptyArgv))\<rparr>)"
| start_fails: "phase s = Starting \<Longrightarrow> SupArgv opts = p # args \<Longrightarrow>
    sup_step opts Supervisor s (act (Start_child p args) (Some e)
      (s\<lparr>phase := Over (Returned 127 (Some (StartFailed e)))\<rparr>))"
| start: "phase s = Starting \<Longrightarrow> SupArgv opts = p # args \<Longrightarrow>
    sup_step opts Supervisor s (act (Start_child p args) None (s\<lparr>phase := Started, child := Running\<rparr>))"
| notify: "phase s = Started \<Longrightarrow>
    sup_step opts Supervisor s (s\<lparr>phase := Looping, notifying := True\<rparr>)"
| wait_returns: "phase s = Looping \<Longrightarrow> child s = Ended e \<Longrightarrow> (LogWriter opts \<longrightarrow> writers s = 0) \<Longrightarrow>
    wait_outcome e r \<Longrightarrow> sup_step opts Supervisor s (s\<lparr>child := Waited e, doneCh := Some r\<rparr>)"
| forward: "phase s = Looping \<Longrightarrow> chan_receive (sigCh s) = Some (sg, ch) \<Longrightarrow>
    sup_step opts Supervisor s (act (Signal_child sg) r (s\<lparr>sigCh := ch\<rparr>))"
| finish: "phase s = Looping \<Longrightarrow> doneCh s = Some (ps, err) \<Longrightarrow>
    sup_step opts Supervisor s (act Reap_zombies None
      (s\<lparr>doneCh := None, notifying := False,
         phase := Over (if SupRebootOnExit opts then Rebooting
                           else Returned (exit_status_from ps err) None)\<rparr>))"
| arrives: "notifying s \<Longrightarrow> sg \<in> set forwarded_signals \<Longrightarrow> sup_step opts Environment s (hear sg s)"
| child_forks: "child s = Running \<Longrightarrow> sup_step opts Environment s (s\<lparr>writers := Suc (writers s)\<rparr>)"
| child_ends: "child s = Running \<Longrightarrow> sup_step opts Environment s (s\<lparr>child := Ended e\<rparr>)"
| writer_ends: "writers s = Suc n \<Longrightarrow> sup_step opts Environment s (s\<lparr>writers := n\<rparr>)"

inductive_cases sup_stepE: "sup_step opts a s t"

inductive sup_reach :: "supervise_options \<Rightarrow> sup \<Rightarrow> bool" for opts where
  initial: "sup_reach opts sup_init"
| later: "sup_reach opts s \<Longrightarrow> sup_step opts a s t \<Longrightarrow> sup_reach opts t"

section \<open>Rebooting\<close>

text \<open>\<open>doReboot\<close>; the exit is for a \<open>reboot\<close> that comes back.\<close>

definition do_reboot :: "string \<Rightarrow> unit io" where
  "do_reboot oldRoot =
     attempt Sync_disks
     (bind_io (if oldRoot \<noteq> []
               then bind_io (unmount_old_root oldRoot) (\<lambda>_. attempt Sync_disks (ret ()))
               else ret ()) (\<lambda>_.
      attempt Reboot_machine (attempt (Exit_process 1) (ret ()))))"

definition reboot_system :: "string \<Rightarrow> unit io" where
  "reboot_system oldRoot = attempt (Sleep_ns 5000000000) (do_reboot oldRoot)"

end
