(* ===== verification/PostPivot.thy ===== *)
theory PostPivot
  imports Supervise PostConfig Tailnet Watchdog Helpers
begin

text \<open>
  The program after the pivot, \<open>xmorph --init\<close> (\<open>internal/postpivot/run.go\<close>, \<open>devices.go\<close>,
  \<open>firewall_linux.go\<close>): device nodes, the configuration left by the pivot, the firewall, the logs,
  the inherited watchdog, the tailnet, sshd, and the choice of what to supervise. The supervision
  itself is the step relation of the theory of the supervisor; here its end is a value.
\<close>

section \<open>Device nodes and firewall\<close>

definition essential_devices :: "(string \<times> u32 \<times> u32) list" where
  "essential_devices =
     [(''/dev/null'', 1, 3), (''/dev/zero'', 1, 5), (''/dev/random'', 1, 8), (''/dev/urandom'', 1, 9),
      (''/dev/tty'', 5, 0)]"

text \<open>A character device readable and writable by all: \<open>S_IFCHR | 0666\<close>.\<close>

definition device_mode :: mode where "device_mode = 0x21B6"

definition ensure_device :: "string \<times> u32 \<times> u32 \<Rightarrow> unit io" where
  "ensure_device d =
     (case d of (path, major, minor) \<Rightarrow>
        bind_io (ask (\<lambda>w h. path_error w h path)) (\<lambda>r. case r of
          None \<Rightarrow> ret ()
        | Some _ \<Rightarrow> attempt (Mknod path major minor device_mode) (ret ())))"

definition ensure_device_nodes :: "unit io" where
  "ensure_device_nodes =
     bind_io (for_each ensure_device essential_devices) (\<lambda>_.
     bind_io (ask (\<lambda>w h. path_error w h ''/dev/net/tun'')) (\<lambda>r.
     if r = Some ENOENT
     then attempt (Mkdir_all ''/dev/net'' 0x1ED) (attempt (Mknod ''/dev/net/tun'' 10 200 device_mode) (ret ()))
     else ret ()))"

definition flush_firewall :: "unit io" where
  "flush_firewall =
     bind_io (do_call Open_netfilter) (\<lambda>r. case r of
       Some _ \<Rightarrow> ret ()
     | None \<Rightarrow> attempt Flush_firewall (ret ()))"

section \<open>Logs, watchdog, tailnet, sshd\<close>

text \<open>The result says whether the entrypoint's output has a log.\<close>

definition open_logs :: "string \<Rightarrow> bool io" where
  "open_logs dir =
     bind_io (do_call (Mkdir_all dir 0x1ED)) (\<lambda>r. case r of
       Some _ \<Rightarrow> ret False
     | None \<Rightarrow>
         bind_io (do_call (Open_append (path_join [dir, ''xmorph.log'']))) (\<lambda>x.
         bind_io (if x = None then attempt (Add_log_sink (path_join [dir, ''xmorph.log''])) (ret ()) else ret ()) (\<lambda>_.
         bind_io (do_call (Open_append (path_join [dir, ''entrypoint.log'']))) (\<lambda>e. ret (e = None)))))"

text \<open>\<open>time.Duration\<close> is a signed 64-bit count of nanoseconds.\<close>

definition duration_of_seconds :: "int \<Rightarrow> int" where
  "duration_of_seconds s = sint (word_of_int (s * 1000000000) :: 64 word)"

definition WatchdogFDEnv :: string where "WatchdogFDEnv = ''XMORPH_WATCHDOG_FD''"

definition adopt_inherited_watchdog :: "int \<Rightarrow> bool io" where
  "adopt_inherited_watchdog secs =
     bind_io (ask (\<lambda>w h. env_var w WatchdogFDEnv)) (\<lambda>s.
     if s = [] then ret False
     else case atoi s of
       Inl _ \<Rightarrow> ret False
     | Inr fd \<Rightarrow> attempt (Adopt_watchdog fd (duration_of_seconds secs)) (ret True))"

definition join_tailnet :: "ts_config \<Rightarrow> bool io" where
  "join_tailnet ts =
     bind_io (new_post_pivot_server (hostname_from_args (Args ts))) (\<lambda>r. ret (is_ok r))"

definition start_sshd :: "ssh_config \<Rightarrow> unit io" where
  "start_sshd c =
     bind_io (if PasswordGenerated c \<and> Password c \<noteq> []
              then attempt (Announce_password (announce_text (Password c) (Port c))) (ret ())
              else ret ())
       (\<lambda>_. attempt Start_sshd (ret ()))"

section \<open>What to run\<close>

definition supervised_argv :: "post_config option \<Rightarrow> string list \<Rightarrow> string list" where
  "supervised_argv cfg argv =
     (case cfg of
        Some c \<Rightarrow> if PostEntrypoint c \<noteq> [] then PostEntrypoint c @ PostCommand c else argv
      | None \<Rightarrow> argv)"

datatype launch = No_entrypoint | Serve_until_signal | Supervised supervise_options

definition choose_launch :: "post_config option \<Rightarrow> string list \<Rightarrow> bool \<Rightarrow> launch" where
  "choose_launch cfg argv logging =
     (let supervised = supervised_argv cfg argv
      in if supervised = [] then No_entrypoint
         else if supervised = [BinaryPath, ''idle''] then Serve_until_signal
         else Supervised
           \<lparr>SupArgv = supervised, SupEnv = None,
            SupRebootOnExit = (case cfg of None \<Rightarrow> True | Some c \<Rightarrow> RebootOnExit c),
            OldRootPath = (case cfg of None \<Rightarrow> [] | Some c \<Rightarrow> PostKeepOldRoot c),
            LogWriter = logging\<rparr>)"

text \<open>What was set up and is taken down when \<open>Run\<close> returns.\<close>

record services =
  watchdog_held :: bool
  tailnet_joined :: bool

definition firewall_stage :: "post_config option \<Rightarrow> unit io" where
  "firewall_stage cfg =
     (case cfg of
        Some c \<Rightarrow> if FlushFirewall c then flush_firewall else ret ()
      | None \<Rightarrow> ret ())"

definition log_stage :: "post_config option \<Rightarrow> bool io" where
  "log_stage cfg =
     (case cfg of
        Some c \<Rightarrow> if LogPersistDir c \<noteq> [] then open_logs (LogPersistDir c) else ret False
      | None \<Rightarrow> ret False)"

definition watchdog_stage :: "post_config option \<Rightarrow> bool io" where
  "watchdog_stage cfg =
     (case cfg of
        Some c \<Rightarrow> if WatchdogTimeoutSeconds c > 0
                  then adopt_inherited_watchdog (WatchdogTimeoutSeconds c) else ret False
      | None \<Rightarrow> ret False)"

definition tailnet_stage :: "post_config option \<Rightarrow> bool io" where
  "tailnet_stage cfg =
     (case cfg of
        Some c \<Rightarrow> (case Tailscale c of Some ts \<Rightarrow> join_tailnet ts | None \<Rightarrow> ret False)
      | None \<Rightarrow> ret False)"

definition sshd_stage :: "post_config option \<Rightarrow> unit io" where
  "sshd_stage cfg =
     (case cfg of
        Some c \<Rightarrow> (case SSH c of Some s \<Rightarrow> start_sshd s | None \<Rightarrow> ret ())
      | None \<Rightarrow> ret ())"

text \<open>A configuration that cannot be read is reported and then treated as absent.\<close>

definition run_services :: "post_config option \<Rightarrow> string list \<Rightarrow> (launch \<times> services) io" where
  "run_services cfg argv =
     bind_io (firewall_stage cfg) (\<lambda>_.
     bind_io (log_stage cfg) (\<lambda>logging.
     bind_io (watchdog_stage cfg) (\<lambda>held.
     bind_io (tailnet_stage cfg) (\<lambda>joined.
     bind_io (sshd_stage cfg) (\<lambda>_.
     ret (choose_launch cfg argv logging, \<lparr>watchdog_held = held, tailnet_joined = joined\<rparr>))))))"

definition run_init :: "json_codec \<Rightarrow> string list \<Rightarrow> (launch \<times> services) io" where
  "run_init codec argv =
     bind_io ensure_device_nodes (\<lambda>_.
     bind_io (load_config codec) (\<lambda>loaded.
     attempt (Unlink ConfigPath)
       (run_services (case loaded of Inr c \<Rightarrow> c | Inl _ \<Rightarrow> None) argv)))"

text \<open>The deferred calls, the last first: the tailnet node and the watchdog's \<open>Close\<close>.\<close>

definition run_deferred :: "services \<Rightarrow> unit io" where
  "run_deferred sv =
     bind_io (if tailnet_joined sv then attempt Tailnet_close (ret ()) else ret ()) (\<lambda>_.
     if watchdog_held sv then disarm else ret ())"

text \<open>How the process ends: \<open>Run\<close> returns a code, or the machine is restarted from within it.\<close>

datatype run_end = Exit int | Restarted

definition run_code :: "supervise_end \<Rightarrow> int" where
  "run_code e =
     (case e of
        Returned code (Some _) \<Rightarrow> if code = 0 then 1 else code
      | Returned code None \<Rightarrow> code
      | Rebooting \<Rightarrow> 1)"

text \<open>\<open>Run\<close> with the end of what it launches given: of the supervision, or of serving until a signal.\<close>

definition run_main :: "json_codec \<Rightarrow> string list \<Rightarrow> supervise_end \<Rightarrow> run_end io" where
  "run_main codec argv ending =
     bind_io (run_init codec argv) (\<lambda>(l, sv). case l of
       No_entrypoint \<Rightarrow> bind_io (run_deferred sv) (\<lambda>_. ret (Exit 1))
     | Serve_until_signal \<Rightarrow> bind_io (run_deferred sv) (\<lambda>_. ret (Exit 0))
     | Supervised opts \<Rightarrow>
         (case ending of
            Rebooting \<Rightarrow> bind_io (reboot_system (OldRootPath opts)) (\<lambda>_. ret Restarted)
          | Returned code r \<Rightarrow> bind_io (run_deferred sv) (\<lambda>_. ret (Exit (run_code ending)))))"

end
