(* ===== verification/Progress.thy ===== *)
theory Progress
  imports Prelude
begin

text \<open>
  Actors that come to an end by themselves: the interface of a step relation each step of which does
  some of a bounded amount of work, and which is only stuck once it has finished. The supervisor
  after its child's end and a session after its program's are such.
\<close>

locale finite_worker =
  fixes step :: "'s \<Rightarrow> 's \<Rightarrow> bool"
    and ready :: "'s \<Rightarrow> bool"
    and work :: "'s \<Rightarrow> nat"
    and finished :: "'s \<Rightarrow> bool"
  assumes stays_ready: "ready s \<Longrightarrow> step s t \<Longrightarrow> ready t"
    and does_work: "ready s \<Longrightarrow> step s t \<Longrightarrow> work t < work s"
    and never_stuck: "ready s \<Longrightarrow> \<not> finished s \<Longrightarrow> \<exists>t. step s t"
begin

lemma run_works: "(step ^^ n) s t \<Longrightarrow> ready s \<Longrightarrow> ready t \<and> work t + n \<le> work s"
proof (induction n arbitrary: t)
  case (Suc n)
  then obtain u where u: "(step ^^ n) s u" "step u t" by auto
  with Suc.IH Suc.prems(2) stays_ready does_work show ?case by fastforce
qed simp

lemma run_goes_on: "(step ^^ n) s t \<Longrightarrow> ready s \<Longrightarrow> finished t \<or> (\<exists>u. step t u)"
  using run_works never_stuck by blast

lemma run_ends: "ready s \<Longrightarrow> \<exists>n t. (step ^^ n) s t \<and> finished t"
proof (induction "work s" arbitrary: s rule: less_induct)
  case less
  show ?case
  proof (cases "finished s")
    case True
    then show ?thesis by (metis relpowp_0_I)
  next
    case False
    with less.prems never_stuck obtain t where t: "step s t" by blast
    with less.prems less.hyps [OF does_work stays_ready] obtain n u where "(step ^^ n) t u" "finished u" by blast
    with t show ?thesis by (metis relpowp_Suc_I2)
  qed
qed

text \<open>Every run is bounded and can go on until it has finished, and some run finishes.\<close>

lemma comes_to_end:
  assumes "ready s"
  shows "(\<forall>n t. (step ^^ n) s t \<longrightarrow> n \<le> work s \<and> (finished t \<or> (\<exists>u. step t u))) \<and>
    (\<exists>n t. (step ^^ n) s t \<and> finished t)"
  using run_works [OF _ assms] run_goes_on [OF _ assms] run_ends [OF assms] by (meson add_leE)

end

end
