(* ===== verification/SuperviseProofs.thy ===== *)
theory SuperviseProofs
  imports Supervise MountProofs Progress
begin

text \<open>
  The supervisor in every reachable state: what it forwards, how it ends, that it does end, and
  two ways in which it does not bring the machine back.
\<close>

section \<open>The invariant\<close>

definition status_of :: "process_state \<Rightarrow> int" where
  "status_of e = (case e of Exited c \<Rightarrow> c | Signaled n \<Rightarrow> 128 + int n | Suspended \<Rightarrow> 1)"

definition forwarded :: "history \<Rightarrow> signal_name list" where
  "forwarded h = List.map_filter (\<lambda>ev. case fst ev of Signal_child sg \<Rightarrow> Some sg | _ \<Rightarrow> None) h"

lemma forwarded_simps [simp]:
  "forwarded [] = []" "forwarded (h @ [(Signal_child sg, r)]) = forwarded h @ [sg]"
  "forwarded (h @ [(Start_child p args, r)]) = forwarded h" "forwarded (h @ [(Reap_zombies, r)]) = forwarded h"
  by (simp_all add: forwarded_def List.map_filter_def)

fun end_ok :: "supervise_options \<Rightarrow> child_state \<Rightarrow> supervise_end \<Rightarrow> bool" where
  "end_ok opts c Rebooting = (SupRebootOnExit opts \<and> (\<exists>e. c = Waited e))"
| "end_ok opts c (Returned n None) = (\<not> SupRebootOnExit opts \<and> (\<exists>e. c = Waited e \<and> n = status_of e))"
| "end_ok opts c (Returned n (Some EmptyArgv)) = (c = NoChild \<and> n = 1 \<and> SupArgv opts = [])"
| "end_ok opts c (Returned n (Some (StartFailed e))) = (c = NoChild \<and> n = 127 \<and> SupArgv opts \<noteq> [])"

lemma end_ok_over [simp]: "\<not> end_ok opts Running e" "\<not> end_ok opts (Ended p) e"
  by (cases "(opts, Running, e)" rule: end_ok.cases; simp) (cases "(opts, Ended p, e)" rule: end_ok.cases; simp)

definition phase_ok :: "supervise_options \<Rightarrow> sup \<Rightarrow> bool" where
  "phase_ok opts s \<longleftrightarrow>
     (case phase s of
        Starting \<Rightarrow> child s = NoChild \<and> \<not> notifying s
      | Started \<Rightarrow> (child s = Running \<or> (\<exists>e. child s = Ended e)) \<and> \<not> notifying s
      | Looping \<Rightarrow> child s \<noteq> NoChild \<and> notifying s
      | Over e \<Rightarrow> end_ok opts (child s) e \<and> \<not> notifying s)"

definition done_ok :: "sup \<Rightarrow> bool" where
  "done_ok s \<longleftrightarrow>
     (case doneCh s of
        None \<Rightarrow> phase s = Looping \<longrightarrow> (\<forall>e. child s \<noteq> Waited e)
      | Some r \<Rightarrow> phase s = Looping \<and> (\<exists>e. child s = Waited e \<and> wait_outcome e r))"

definition signals_ok :: "sup \<Rightarrow> bool" where
  "signals_ok s \<longleftrightarrow>
     forwarded (acts s) @ buffer (sigCh s) = heard s \<and> capacity (sigCh s) = 8 \<and>
     length (buffer (sigCh s)) \<le> capacity (sigCh s) \<and> set (heard s) \<subseteq> set forwarded_signals"

lemma init_ok: "phase_ok opts sup_init" "done_ok sup_init" "signals_ok sup_init"
  by (simp_all add: phase_ok_def done_ok_def signals_ok_def sup_init_def)

lemma status_wait_outcome: "wait_outcome e (ps, err) \<Longrightarrow> exit_status_from ps err = status_of e"
  by (auto simp: wait_outcome_def exit_status_from_def status_of_def split: process_state.split)

lemma act_sel [simp]:
  "phase (act c r s) = phase s" "sigCh (act c r s) = sigCh s" "notifying (act c r s) = notifying s"
  "doneCh (act c r s) = doneCh s" "child (act c r s) = child s" "writers (act c r s) = writers s"
  "acts (act c r s) = acts s @ [(c, r)]" "heard (act c r s) = heard s"
  by (simp_all add: act_def)

lemma hear_sel [simp]:
  "phase (hear sg s) = phase s" "notifying (hear sg s) = notifying s" "doneCh (hear sg s) = doneCh s"
  "child (hear sg s) = child s" "writers (hear sg s) = writers s" "acts (hear sg s) = acts s"
  "sigCh (hear sg s) = notify_send sg (sigCh s)"
  by (simp_all add: hear_def)

lemma step_phase: "sup_step opts a s t \<Longrightarrow> phase_ok opts s \<Longrightarrow> done_ok s \<Longrightarrow> phase_ok opts t"
  by (induction rule: sup_step.induct)
     (auto simp: phase_ok_def done_ok_def status_wait_outcome split: phase.splits)

lemma step_done: "sup_step opts a s t \<Longrightarrow> phase_ok opts s \<Longrightarrow> done_ok s \<Longrightarrow> done_ok t"
  by (induction rule: sup_step.induct)
     (auto simp: phase_ok_def done_ok_def split: phase.splits option.splits)

lemma step_signals: "sup_step opts a s t \<Longrightarrow> signals_ok s \<Longrightarrow> signals_ok t"
proof (induction rule: sup_step.induct)
  case (forward s sg ch r)
  then show ?case
    using sig_chan.receive_Some [OF forward(2)] by (simp add: signals_ok_def)
next
  case (arrives s sg)
  then show ?case
    using sig_chan.offer_bounded [of "sigCh s" sg]
    by (auto simp: signals_ok_def hear_def notify_send_def)
qed (auto simp: signals_ok_def)

lemma reach_ok: "sup_reach opts s \<Longrightarrow> phase_ok opts s \<and> done_ok s \<and> signals_ok s"
  by (induction rule: sup_reach.induct) (auto simp: init_ok intro: step_phase step_done step_signals)

section \<open>How it ends\<close>

text \<open>C11: An entrypoint that ran is never left behind on a running machine: whatever signals arrive
  and in whatever order things happen, a supervisor told to reboot on exit never returns once the
  entrypoint has started; if it stops, it stops in the reboot, after the entrypoint has ended and
  been waited for, whether it exited cleanly, failed or was killed.\<close>

theorem supervise_reboots:
  assumes "sup_reach opts s" "SupRebootOnExit opts" "phase s = Over e" "child s \<noteq> NoChild"
  shows "e = Rebooting \<and> (\<exists>p. child s = Waited p)"
proof -
  have "end_ok opts (child s) e" using reach_ok [OF assms(1)] assms(3) by (simp add: phase_ok_def)
  with assms(2,4) show ?thesis by (cases "(opts, child s, e)" rule: end_ok.cases) auto
qed

text \<open>A run in which the entrypoint exits cleanly.\<close>

definition clean_exit :: sup where
  "clean_exit = act Reap_zombies None
     ((act (Start_child ''sh'' []) None (sup_init\<lparr>phase := Started, child := Running\<rparr>))
        \<lparr>phase := Over Rebooting, notifying := False, child := Waited (Exited 0), doneCh := None\<rparr>)"

definition sh_opts :: supervise_options where
  "sh_opts = \<lparr>SupArgv = [''sh''], SupEnv = None, SupRebootOnExit = True, OldRootPath = [], LogWriter = True\<rparr>"

lemma clean_exit_reached: "sup_reach sh_opts clean_exit"
proof -
  let ?s1 = "act (Start_child ''sh'' []) None (sup_init\<lparr>phase := Started, child := Running\<rparr>)"
  let ?s2 = "?s1\<lparr>phase := Looping, notifying := True\<rparr>"
  let ?s3 = "?s2\<lparr>child := Ended (Exited 0)\<rparr>"
  let ?s4 = "?s3\<lparr>child := Waited (Exited 0), doneCh := Some (Some (Exited 0), False)\<rparr>"
  have "sup_reach sh_opts ?s1"
    by (rule later [OF initial start]) (simp_all add: sup_init_def sh_opts_def)
  then have "sup_reach sh_opts ?s2" by (rule later [OF _ notify]) simp
  then have "sup_reach sh_opts ?s3" by (rule later [OF _ child_ends]) simp
  then have "sup_reach sh_opts ?s4"
    by (rule later [OF _ wait_returns]) (simp_all add: wait_outcome_def sup_init_def)
  from later [OF this finish [of ?s4 "Some (Exited 0)" False]] show ?thesis
    by (simp add: clean_exit_def sh_opts_def act_def sup_init_def)
qed

theorem supervise_reboots_witness: "\<exists>p. child clean_exit = Waited p"
  using supervise_reboots [OF clean_exit_reached, of Rebooting] by (simp add: clean_exit_def sh_opts_def)

text \<open>C12: Signals are passed on in order. At every moment the signals forwarded to the entrypoint,
  followed by those still in the channel, are exactly the ones the channel took, in their order
  of arrival; only TERM, INT, HUP, USR1 and USR2 are ever forwarded, never more than eight wait,
  and a signal is dropped only while eight are waiting.\<close>

theorem supervise_forwards:
  assumes "sup_reach opts s"
  shows "forwarded (acts s) @ buffer (sigCh s) = heard s \<and> set (heard s) \<subseteq> set forwarded_signals \<and>
    length (buffer (sigCh s)) \<le> 8 \<and>
    (length (buffer (sigCh s)) < 8 \<longrightarrow> heard (hear sg s) = heard s @ [sg])"
  using reach_ok [OF assms] by (auto simp: signals_ok_def hear_def)

theorem supervise_forwards_witness:
  "forwarded (acts clean_exit) @ buffer (sigCh clean_exit) = heard clean_exit"
  using supervise_forwards [OF clean_exit_reached] by blast

text \<open>The exit code follows the shell's convention: when \<open>Supervise\<close> returns without an error, the
  entrypoint has ended and been waited for and the code is its exit status, or 128 plus the number
  of the signal that killed it; with an error the entrypoint never ran and the code is 1 for an
  empty command line and 127 for one that could not be executed.\<close>

theorem supervise_exit_code:
  assumes "sup_reach opts s" "phase s = Over (Returned n r)"
  shows "(case r of
      None \<Rightarrow> \<exists>e. child s = Waited e \<and> n = (case e of Exited c \<Rightarrow> c | Signaled k \<Rightarrow> 128 + int k | Suspended \<Rightarrow> 1)
    | Some EmptyArgv \<Rightarrow> n = 1 \<and> SupArgv opts = [] \<and> child s = NoChild
    | Some (StartFailed e) \<Rightarrow> n = 127 \<and> child s = NoChild)"
proof -
  have "end_ok opts (child s) (Returned n r)" using reach_ok [OF assms(1)] assms(2) by (simp add: phase_ok_def)
  then show ?thesis
    by (cases "(opts, child s, Returned n r)" rule: end_ok.cases) (auto simp: status_of_def)
qed

definition no_program :: sup where
  "no_program = act (Start_child ''sh'' []) (Some ENOENT)
     (sup_init\<lparr>phase := Over (Returned 127 (Some (StartFailed ENOENT)))\<rparr>)"

lemma no_program_reached: "sup_reach sh_opts no_program"
  unfolding no_program_def by (rule later [OF initial start_fails]) (simp_all add: sup_init_def sh_opts_def)

theorem supervise_exit_code_witness: "child no_program = NoChild"
  using supervise_exit_code [OF no_program_reached, of 127 "Some (StartFailed ENOENT)"]
  by (simp add: no_program_def)

section \<open>It does end\<close>

text \<open>What the supervisor still has to do once its child has ended.\<close>

definition work :: "sup \<Rightarrow> nat" where
  "work s =
     (if \<exists>e. phase s = Over e then 0
      else (if phase s = Looping then 0 else 1) + length (buffer (sigCh s)) +
           (if doneCh s \<noteq> None then 1 else 2))"

definition child_over :: "supervise_options \<Rightarrow> sup \<Rightarrow> bool" where
  "child_over opts s \<longleftrightarrow>
     (\<exists>e. child s = Ended e \<or> child s = Waited e) \<and> (LogWriter opts \<longrightarrow> writers s = 0)"

lemma own_step_shrinks:
  assumes "sup_step opts a s t" "a = Supervisor" "child_over opts s" "phase_ok opts s" "done_ok s"
  shows "work t < work s \<and> child_over opts t"
  using assms
proof (induction rule: sup_step.induct)
  case (forward s sg ch r)
  then show ?case
    using sig_chan.receive_shrinks [OF forward(2)]
    by (auto simp: work_def child_over_def)
qed (auto simp: work_def child_over_def phase_ok_def done_ok_def split: option.splits)

lemma own_step_exists:
  assumes "child_over opts s" "phase_ok opts s" "done_ok s" "\<nexists>e. phase s = Over e"
  shows "\<exists>t. sup_step opts Supervisor s t"
proof (cases "phase s")
  case Starting
  with assms show ?thesis by (auto simp: phase_ok_def child_over_def)
next
  case Started
  then show ?thesis by (blast intro: notify)
next
  case Looping
  show ?thesis
  proof (cases "doneCh s")
    case None
    with Looping assms(1,3) obtain e where "child s = Ended e" by (auto simp: child_over_def done_ok_def)
    with Looping assms(1) show ?thesis
      using wait_returns [of s e opts "(Some e, True)"] by (auto simp: child_over_def wait_outcome_def)
  next
    case (Some r)
    with Looping show ?thesis using finish [of s "fst r" "snd r" opts] by auto
  qed
next
  case (Over e)
  with assms show ?thesis by simp
qed

interpretation supervising: finite_worker "sup_step opts Supervisor" "\<lambda>s. sup_reach opts s \<and> child_over opts s"
    work "\<lambda>s. \<exists>e. phase s = Over e" for opts
proof
  fix s t
  assume s: "sup_reach opts s \<and> child_over opts s" "sup_step opts Supervisor s t"
  with reach_ok own_step_shrinks [OF s(2)] show "sup_reach opts t \<and> child_over opts t" "work t < work s"
    by (blast intro: later)+
next
  fix s
  assume "sup_reach opts s \<and> child_over opts s" "\<not> (\<exists>e. phase s = Over e)"
  with reach_ok own_step_exists show "\<exists>t. sup_step opts Supervisor s t" by metis
qed

text \<open>C13: The supervisor does finish. Once the entrypoint has ended and nobody else holds its output,
  left to itself the supervisor takes at most eleven more steps, whichever of its ready cases each
  select takes, never gets stuck, and stops.\<close>

theorem supervise_ends:
  assumes "sup_reach opts s" "child s = Ended p" "LogWriter opts \<longrightarrow> writers s = 0"
  shows "(\<forall>n t. (sup_step opts Supervisor ^^ n) s t \<longrightarrow> n \<le> 11 \<and>
      ((\<exists>e. phase t = Over e) \<or> (\<exists>u. sup_step opts Supervisor t u))) \<and>
    (\<exists>n t e. (sup_step opts Supervisor ^^ n) s t \<and> phase t = Over e)"
proof -
  have "child_over opts s" using assms(2,3) by (simp add: child_over_def)
  then have "sup_reach opts s \<and> child_over opts s" using assms(1) by simp
  note run = supervising.comes_to_end [OF this]
  have "work s \<le> 11" using reach_ok [OF assms(1)] by (auto simp: work_def signals_ok_def)
  with run show ?thesis by (meson le_trans)
qed

text \<open>The moment after the entrypoint's clean exit.\<close>

definition just_exited :: sup where
  "just_exited = (act (Start_child ''sh'' []) None sup_init)
     \<lparr>phase := Looping, notifying := True, child := Ended (Exited 0)\<rparr>"

lemma just_exited_reached: "sup_reach sh_opts just_exited"
proof -
  let ?s1 = "act (Start_child ''sh'' []) None (sup_init\<lparr>phase := Started, child := Running\<rparr>)"
  have "sup_reach sh_opts ?s1"
    by (rule later [OF initial start]) (simp_all add: sup_init_def sh_opts_def)
  then have "sup_reach sh_opts (?s1\<lparr>phase := Looping, notifying := True\<rparr>)" by (rule later [OF _ notify]) simp
  from later [OF this child_ends [of _ sh_opts "Exited 0"]] show ?thesis
    by (simp add: just_exited_def act_def sup_init_def)
qed

theorem supervise_ends_witness:
  "\<exists>n t e. (sup_step sh_opts Supervisor ^^ n) just_exited t \<and> phase t = Over e"
  using supervise_ends [OF just_exited_reached] by (simp add: just_exited_def act_def sup_init_def)

section \<open>It can wait forever\<close>

lemma blocked_step:
  assumes "sup_step opts a s t" "a = Supervisor" "LogWriter opts" "writers s > 0" "child s = Ended p"
    "phase_ok opts s" "done_ok s"
  shows "writers t > 0 \<and> child t = Ended p \<and> (\<nexists>e. phase t = Over e)"
  using assms
  by (induction rule: sup_step.induct)
     (auto simp: phase_ok_def done_ok_def split: option.splits)

text \<open>A daemon holds up the reboot: with a log, the child's output is a pipe and waiting for the
  child waits for its last writer, so when the entrypoint has exited but a process it left
  behind keeps the pipe open, no number of steps of the supervisor brings it to the reboot.\<close>

theorem daemon_blocks_reboot:
  assumes "sup_reach opts s" "LogWriter opts" "writers s > 0" "child s = Ended p"
    "(sup_step opts Supervisor ^^ n) s t"
  shows "child t = Ended p \<and> (\<nexists>e. phase t = Over e)"
proof -
  have "sup_reach opts t \<and> writers t > 0 \<and> child t = Ended p \<and> (\<nexists>e. phase t = Over e)"
    using assms(5)
  proof (induction n arbitrary: t)
    case 0
    have "\<not> end_ok opts (Ended p) e" for e by simp
    with 0 assms reach_ok [OF assms(1)] show ?case by (auto simp: phase_ok_def)
  next
    case (Suc n)
    then obtain u where u: "(sup_step opts Supervisor ^^ n) s u" "sup_step opts Supervisor u t" by auto
    from Suc.IH [OF u(1)] blocked_step [OF u(2) refl assms(2)] reach_ok u(2) show ?case
      by (blast intro: later)
  qed
  then show ?thesis by blast
qed

definition daemonized :: sup where
  "daemonized = just_exited\<lparr>writers := 1\<rparr>"

lemma daemonized_reached: "sup_reach sh_opts daemonized"
proof -
  let ?s1 = "act (Start_child ''sh'' []) None (sup_init\<lparr>phase := Started, child := Running\<rparr>)"
  have "sup_reach sh_opts ?s1"
    by (rule later [OF initial start]) (simp_all add: sup_init_def sh_opts_def)
  then have "sup_reach sh_opts (?s1\<lparr>writers := Suc (writers ?s1)\<rparr>)" by (rule later [OF _ child_forks]) simp
  then have "sup_reach sh_opts (?s1\<lparr>writers := Suc (writers ?s1), phase := Looping, notifying := True\<rparr>)"
    using later [OF _ notify [of "?s1\<lparr>writers := Suc (writers ?s1)\<rparr>" sh_opts]] by simp
  from later [OF this child_ends [of _ sh_opts "Exited 0"]] show ?thesis
    by (simp add: daemonized_def just_exited_def act_def sup_init_def)
qed

theorem daemon_blocks_reboot_witness: "\<nexists>e. phase daemonized = Over e"
  using daemon_blocks_reboot [OF daemonized_reached, of "Exited 0" 0 daemonized]
  by (simp add: daemonized_def just_exited_def act_def sup_init_def sh_opts_def)

section \<open>The reboot\<close>

fun below :: "string \<Rightarrow> call \<Rightarrow> bool" where
  "below oldRoot (Unmount m fl) = has_prefix m oldRoot"
| "below oldRoot _ = False"

lemma belowD: "below r c \<Longrightarrow> \<exists>m fl. c = Unmount m fl \<and> has_prefix m r"
  by (cases c) auto

lemma only_unmount_below: "\<forall>m \<in> set ms. has_prefix m r \<Longrightarrow> only (below r) (unmount_each fl ms)"
  by (induction ms) (auto intro!: hoare_rules)

lemma only_unmount_under: "only (below r) (unmount_under r fl)"
proof -
  have "only (below r) (unmount_each fl (under_root r ms))" for ms
    by (rule only_unmount_below) (simp add: under_root_def)
  then show ?thesis unfolding unmount_under_def read_mount_targets_def by (intro hoare_rules)
qed

lemma only_unmount_old_root: "only (below r) (unmount_old_root r)"
  unfolding unmount_old_root_def
  by (rule only_bind [OF only_unmount_under])
     (auto split: sum.split list.split intro: only_ret only_unmount_under)

text \<open>The reboot closes the disks first: after five seconds for the logs it syncs, unmounts only
  mounts of the old root, syncs again, and then restarts the machine, whatever any of these
  answers; without an old root nothing is unmounted, and if the restart comes back the process
  exits.\<close>

theorem reboot_closes_disks:
  "\<exists>us. calls (snd (reboot_system oldRoot w h)) =
      calls h @ [Sleep_ns 5000000000, Sync_disks] @ us @ (if oldRoot = [] then [] else [Sync_disks]) @
      [Reboot_machine, Exit_process 1] \<and>
    (\<forall>c \<in> set us. \<exists>m fl. c = Unmount m fl \<and> has_prefix m oldRoot) \<and> (oldRoot = [] \<longrightarrow> us = [])"
proof (cases "oldRoot = []")
  case True
  then show ?thesis by (intro exI [of _ "[]"]) (simp add: reboot_system_def do_reboot_def bind_io_def ret_def)
next
  case False
  let ?h = "h @ [(Sleep_ns 5000000000, err_of w h (Sleep_ns 5000000000)),
      (Sync_disks, err_of w (h @ [(Sleep_ns 5000000000, err_of w h (Sleep_ns 5000000000))]) Sync_disks)]"
  obtain r h1 where u: "unmount_old_root oldRoot w ?h = (r, h1)" by (cases "unmount_old_root oldRoot w ?h")
  then obtain new where n: "h1 = ?h @ new" "\<forall>ev \<in> set new. below oldRoot (fst ev)"
    using only_extends [OF only_unmount_old_root] by blast
  have "\<forall>c \<in> set (map fst new). \<exists>m fl. c = Unmount m fl \<and> has_prefix m oldRoot"
    using n(2) belowD by fastforce
  with False u n(1) show ?thesis
    by (intro exI [of _ "map fst new"]) (simp add: reboot_system_def do_reboot_def bind_io_def ret_def calls_def)
qed

theorem reboot_closes_disks_witness:
  "\<exists>us. calls (snd (reboot_system [] calm [])) = [Sleep_ns 5000000000, Sync_disks] @ us @ [Reboot_machine, Exit_process 1] \<and> us = []"
  using reboot_closes_disks [of "[]" calm "[]"] by auto

end
