(* ===== verification/PostPivotProofs.thy ===== *)
theory PostPivotProofs
  imports PostPivot SuperviseProofs PivotWatchdog
begin

text \<open>
  The program after the pivot: it carries out what the pivot planned, removes the secrets before
  anything else runs, and in two cases gives up without bringing the machine back.
\<close>

section \<open>The shape of the start-up\<close>

fun device_call :: "call \<Rightarrow> bool" where
  "device_call (Mknod _ _ _ _) = True"
| "device_call (Mkdir_all d _) = (d = ''/dev/net'')"
| "device_call _ = False"

text \<open>The calls of the stages after the configuration has been read and removed.\<close>

fun stage_call :: "call \<Rightarrow> bool" where
  "stage_call Open_netfilter = True"
| "stage_call Flush_firewall = True"
| "stage_call (Mkdir_all _ _) = True"
| "stage_call (Open_append _) = True"
| "stage_call (Add_log_sink _) = True"
| "stage_call (Adopt_watchdog _ _) = True"
| "stage_call (Tailnet_up _) = True"
| "stage_call Tailnet_close = True"
| "stage_call (Announce_password _) = True"
| "stage_call Start_sshd = True"
| "stage_call _ = False"

lemma only_devices: "only device_call ensure_device_nodes"
  unfolding ensure_device_nodes_def ensure_device_def by (intro hoare_rules) simp_all

lemma quiet_load: "quiet (load_config codec)"
  unfolding load_config_def by (intro quiet_bind quiet_ask quiet_ret)

lemma only_stages:
  "only stage_call (firewall_stage cfg)" "only stage_call (log_stage cfg)"
  "only stage_call (watchdog_stage cfg)" "only stage_call (tailnet_stage cfg)"
  "only stage_call (sshd_stage cfg)"
proof -
  show "only stage_call (firewall_stage cfg)"
    unfolding firewall_stage_def flush_firewall_def by (intro hoare_rules) simp_all
  show "only stage_call (log_stage cfg)"
    unfolding log_stage_def open_logs_def by (intro hoare_rules) simp_all
  show "only stage_call (watchdog_stage cfg)"
    unfolding watchdog_stage_def adopt_inherited_watchdog_def by (intro hoare_rules) simp_all
  show "only stage_call (tailnet_stage cfg)"
    unfolding tailnet_stage_def join_tailnet_def new_post_pivot_server_def by (intro hoare_rules) simp_all
  show "only stage_call (sshd_stage cfg)"
    unfolding sshd_stage_def start_sshd_def by (intro hoare_rules) simp_all
qed

definition loaded_config :: "json_codec \<Rightarrow> world \<Rightarrow> history \<Rightarrow> post_config option" where
  "loaded_config codec w h = (case fst (load_config codec w h) of Inr c \<Rightarrow> c | Inl _ \<Rightarrow> None)"

lemma run_init_split:
  assumes "run_init codec argv w h = (r, h')"
  obtains h1 where "ensure_device_nodes w h = ((), h1)"
    "run_services (loaded_config codec w h1) argv w (h1 @ [(Unlink ConfigPath, err_of w h1 (Unlink ConfigPath))]) = (r, h')"
proof -
  obtain h1 where d: "ensure_device_nodes w h = ((), h1)" by (metis (full_types) old.unit.exhaust prod.exhaust)
  have "load_config codec w h1 = (fst (load_config codec w h1), h1)" using quietD [OF quiet_load] .
  with assms d that show ?thesis
    by (auto simp: run_init_def bind_io_eq loaded_config_def)
qed

lemma run_services_result:
  assumes "run_services cfg argv w h = ((l, sv), h')"
  shows "\<exists>logging. l = choose_launch cfg argv logging"
    "\<exists>h3 h4. watchdog_stage cfg w h3 = (watchdog_held sv, h4)"
  using assms unfolding run_services_def bind_io_eq by (auto, blast)

lemma only_run_services: "only stage_call (run_services cfg argv)"
  unfolding run_services_def by (intro hoare_rules only_stages)

text \<open>C21: The secrets do not outlive the start-up. Whatever is configured, the file with the SSH password
  and the Tailscale key is removed, or its removal attempted, as soon as it has been read: only
  device nodes are made before, and the firewall, the logs, the tailnet, sshd come after; no
  program is started yet.\<close>

theorem secrets_removed_first:
  "\<exists>pre post r. calls (snd (run_init codec argv w h)) = calls h @ pre @ Unlink ConfigPath # post \<and>
    (\<forall>c \<in> set pre. (\<exists>p a b m. c = Mknod p a b m) \<or> (\<exists>m. c = Mkdir_all ''/dev/net'' m)) \<and>
    (\<forall>c \<in> set post. \<forall>p args. c \<noteq> Start_child p args)"
proof -
  obtain r h' where run: "run_init codec argv w h = (r, h')" by (cases "run_init codec argv w h")
  then obtain h1 where h1: "ensure_device_nodes w h = ((), h1)"
      "run_services (loaded_config codec w h1) argv w (h1 @ [(Unlink ConfigPath, err_of w h1 (Unlink ConfigPath))]) = (r, h')"
    using run_init_split by blast
  obtain n1 where n1: "h1 = h @ n1" "\<forall>ev \<in> set n1. device_call (fst ev)" using only_extends [OF only_devices h1(1)] by blast
  obtain n2 where n2: "h' = (h1 @ [(Unlink ConfigPath, err_of w h1 (Unlink ConfigPath))]) @ n2"
      "\<forall>ev \<in> set n2. stage_call (fst ev)" using only_extends [OF only_run_services h1(2)] by blast
  have "device_call c \<Longrightarrow> (\<exists>p a b m. c = Mknod p a b m) \<or> (\<exists>m. c = Mkdir_all ''/dev/net'' m)" for c
    by (cases c) auto
  then have "\<forall>c \<in> set (map fst n1). (\<exists>p a b m. c = Mknod p a b m) \<or> (\<exists>m. c = Mkdir_all ''/dev/net'' m)"
    using n1(2) by auto
  moreover have "\<forall>c \<in> set (map fst n2). \<forall>p args. c \<noteq> Start_child p args"
    using n2(2) by fastforce
  ultimately show ?thesis
    using run n1(1) n2(1) by (intro exI [of _ "map fst n1"] exI [of _ "map fst n2"]) (simp add: calls_def)
qed

theorem secrets_removed_first_witness:
  "\<exists>pre post. calls (snd (run_init \<lparr>json_print = (\<lambda>v. ''{}''), json_parse = (\<lambda>s. None)\<rparr> [] calm [])) =
    pre @ Unlink ConfigPath # post"
  using secrets_removed_first [of "\<lparr>json_print = (\<lambda>v. ''{}''), json_parse = (\<lambda>s. None)\<rparr>" "[]" calm "[]"] by auto

section \<open>The plan made before the pivot is carried out\<close>

lemma quot_seconds: "quot t 1000000000 > 0 \<longleftrightarrow> t \<ge> 1000000000"
  by (cases "t < 0") (auto simp: quot_def pos_imp_zdiv_pos_iff)

lemma quot_second_range: "in_range (quot (sint (t :: 64 word)) (sint second))"
proof -
  have "sint second = 1000000000" by (simp add: second_def)
  moreover have "- (2 ^ 63) \<le> sint t" "sint t < 2 ^ 63" using sint_greater_eq [of t] sint_less [of t] by simp_all
  ultimately show ?thesis
    by (cases "sint t < 0") (auto simp: quot_def in_range_def int_min_def int_max_def)
qed

lemma post_config_range:
  "in_range (WatchdogTimeoutSeconds (build_postpivot_config cfg ep ea))"
  "\<forall>s. SSH (build_postpivot_config cfg ep ea) = Some s \<longrightarrow> in_range (Port s)"
proof -
  show "in_range (WatchdogTimeoutSeconds (build_postpivot_config cfg ep ea))"
    by (simp add: build_postpivot_config_def quot_second_range)
  have "uint (ssh_port cfg) < 65536" using unsigned_less [of "ssh_port cfg", where ?'a = int] by simp
  moreover have "- 9223372036854775808 \<le> uint (ssh_port cfg)" by (rule order_trans [OF _ unsigned_greater_eq]) simp
  ultimately show "\<forall>s. SSH (build_postpivot_config cfg ep ea) = Some s \<longrightarrow> in_range (Port s)"
    by (auto simp: build_postpivot_config_def in_range_def int_min_def int_max_def)
qed

text \<open>The file the pivot wrote is the one in the new root, and the JSON library reads it back.\<close>

definition config_left :: "json_codec \<Rightarrow> world \<Rightarrow> post_config \<Rightarrow> bool" where
  "config_left codec w pc \<longleftrightarrow>
     (\<forall>h. file_text w h ConfigPath = Inr (json_print codec (encode_config pc))) \<and>
     json_parse codec (json_print codec (encode_config pc)) = Some (encode_config pc)"

lemma loaded_config_left:
  "config_left codec w (build_postpivot_config cfg ep ea) \<Longrightarrow>
    loaded_config codec w h = Some (build_postpivot_config cfg ep ea)"
  using load_config_written [OF _ _ post_config_range] by (simp add: config_left_def loaded_config_def)

lemma watchdog_stage_result:
  assumes "watchdog_stage (Some pc) w h = (held, h')" "env_var w WatchdogFDEnv = format_uint fd" "fd < 2 ^ 63"
  shows "held \<longleftrightarrow> WatchdogTimeoutSeconds pc > 0"
    "held \<Longrightarrow> Adopt_watchdog (int fd) (duration_of_seconds (WatchdogTimeoutSeconds pc)) \<in> set (calls h')"
  using assms(1) atoi_format [OF assms(3)]
  by (auto simp: watchdog_stage_def adopt_inherited_watchdog_def bind_io_eq assms(2) split: if_splits)

lemma run_services_watchdog:
  assumes "run_services cfg argv w h = ((l, sv), h')"
  obtains h3 h4 post where "watchdog_stage cfg w h3 = (watchdog_held sv, h4)" "h' = h4 @ post"
proof -
  from assms obtain h3 a h4 b h5 where s: "watchdog_stage cfg w h3 = (a, h4)" "tailnet_stage cfg w h4 = (b, h5)"
      "sshd_stage cfg w h5 = ((), h')" "sv = \<lparr>watchdog_held = a, tailnet_joined = b\<rparr>"
    unfolding run_services_def bind_io_eq by auto
  with only_extends [OF only_stages(4) s(2)] only_extends [OF only_stages(5) s(3)] that show ?thesis
    by auto
qed

lemma run_init_watchdog:
  assumes "run_init codec argv w h = ((l, sv), h')"
  obtains h1 h3 h4 post where "watchdog_stage (loaded_config codec w h1) w h3 = (watchdog_held sv, h4)" "h' = h4 @ post"
    "\<exists>logging. l = choose_launch (loaded_config codec w h1) argv logging"
proof -
  from run_init_split [OF assms] obtain h1 where h1: "run_services (loaded_config codec w h1) argv w
      (h1 @ [(Unlink ConfigPath, err_of w h1 (Unlink ConfigPath))]) = ((l, sv), h')" by blast
  from run_services_watchdog [OF this] run_services_result(1) [OF this] that show ?thesis by metis
qed

lemma duration_exact:
  assumes "0 \<le> s * 1000000000" "s * 1000000000 < 2 ^ 63"
  shows "duration_of_seconds s = s * 1000000000"
proof -
  have "signed_take_bit 63 (s * 1000000000) = s * 1000000000"
    using assms by (intro signed_take_bit_int_eq_self) auto
  then show ?thesis unfolding duration_of_seconds_def signed_of_int by simp
qed

lemma whole_seconds:
  assumes "t \<ge> 1000000000" "t < 2 ^ 63"
  shows "duration_of_seconds (quot t 1000000000) = t div 1000000000 * 1000000000"
proof -
  have "t div 1000000000 * 1000000000 \<le> t" by simp
  then show ?thesis using assms by (simp add: quot_def duration_exact pos_imp_zdiv_nonneg_iff)
qed

text \<open>C9: What the pivot planned is what the supervisor does. When the file the pivot wrote is the one in
  the new root and the watchdog's descriptor is in the environment, then whatever the device
  nodes, the firewall, the logs, the tailnet and sshd answer, the supervisor runs exactly the
  entrypoint and arguments chosen before the pivot, told to reboot when it exits and to unmount
  the kept old root, or serves until a signal when they are its own idle command; and it takes
  over the watchdog, with the timeout in whole seconds, exactly when one of at least a second was
  asked for.\<close>

theorem pivot_plan_carried_out:
  assumes "config_left codec w (build_postpivot_config cfg ep ea)"
    "env_var w WatchdogFDEnv = format_uint fd" "fd < 2 ^ 63"
    "run_init codec argv w h = ((l, sv), h')"
  shows "(\<exists>logging. l = (if ep = BinaryPath \<and> ea = [''idle''] then Serve_until_signal
      else Supervised \<lparr>SupArgv = ep # ea, SupEnv = None, SupRebootOnExit = True,
        OldRootPath = KeepOldRoot cfg, LogWriter = logging\<rparr>)) \<and>
    (watchdog_held sv \<longleftrightarrow> sint (WatchdogTimeout cfg) \<ge> 1000000000) \<and>
    (watchdog_held sv \<longrightarrow>
      Adopt_watchdog (int fd) (sint (WatchdogTimeout cfg) div 1000000000 * 1000000000) \<in> set (calls h'))"
proof -
  let ?pc = "build_postpivot_config cfg ep ea" and ?t = "sint (WatchdogTimeout cfg)"
  obtain h1 h3 h4 post logging where r: "watchdog_stage (Some ?pc) w h3 = (watchdog_held sv, h4)" "h' = h4 @ post"
      "l = choose_launch (Some ?pc) argv logging"
    using run_init_watchdog [OF assms(4)] loaded_config_left [OF assms(1)] by metis
  have s: "WatchdogTimeoutSeconds ?pc = quot ?t 1000000000"
    by (simp add: build_postpivot_config_def second_def)
  note g = watchdog_stage_result [OF r(1) assms(2,3)]
  have "?t < 2 ^ 63" using sint_less [of "WatchdogTimeout cfg"] by simp
  with g r(2) s quot_seconds [of ?t] whole_seconds [of ?t] have
    "watchdog_held sv \<longleftrightarrow> ?t \<ge> 1000000000"
    "watchdog_held sv \<longrightarrow> Adopt_watchdog (int fd) (?t div 1000000000 * 1000000000) \<in> set (calls h')"
    by auto
  with r(3) show ?thesis
    by (auto simp: choose_launch_def supervised_argv_def build_postpivot_config_def Let_def)
qed

text \<open>A machine on which the plan of the trial configuration has arrived.\<close>

definition trial_codec :: "post_config \<Rightarrow> json_codec" where
  "trial_codec pc = \<lparr>json_print = (\<lambda>v. ''{}''), json_parse = (\<lambda>s. Some (encode_config pc))\<rparr>"

definition pivoted_world :: world where
  "pivoted_world = calm\<lparr>file_text := (\<lambda>h p. Inr ''{}''),
     env_var := (\<lambda>v. if v = WatchdogFDEnv then ''7'' else [])\<rparr>"

lemma config_left_trial: "config_left (trial_codec pc) pivoted_world pc"
  by (simp add: config_left_def trial_codec_def pivoted_world_def)

lemma pivoted_env: "env_var pivoted_world WatchdogFDEnv = format_uint 7"
proof -
  have "format_uint 7 = ''7''" by code_simp
  then show ?thesis by (simp add: pivoted_world_def)
qed

lemma run_init_result: "\<exists>l sv h'. run_init codec argv w h = ((l, sv), h')"
  by (metis prod.exhaust)

theorem pivot_plan_carried_out_witness:
  "\<exists>l sv h'. run_init (trial_codec (build_postpivot_config trial_config ''/sbin/init'' [])) [] pivoted_world [] = ((l, sv), h') \<and>
    watchdog_held sv"
proof -
  obtain l sv h' where r: "run_init (trial_codec (build_postpivot_config trial_config ''/sbin/init'' [])) []
      pivoted_world [] = ((l, sv), h')" using run_init_result by blast
  have "watchdog_held sv"
    using pivot_plan_carried_out [OF config_left_trial pivoted_env _ r] by simp
  with r show ?thesis by blast
qed

section \<open>Giving up without a reboot\<close>

fun deferred_call :: "call \<Rightarrow> bool" where
  "deferred_call Tailnet_close = True"
| "deferred_call (Watchdog_write _) = True"
| "deferred_call Watchdog_close = True"
| "deferred_call _ = False"

lemma only_deferred: "only deferred_call (run_deferred sv)"
  unfolding run_deferred_def disarm_def by (intro hoare_rules) simp_all

definition no_reboot :: "history \<Rightarrow> history \<Rightarrow> bool" where
  "no_reboot h h' \<longleftrightarrow> (\<exists>new. h' = h @ new \<and> Reboot_machine \<notin> set (calls new))"

lemma only_no_reboot:
  assumes "only S m" "\<And>c. S c \<Longrightarrow> c \<noteq> Reboot_machine" "m w h = (r, h')"
  shows "no_reboot h h'"
proof -
  obtain new where "h' = h @ new" "\<forall>ev \<in> set new. S (fst ev)" using only_extends [OF assms(1,3)] by blast
  with assms(2) show ?thesis by (force simp: no_reboot_def calls_def)
qed

lemma no_reboot_trans: "no_reboot h h1 \<Longrightarrow> no_reboot h1 h2 \<Longrightarrow> no_reboot h h2"
  by (auto simp: no_reboot_def)

lemma run_init_no_reboot: "run_init codec argv w h = (r, h') \<Longrightarrow> no_reboot h h'"
proof -
  assume "run_init codec argv w h = (r, h')"
  moreover have "only (\<lambda>c. device_call c \<or> c = Unlink ConfigPath \<or> stage_call c) (run_init codec argv)"
    unfolding run_init_def
    by (intro only_bind only_attempt only_weaken [OF only_devices] only_weaken [OF only_run_services]
        quiet_only [OF quiet_load]) simp_all
  ultimately show "no_reboot h h'" by (rule only_no_reboot [rotated 2]) auto
qed

lemma run_deferred_end:
  assumes "run_deferred sv w h = (u, h')" "watchdog_held sv" "disarms w"
  shows "no_reboot h h' \<and> dog_after h' = Idle"
proof -
  have "no_reboot h h'" by (rule only_no_reboot [OF only_deferred _ assms(1)]) auto
  moreover have "dog_after h' = Idle"
    using assms disarm_dog [OF assms(3)] by (auto simp: run_deferred_def bind_io_eq)
  ultimately show ?thesis by simp
qed

lemma run_main_ends:
  assumes "run_init codec argv w h = ((l, sv), h1)" "watchdog_held sv" "disarms w" "ending \<noteq> Rebooting"
  shows "\<exists>h2. run_main codec argv ending w h = (Exit (case l of No_entrypoint \<Rightarrow> 1 | Serve_until_signal \<Rightarrow> 0
      | Supervised _ \<Rightarrow> run_code ending), h2) \<and> no_reboot h h2 \<and> dog_after h2 = Idle"
proof -
  obtain h2 where d: "run_deferred sv w h1 = ((), h2)" by (metis (full_types) old.unit.exhaust prod.exhaust)
  have "run_main codec argv ending w h = (Exit (case l of No_entrypoint \<Rightarrow> 1 | Serve_until_signal \<Rightarrow> 0
      | Supervised _ \<Rightarrow> run_code ending), h2)"
    using assms(1,4) d
    by (cases l; cases ending) (simp_all add: run_main_def bind_io_def ret_def)
  with run_deferred_end [OF d assms(2,3)] run_init_no_reboot [OF assms(1)] no_reboot_trans
  show ?thesis by blast
qed

text \<open>C37: An entrypoint that cannot be executed strands the machine. The supervisor, though told to
  reboot on exit, returns 127 when the program cannot be started; the process then ends without
  a reboot, and its deferred \<open>Close\<close> has disarmed the watchdog that would have reset the machine.\<close>

theorem missing_entrypoint_strands:
  assumes "run_init codec argv w h = ((Supervised opts, sv), h1)" "SupRebootOnExit opts"
    "watchdog_held sv" "disarms w"
  shows "\<exists>s ending h2. sup_reach opts s \<and> phase s = Over ending \<and>
    run_main codec argv ending w h = (Exit 127, h2) \<and> no_reboot h h2 \<and> dog_after h2 = Idle"
proof -
  obtain cfg logging where "Supervised opts = choose_launch cfg argv logging"
    using run_init_watchdog [OF assms(1)] by metis
  then obtain p args where p: "SupArgv opts = p # args"
    by (cases "SupArgv opts") (auto simp: choose_launch_def Let_def split: if_splits)
  let ?e = "Returned 127 (Some (StartFailed ENOENT))"
  have "sup_reach opts (act (Start_child p args) (Some ENOENT) (sup_init\<lparr>phase := Over ?e\<rparr>))"
    by (rule later [OF initial start_fails [OF _ p]]) (simp add: sup_init_def)
  moreover have "\<exists>h2. run_main codec argv ?e w h = (Exit 127, h2) \<and> no_reboot h h2 \<and> dog_after h2 = Idle"
    using run_main_ends [OF assms(1,3,4), of ?e] by (simp add: run_code_def)
  ultimately show ?thesis by (intro exI [of _ "act (Start_child p args) (Some ENOENT) (sup_init\<lparr>phase := Over ?e\<rparr>)"]
      exI [of _ ?e]) simp
qed

lemma pivoted_disarms: "disarms pivoted_world"
  by (simp add: disarms_def pivoted_world_def calm_def)

abbreviation trial_post :: "string list \<Rightarrow> post_config" where
  "trial_post ep \<equiv> build_postpivot_config trial_config (hd ep) (tl ep)"

lemma trial_launch:
  assumes "ep \<noteq> []" "run_init (trial_codec (trial_post ep)) [] pivoted_world [] = ((l, sv), h)"
  shows "watchdog_held sv" "\<exists>logging. l = choose_launch (Some (trial_post ep)) [] logging"
proof -
  obtain h1 h3 h4 logging where r: "watchdog_stage (Some (trial_post ep)) pivoted_world h3 = (watchdog_held sv, h4)"
      "l = choose_launch (Some (trial_post ep)) [] logging"
    using run_init_watchdog [OF assms(2)] loaded_config_left [OF config_left_trial] by metis
  have "WatchdogTimeoutSeconds (trial_post ep) > 0" by (simp add: build_postpivot_config_def quot_def second_def)
  with watchdog_stage_result(1) [OF r(1) pivoted_env] show "watchdog_held sv" by simp
  from r(2) show "\<exists>logging. l = choose_launch (Some (trial_post ep)) [] logging" by blast
qed

theorem missing_entrypoint_strands_witness:
  "\<exists>opts s ending h2. sup_reach opts s \<and> phase s = Over ending \<and>
    run_main (trial_codec (trial_post [''/sbin/init''])) [] ending pivoted_world [] = (Exit 127, h2) \<and>
    no_reboot [] h2 \<and> dog_after h2 = Idle"
proof -
  obtain l sv h' where r: "run_init (trial_codec (trial_post [''/sbin/init''])) [] pivoted_world [] = ((l, sv), h')"
    using run_init_result by blast
  note t = trial_launch [OF _ r]
  then obtain logging where l: "l = choose_launch (Some (trial_post [''/sbin/init''])) [] logging" by auto
  then obtain opts where o: "l = Supervised opts" "SupRebootOnExit opts"
    by (auto simp: choose_launch_def supervised_argv_def build_postpivot_config_def Let_def BinaryPath_def)
  from missing_entrypoint_strands [OF r [unfolded o(1)] o(2) _ pivoted_disarms] t(1) show ?thesis by blast
qed

text \<open>Idling ends without a reboot. With the supervisor's own idle command as entrypoint, told to
  reboot on exit, the process serves until a signal and then exits with 0, without a reboot and
  with the watchdog disarmed; a supervised program given the same options ends only in the reboot.\<close>

theorem idle_ends_without_reboot:
  assumes "config_left codec w (build_postpivot_config cfg BinaryPath [''idle''])"
    "env_var w WatchdogFDEnv = format_uint fd" "fd < 2 ^ 63" "sint (WatchdogTimeout cfg) \<ge> 1000000000"
    "disarms w" "ending \<noteq> Rebooting"
  shows "\<exists>h2. run_main codec argv ending w h = (Exit 0, h2) \<and> no_reboot h h2 \<and> dog_after h2 = Idle"
proof -
  let ?pc = "build_postpivot_config cfg BinaryPath [''idle'']"
  obtain l sv h' where r: "run_init codec argv w h = ((l, sv), h')" using run_init_result by blast
  obtain h1 h3 h4 logging where s: "watchdog_stage (Some ?pc) w h3 = (watchdog_held sv, h4)"
      "l = choose_launch (Some ?pc) argv logging"
    using run_init_watchdog [OF r] loaded_config_left [OF assms(1)] by metis
  have "l = Serve_until_signal"
    by (simp add: s(2) choose_launch_def supervised_argv_def build_postpivot_config_def)
  moreover have "watchdog_held sv"
    using watchdog_stage_result(1) [OF s(1) assms(2,3)] quot_seconds assms(4)
    by (simp add: build_postpivot_config_def second_def)
  ultimately show ?thesis using run_main_ends [OF r _ assms(5,6)] by simp
qed

theorem idle_ends_without_reboot_witness:
  "\<exists>h2. run_main (trial_codec (build_postpivot_config trial_config BinaryPath [''idle''])) [] (Returned 0 None)
      pivoted_world [] = (Exit 0, h2) \<and> no_reboot [] h2 \<and> dog_after h2 = Idle"
  by (rule idle_ends_without_reboot [OF config_left_trial pivoted_env _ _ pivoted_disarms]) simp_all

end
