(* ===== verification/Sshd.thy ===== *)
theory Sshd
  imports PostConfig Supervise
begin

text \<open>
  The SSH server of the new root (\<open>internal/postpivot/sshd_linux.go\<close>): the listeners, who may log
  in, and the requests of a session. The protocol, the terminals and the decoding of keys and
  request payloads belong to libraries and are parameters.
\<close>

section \<open>Who may log in\<close>

text \<open>A public key is the byte string it marshals to.\<close>

type_synonym public_key = string

record pty_req_msg =
  Term :: string
  Cols :: u32
  Rows :: u32
  Width :: u32
  Height :: u32

record ssh_library =
  parse_key :: "string \<Rightarrow> public_key option" \<comment> \<open>\<open>ssh.ParseAuthorizedKey\<close>\<close>
  pty_payload :: "string \<Rightarrow> pty_req_msg option" \<comment> \<open>\<open>ssh.Unmarshal\<close>, by message type\<close>
  env_payload :: "string \<Rightarrow> (string \<times> string) option"
  exec_payload :: "string \<Rightarrow> string option"
  winch_payload :: "string \<Rightarrow> (u32 \<times> u32 \<times> u32 \<times> u32) option" \<comment> \<open>columns, rows, width, height\<close>

datatype sshd_error = BadKeyLine nat | NoAuthMethod | HostKey errno | NoListeners

fun parse_key_lines :: "ssh_library \<Rightarrow> nat \<Rightarrow> string list \<Rightarrow> (sshd_error, public_key list) res" where
  "parse_key_lines lib i [] = Inr []"
| "parse_key_lines lib i (l # ls) =
     (let line = trim_space l
      in if line = [] \<or> has_prefix line ''#'' then parse_key_lines lib (Suc i) ls
         else case parse_key lib line of
           None \<Rightarrow> Inl (BadKeyLine (i + 1))
         | Some k \<Rightarrow> map_sum id ((#) k) (parse_key_lines lib (Suc i) ls))"

definition parse_authorized_keys :: "ssh_library \<Rightarrow> string \<Rightarrow> (sshd_error, public_key list) res" where
  "parse_authorized_keys lib s = parse_key_lines lib 0 (split_byte CHR 0x0A s)"

record server_config =
  PublicKeyCallback :: "(public_key \<Rightarrow> bool) option"
  PasswordCallback :: "(string \<Rightarrow> bool) option"

definition public_key_callback :: "public_key list \<Rightarrow> (public_key \<Rightarrow> bool) option" where
  "public_key_callback keys = (if keys \<noteq> [] then Some (\<lambda>k. list_ex (\<lambda>want. k = want) keys) else None)"

definition password_callback :: "string \<Rightarrow> (string \<Rightarrow> bool) option" where
  "password_callback pw = (if pw \<noteq> [] then Some (\<lambda>got. pw = got) else None)"

definition build_server_config :: "ssh_library \<Rightarrow> ssh_config \<Rightarrow> (sshd_error, server_config) res io" where
  "build_server_config lib cfg =
     (case parse_authorized_keys lib (AuthorizedKeys cfg) of
        Inl e \<Rightarrow> ret (Inl e)
      | Inr keys \<Rightarrow>
          (let sc = \<lparr>PublicKeyCallback = public_key_callback keys, PasswordCallback = password_callback (Password cfg)\<rparr>
           in if PublicKeyCallback sc = None \<and> PasswordCallback sc = None then ret (Inl NoAuthMethod)
              else check (do_call Generate_host_key) HostKey (ret (Inr sc))))"

text \<open>The library asks the callback of the method the client uses, if there is one.\<close>

datatype credential = Key public_key | Password_given string

fun admits :: "server_config \<Rightarrow> credential \<Rightarrow> bool" where
  "admits sc (Key k) = (case PublicKeyCallback sc of None \<Rightarrow> False | Some f \<Rightarrow> f k)"
| "admits sc (Password_given p) = (case PasswordCallback sc of None \<Rightarrow> False | Some f \<Rightarrow> f p)"

section \<open>Listening\<close>

definition sshd_port :: "ssh_config \<Rightarrow> int" where
  "sshd_port cfg = (if Port cfg = 0 then 22 else Port cfg)"

definition listen_addr :: "ssh_config \<Rightarrow> string" where
  "listen_addr cfg = '':'' @ format_int (sshd_port cfg)"

text \<open>One listener: its network's name when it could be bound.\<close>

definition try_listen :: "string \<Rightarrow> string \<Rightarrow> string list io" where
  "try_listen network addr =
     bind_io (do_call (Listen network addr)) (\<lambda>r. ret (if r = None then [network] else []))"

definition close_listener :: "string \<Rightarrow> unit io" where
  "close_listener l = attempt (Close_listener l) (ret ())"

definition serve_ssh :: "ssh_library \<Rightarrow> string list \<Rightarrow> ssh_config \<Rightarrow> (sshd_error, string list \<times> server_config) res io" where
  "serve_ssh lib listeners cfg =
     bind_io (build_server_config lib cfg) (\<lambda>r. case r of
       Inl e \<Rightarrow> bind_io (for_each close_listener listeners) (\<lambda>_. ret (Inl e))
     | Inr sc \<Rightarrow> ret (Inr (listeners, sc)))"

definition start_ssh_server ::
  "ssh_library \<Rightarrow> ssh_config \<Rightarrow> bool \<Rightarrow> (sshd_error, string list \<times> server_config) res io" where
  "start_ssh_server lib cfg tailnet =
     bind_io (try_listen ''tcp'' (listen_addr cfg)) (\<lambda>kernel.
     bind_io (if tailnet then try_listen ''tailnet'' (listen_addr cfg) else ret []) (\<lambda>tail.
     if kernel @ tail = [] then ret (Inl NoListeners)
     else serve_ssh lib (kernel @ tail) cfg))"

section \<open>Sessions\<close>

record winsize =
  ws_rows :: u16
  ws_cols :: u16
  ws_x :: u16
  ws_y :: u16

record session =
  session_term :: string
  session_env :: "string list"
  want_pty :: bool
  session_ws :: winsize

definition new_session :: session where
  "new_session = \<lparr>session_term = [], session_env = [], want_pty = False,
     session_ws = \<lparr>ws_rows = 0, ws_cols = 0, ws_x = 0, ws_y = 0\<rparr>\<rparr>"

type_synonym request = "string \<times> string" \<comment> \<open>type, payload\<close>

definition window :: "u32 \<Rightarrow> u32 \<Rightarrow> u32 \<Rightarrow> u32 \<Rightarrow> winsize" where
  "window cols rows width height =
     \<lparr>ws_rows = ucast rows, ws_cols = ucast cols, ws_x = ucast width, ws_y = ucast height\<rparr>"

text \<open>The loop of \<open>handleSession\<close>: the replies sent, and, when a request starts a program, its command
  line, the session so far and the requests left.\<close>

fun handle_requests ::
  "ssh_library \<Rightarrow> session \<Rightarrow> request list \<Rightarrow> bool list \<times> (string list \<times> session \<times> request list) option" where
  "handle_requests lib s [] = ([], None)"
| "handle_requests lib s ((kind, payload) # reqs) =
     (if kind = ''pty-req'' then
        (case pty_payload lib payload of
           None \<Rightarrow> map_prod ((#) False) id (handle_requests lib s reqs)
         | Some m \<Rightarrow> map_prod ((#) True) id
             (handle_requests lib
               (s\<lparr>session_term := Term m, session_ws := window (Cols m) (Rows m) (Width m) (Height m), want_pty := True\<rparr>)
               reqs))
      else if kind = ''env'' then
        map_prod ((#) True) id
          (handle_requests lib
            (case env_payload lib payload of
               None \<Rightarrow> s
             | Some (name, v) \<Rightarrow> s\<lparr>session_env := session_env s @ [name @ ''='' @ v]\<rparr>) reqs)
      else if kind = ''shell'' then ([True], Some ([''/bin/sh'', ''-l''], s, reqs))
      else if kind = ''exec'' then
        (case exec_payload lib payload of
           None \<Rightarrow> map_prod ((#) False) id (handle_requests lib s reqs)
         | Some cmd \<Rightarrow> ([True], Some ([''/bin/sh'', ''-c'', cmd], s, reqs)))
      else map_prod ((#) False) id (handle_requests lib s reqs))"

text \<open>\<open>exec.Cmd\<close> lets the last of several values for a name win.\<close>

definition session_environ :: "string list \<Rightarrow> session \<Rightarrow> string list" where
  "session_environ inherited s =
     inherited @ session_env s @ (if session_term s \<noteq> [] then [''TERM='' @ session_term s] else [])"

text \<open>The status sent to the client: 127 when the program does not start, \<open>ExitCode\<close> (-1 for a
  killed process) reduced to 32 bits, and 1 for any other error of \<open>Wait\<close>.\<close>

definition session_status :: "bool \<Rightarrow> wait_report \<Rightarrow> u32" where
  "session_status started r =
     (if \<not> started then 127
      else case r of
        (_, False) \<Rightarrow> 0
      | (Some (Exited c), True) \<Rightarrow> if c = 0 then 1 else of_int c
      | (Some _, True) \<Rightarrow> of_int (- 1)
      | (None, True) \<Rightarrow> 1)"

text \<open>While the program runs: each change of the window, and the reply, always a refusal.\<close>

fun handle_winch :: "ssh_library \<Rightarrow> bool \<Rightarrow> request list \<Rightarrow> winsize list \<times> bool list" where
  "handle_winch lib pty [] = ([], [])"
| "handle_winch lib pty ((kind, payload) # reqs) =
     map_prod
       (\<lambda>ws. if kind = ''window-change'' \<and> pty
             then (case winch_payload lib payload of
                     None \<Rightarrow> ws
                   | Some (cols, rows, width, height) \<Rightarrow> window cols rows width height # ws)
             else ws)
       ((#) False) (handle_winch lib pty reqs)"

end
