(* ===== verification/IdleServer.thy ===== *)
theory IdleServer
  imports Sshd
begin

text \<open>
  Serving until a signal (\<open>ServeUntilSignal\<close> of \<open>internal/postpivot/supervise.go\<close>) next to the
  sessions of sshd, which run in the same process. Both wait for children of the process: the
  sessions each for their own, the reaper for any.
\<close>

section \<open>Children and waiting\<close>

text \<open>The children of the process: running, or ended and not waited for.\<close>

type_synonym kids = "(int \<times> process_state option) list"

definition has_ended :: "int \<times> process_state option \<Rightarrow> bool" where
  "has_ended k = (snd k \<noteq> None)"

text \<open>\<open>wait4(-1, WNOHANG)\<close>: the first child that has ended, \<open>0\<close> when none has, an error without
  children.\<close>

definition wait4_any :: "kids \<Rightarrow> (errno, int \<times> kids) res" where
  "wait4_any ks =
     (if ks = [] then Inl ECHILD
      else case find has_ended ks of
        None \<Rightarrow> Inr (0, ks)
      | Some k \<Rightarrow> Inr (fst k, remove1 k ks))"

function reap_orphans :: "kids \<Rightarrow> kids" where
  "reap_orphans ks =
     (case wait4_any ks of
        Inl _ \<Rightarrow> ks
      | Inr (pid, ks') \<Rightarrow> if pid \<le> 0 then ks else reap_orphans ks')"
  by pat_completeness auto
termination
proof (relation "measure length")
  fix ks :: kids and r pid ks'
  assume a: "wait4_any ks = Inr r" "(pid, ks') = r" "\<not> pid \<le> 0"
  then obtain k where "find has_ended ks = Some k" "ks' = remove1 k ks"
    by (auto simp: wait4_any_def split: if_splits option.splits)
  then show "(ks', ks) \<in> measure length"
    by (auto simp: find_Some_iff length_remove1 intro!: Suc_le_lessD length_pos_if_in_set)
qed simp

declare reap_orphans.simps [simp del]

text \<open>Waiting for one child, as a session does: nothing while it runs, its end once, and an error when
  somebody else has waited for it.\<close>

definition wait_child :: "int \<Rightarrow> kids \<Rightarrow> (process_state option \<times> kids) option" where
  "wait_child pid ks =
     (case find (\<lambda>k. fst k = pid) ks of
        None \<Rightarrow> Some (None, ks)
      | Some (_, None) \<Rightarrow> None
      | Some (_, Some e) \<Rightarrow> Some (Some e, remove1 (pid, Some e) ks))"

text \<open>What a session makes of it.\<close>

definition report :: "process_state option \<Rightarrow> wait_report" where
  "report r = (r, r \<noteq> Some (Exited 0))"

text \<open>The kernel's note that a child has ended.\<close>

definition mark_exit :: "int \<Rightarrow> process_state \<Rightarrow> kids \<Rightarrow> kids" where
  "mark_exit pid e ks = map (\<lambda>k. if k = (pid, None) then (pid, Some e) else k) ks"

section \<open>The step relation\<close>

record idle =
  stopCh :: "signal_name chan"
  chldCh :: "signal_name chan"
  kids :: kids
  sessions :: "int list" \<comment> \<open>children sessions wait for\<close>
  sent :: "(int \<times> u32) list" \<comment> \<open>exit statuses sent to clients\<close>
  fate :: "int \<Rightarrow> process_state option" \<comment> \<open>how each child ended, a history variable\<close>
  stops :: "signal_name list" \<comment> \<open>the stop signals that arrived\<close>
  idle_result :: "int option"

definition idle_init :: idle where
  "idle_init = \<lparr>stopCh = make_chan 8, chldCh = make_chan 8, kids = [], sessions = [], sent = [],
     fate = (\<lambda>_. None), stops = [], idle_result = None\<rparr>"

inductive idle_step :: "idle \<Rightarrow> idle \<Rightarrow> bool" where
  stop_signal: "sg \<in> {SIGTERM, SIGINT} \<Longrightarrow>
    idle_step s (s\<lparr>stopCh := notify_send sg (stopCh s), stops := stops s @ [sg]\<rparr>)"
| orphan: "pid > 0 \<Longrightarrow> pid \<notin> fst ` set (kids s) \<Longrightarrow> fate s pid = None \<Longrightarrow>
    idle_step s (s\<lparr>kids := kids s @ [(pid, None)]\<rparr>)"
| session: "pid > 0 \<Longrightarrow> pid \<notin> fst ` set (kids s) \<Longrightarrow> fate s pid = None \<Longrightarrow>
    idle_step s (s\<lparr>kids := kids s @ [(pid, None)], sessions := pid # sessions s\<rparr>)"
| child_exits: "(pid, None) \<in> set (kids s) \<Longrightarrow>
    idle_step s (s\<lparr>kids := mark_exit pid e (kids s),
      fate := (fate s)(pid := Some e), chldCh := notify_send SIGCHLD (chldCh s)\<rparr>)"
| session_waits: "pid \<in> set (sessions s) \<Longrightarrow> wait_child pid (kids s) = Some (r, ks) \<Longrightarrow>
    idle_step s (s\<lparr>kids := ks, sessions := remove1 pid (sessions s),
      sent := sent s @ [(pid, session_status True (report r))]\<rparr>)"
| reap: "idle_result s = None \<Longrightarrow> chan_receive (chldCh s) = Some (sg, ch) \<Longrightarrow>
    idle_step s (s\<lparr>chldCh := ch, kids := reap_orphans (kids s)\<rparr>)"
| stop: "idle_result s = None \<Longrightarrow> chan_receive (stopCh s) = Some (sg, ch) \<Longrightarrow>
    idle_step s (s\<lparr>stopCh := ch, kids := reap_orphans (kids s), idle_result := Some 0\<rparr>)"

inductive idle_reach :: "idle \<Rightarrow> bool" where
  idle_start: "idle_reach idle_init"
| idle_next: "idle_reach s \<Longrightarrow> idle_step s t \<Longrightarrow> idle_reach t"

end
