(* ===== verification/SshdProofs.thy ===== *)
theory SshdProofs
  imports IdleServer Trial
begin

text \<open>
  Who the SSH server lets in, how a key file the pivot accepts can leave the new root without one,
  what a session answers, and what the reaper does to the exit statuses of sessions.
\<close>

section \<open>Logging in\<close>

text \<open>The lines that count, and the keys they give.\<close>

definition key_lines :: "string \<Rightarrow> string list" where
  "key_lines s = filter (\<lambda>l. l \<noteq> [] \<and> \<not> has_prefix l ''#'') (map trim_space (split_byte CHR 0x0A s))"

lemma parse_key_lines_Inr:
  "parse_key_lines lib i ls = Inr keys \<longleftrightarrow>
    map (parse_key lib) (filter (\<lambda>l. l \<noteq> [] \<and> \<not> has_prefix l ''#'') (map trim_space ls)) = map Some keys"
proof (induction ls arbitrary: i keys)
  case (Cons l ls)
  show ?case
  proof (cases "trim_space l = [] \<or> has_prefix (trim_space l) ''#''")
    case True
    with Cons show ?thesis by (auto simp: Let_def)
  next
    case False
    show ?thesis
    proof (cases "parse_key lib (trim_space l)")
      case None
      with False show ?thesis by (auto simp: Let_def)
    next
      case (Some k)
      with False Cons [of "Suc i"] show ?thesis
        by (cases "parse_key_lines lib (Suc i) ls") (auto simp: Let_def Cons_eq_map_conv)
    qed
  qed
qed auto

lemma parse_authorized_keys_Inr:
  "parse_authorized_keys lib s = Inr keys \<longleftrightarrow> map (parse_key lib) (key_lines s) = map Some keys"
  by (simp add: parse_authorized_keys_def parse_key_lines_Inr key_lines_def)

lemma build_server_config_Inr:
  assumes "build_server_config lib cfg w h = (Inr sc, h')"
  obtains keys where "map (parse_key lib) (key_lines (AuthorizedKeys cfg)) = map Some keys"
    "sc = \<lparr>PublicKeyCallback = public_key_callback keys, PasswordCallback = password_callback (Password cfg)\<rparr>"
    "keys \<noteq> [] \<or> Password cfg \<noteq> []"
  using assms
  by (auto simp: build_server_config_def check_Inr parse_authorized_keys_Inr Let_def public_key_callback_def
      password_callback_def split: sum.splits if_splits)

text \<open>C20: Only the configured credentials open the machine. A server that starts admits a password exactly
  when it is the configured one, which is then not empty, and a key exactly when a line of the
  authorized keys that is neither blank nor a comment reads as it; and it starts only with at
  least one such credential, all lines having been read.\<close>

theorem sshd_admits_only:
  assumes "build_server_config lib cfg w h = (Inr sc, h')"
  shows "(admits sc (Password_given p) \<longleftrightarrow> p = Password cfg \<and> p \<noteq> []) \<and>
    (admits sc (Key k) \<longleftrightarrow> Some k \<in> parse_key lib ` set (key_lines (AuthorizedKeys cfg))) \<and>
    None \<notin> parse_key lib ` set (key_lines (AuthorizedKeys cfg)) \<and> (\<exists>c. admits sc c)"
proof -
  obtain keys where k: "map (parse_key lib) (key_lines (AuthorizedKeys cfg)) = map Some keys"
    "sc = \<lparr>PublicKeyCallback = public_key_callback keys, PasswordCallback = password_callback (Password cfg)\<rparr>"
    "keys \<noteq> [] \<or> Password cfg \<noteq> []"
    using build_server_config_Inr [OF assms] by metis
  have s: "parse_key lib ` set (key_lines (AuthorizedKeys cfg)) = Some ` set keys"
    using arg_cong [OF k(1), of set] by simp
  have key: "admits sc (Key k) \<longleftrightarrow> k \<in> set keys" for k
    by (auto simp: k(2) public_key_callback_def list_ex_iff)
  have pw: "admits sc (Password_given p) \<longleftrightarrow> p = Password cfg \<and> p \<noteq> []" for p
    by (auto simp: k(2) password_callback_def)
  have "\<exists>c. admits sc c" using k(3) key [of "hd keys"] pw [of "Password cfg"] hd_in_set by blast
  with s key pw show ?thesis by auto
qed

definition some_ssh :: ssh_library where
  "some_ssh = \<lparr>parse_key = (\<lambda>l. if l = ''ssh-ed25519 AAAA'' then Some ''AAAA'' else None),
     pty_payload = (\<lambda>_. None), env_payload = (\<lambda>_. None), exec_payload = Some, winch_payload = (\<lambda>_. None)\<rparr>"

definition password_only :: ssh_config where
  "password_only = \<lparr>Port = 22, Password = ''acorn'', PasswordGenerated = False, AuthorizedKeys = []\<rparr>"

lemma key_lines_empty: "key_lines [] = []"
proof -
  have "trim_space [] = []" by code_simp
  then show ?thesis by (simp add: key_lines_def)
qed

theorem sshd_admits_only_witness:
  "\<exists>sc h'. build_server_config some_ssh password_only calm [] = (Inr sc, h') \<and>
    admits sc (Password_given ''acorn'') \<and> \<not> admits sc (Password_given [])"
proof -
  have "parse_authorized_keys some_ssh (AuthorizedKeys password_only) = Inr []"
    by (simp add: parse_authorized_keys_Inr password_only_def key_lines_empty)
  then obtain sc h' where b: "build_server_config some_ssh password_only calm [] = (Inr sc, h')"
    by (auto simp: build_server_config_def Let_def password_callback_def password_only_def check_Inr calm_def)
  from sshd_admits_only [OF b, of "''acorn''" "[]"] sshd_admits_only [OF b, of "[]" "[]"] b show ?thesis
    by (auto simp: password_only_def)
qed

section \<open>Keys that lock out\<close>

lemma serve_ssh_Inr:
  "serve_ssh lib ls c w h = (Inr x, h') \<Longrightarrow> \<exists>sc. build_server_config lib c w h = (Inr sc, h')"
  by (auto simp: serve_ssh_def bind_io_eq split: sum.splits) (metis sum.exhaust)

lemma start_ssh_server_Inr:
  assumes "start_ssh_server lib c tailnet w h = (Inr x, h')"
  obtains sc h1 h2 where "build_server_config lib c w h1 = (Inr sc, h2)"
  using assms by (auto simp: start_ssh_server_def bind_io_eq split: if_splits dest: serve_ssh_Inr)

text \<open>The listeners opened and not closed again.\<close>

definition left_open :: "history \<Rightarrow> string set" where
  "left_open h = {l. (\<exists>a. Listen l a \<in> set (done_calls h)) \<and> Close_listener l \<notin> set (calls h)}"

lemma close_listener_run:
  "close_listener l w h = (u, h') \<longleftrightarrow> h' = h @ [(Close_listener l, err_of w h (Close_listener l))]"
  by (simp add: close_listener_def)

lemma close_each:
  "for_each close_listener ls w h = (u, h') \<Longrightarrow>
    \<exists>new. h' = h @ new \<and> calls new = map Close_listener ls"
proof (induction ls arbitrary: h)
  case Nil
  then show ?case by simp
next
  case (Cons l ls)
  from Cons.prems have "for_each close_listener ls w
      (h @ [(Close_listener l, err_of w h (Close_listener l))]) = (u, h')"
    by (simp only: for_each.simps bind_io_eq close_listener_run) blast
  from Cons.IH [OF this] obtain new where "h' = (h @ [(Close_listener l, err_of w h (Close_listener l))]) @ new"
      "calls new = map Close_listener ls" by blast
  then show ?case by (intro exI [of _ "(Close_listener l, err_of w h (Close_listener l)) # new"]) simp
qed

lemma build_no_listen: "only (\<lambda>c. c = Generate_host_key) (build_server_config lib cfg)"
  unfolding build_server_config_def Let_def by (intro hoare_rules) simp

lemma try_listen_run:
  assumes "try_listen network addr w h = (ls, h')"
  shows "h' = h @ [(Listen network addr, err_of w h (Listen network addr))] \<and>
    ls = (if err_of w h (Listen network addr) = None then [network] else [])"
  using assms by (auto simp: try_listen_def bind_io_eq)

lemma serve_ssh_fails:
  assumes "serve_ssh lib ls c w h = (Inl e, h')"
  obtains new where "h' = h @ new" "\<forall>l. l \<in> set ls \<longrightarrow> Close_listener l \<in> set (calls new)"
    "\<forall>l a. Listen l a \<notin> set (calls new)"
proof -
  obtain r h1 where b: "build_server_config lib c w h = (r, h1)" by (cases "build_server_config lib c w h")
  obtain n1 where n1: "h1 = h @ n1" "\<forall>ev \<in> set n1. fst ev = Generate_host_key"
    using only_extends [OF build_no_listen b] by blast
  from assms b obtain u where "for_each close_listener ls w h1 = (u, h')"
    by (auto simp: serve_ssh_def bind_io_eq split: sum.splits)
  from close_each [OF this] obtain n2 where n2: "h' = h1 @ n2" "calls n2 = map Close_listener ls" by blast
  have "\<forall>l a. Listen l a \<notin> set (calls n1)" using n1(2) by (auto simp: calls_def)
  with n1(1) n2 that [of "n1 @ n2"] show ?thesis by auto
qed

lemma failed_sshd_closes:
  assumes "start_ssh_server lib c tailnet w [] = (Inl e, h)"
  shows "left_open h = {}"
proof -
  let ?a = "listen_addr c"
  obtain k h1 where k: "try_listen ''tcp'' ?a w [] = (k, h1)" by (cases "try_listen ''tcp'' ?a w []")
  obtain t h2 where t: "(if tailnet then try_listen ''tailnet'' ?a else ret []) w h1 = (t, h2)"
    by (cases "(if tailnet then try_listen ''tailnet'' ?a else ret []) w h1")
  have opened: "{l. \<exists>a. Listen l a \<in> set (done_calls h2)} \<subseteq> set (k @ t)"
    using try_listen_run [OF k] t try_listen_run [of "''tailnet''" ?a w h1 t h2] by (auto split: if_splits)
  from assms k t have r: "(if k @ t = [] then ret (Inl NoListeners) else serve_ssh lib (k @ t) c) w h2 = (Inl e, h)"
    by (simp add: start_ssh_server_def bind_io_def)
  show ?thesis
  proof (cases "k @ t = []")
    case True
    with r opened show ?thesis by (auto simp: left_open_def)
  next
    case False
    with r have "serve_ssh lib (k @ t) c w h2 = (Inl e, h)" by (simp only: if_False)
    then obtain new where new: "h = h2 @ new" "\<forall>l. l \<in> set (k @ t) \<longrightarrow> Close_listener l \<in> set (calls new)"
        "\<forall>l a. Listen l a \<notin> set (calls new)" by (rule serve_ssh_fails)
    have "set (done_calls new) \<subseteq> set (calls new)" by (auto simp: done_calls_def calls_def)
    with opened new show ?thesis by (auto simp: left_open_def)
  qed
qed

text \<open>A key file the pivot accepts can lock the operator out. Before the pivot authorized keys only
  have to be present; after it, one line that does not read as a key, whatever else is configured,
  or only blank lines and comments without a password, keep the server from starting: every
  listener that was opened is closed again.\<close>

theorem unusable_keys_lock_out:
  assumes "ssh_enabled cfg" "SSHAuthorizedKeys cfg \<noteq> []"
    "None \<in> parse_key lib ` set (key_lines (SSHAuthorizedKeys cfg)) \<or>
     key_lines (SSHAuthorizedKeys cfg) = [] \<and> SSHPassword cfg = []"
  shows "ensure_ssh_usable inp cfg w h = (Inr (cfg, []), h) \<and>
    (\<exists>c e h'. SSH (build_postpivot_config cfg ep ea) = Some c \<and>
      start_ssh_server lib c tailnet w' [] = (Inl e, h') \<and> left_open h' = {})"
proof -
  let ?c = "\<lparr>Port = int (unat (ssh_port cfg)), Password = SSHPassword cfg,
      PasswordGenerated = SSHPasswordGenerated cfg, AuthorizedKeys = SSHAuthorizedKeys cfg\<rparr>"
  have "start_ssh_server lib ?c tailnet w' [] \<noteq> (Inr x, h')" for x h'
  proof
    assume "start_ssh_server lib ?c tailnet w' [] = (Inr x, h')"
    then obtain sc h1 h2 where "build_server_config lib ?c w' h1 = (Inr sc, h2)" by (rule start_ssh_server_Inr)
    then obtain keys where k: "map (parse_key lib) (key_lines (SSHAuthorizedKeys cfg)) = map Some keys"
        "keys \<noteq> [] \<or> SSHPassword cfg \<noteq> []" by (elim build_server_config_Inr) simp
    from arg_cong [OF k(1), of set] have "parse_key lib ` set (key_lines (SSHAuthorizedKeys cfg)) = Some ` set keys" by simp
    with k assms(3) show False by auto
  qed
  then obtain e h' where "start_ssh_server lib ?c tailnet w' [] = (Inl e, h')"
    by (cases "start_ssh_server lib ?c tailnet w' []"; cases "fst (start_ssh_server lib ?c tailnet w' [])") auto
  moreover have "SSH (build_postpivot_config cfg ep ea) = Some ?c"
    using assms(1) by (simp add: build_postpivot_config_def)
  moreover have "ensure_ssh_usable inp cfg w h = (Inr (cfg, []), h)"
    using assms(1,2) by (simp add: ensure_ssh_usable_def ret_def)
  ultimately show ?thesis using failed_sshd_closes by blast
qed

definition commented_keys :: config where
  "commented_keys = new_config\<lparr>SSHEnable := Some True, SSHAuthorizedKeys := ''# none yet''\<rparr>"

theorem unusable_keys_lock_out_witness:
  "\<exists>c e h'. SSH (build_postpivot_config commented_keys [] []) = Some c \<and>
    start_ssh_server some_ssh c False calm [] = (Inl e, h') \<and> left_open h' = {}"
proof -
  have "trim_space ''# none yet'' = ''# none yet''" by code_simp
  then have "key_lines (SSHAuthorizedKeys commented_keys) = []"
    by (simp add: key_lines_def commented_keys_def has_prefix_def)
  then show ?thesis
    using unusable_keys_lock_out [of commented_keys some_ssh trial_inputs calm "[]" "[]" "[]" False calm]
    by (simp add: commented_keys_def ssh_enabled_def new_config_def)
qed

section \<open>Sessions\<close>

definition program_of :: "ssh_library \<Rightarrow> request \<Rightarrow> string list option" where
  "program_of lib r =
     (if fst r = ''shell'' then Some [''/bin/sh'', ''-l'']
      else if fst r = ''exec'' then map_option (\<lambda>cmd. [''/bin/sh'', ''-c'', cmd]) (exec_payload lib (snd r))
      else None)"

definition variables_of :: "ssh_library \<Rightarrow> request list \<Rightarrow> string list" where
  "variables_of lib reqs =
     concat (map (\<lambda>r. if fst r = ''env''
        then (case env_payload lib (snd r) of None \<Rightarrow> [] | Some (n, v) \<Rightarrow> [n @ ''='' @ v]) else []) reqs)"

lemma variables_simps [simp]:
  "variables_of lib [] = []"
  "variables_of lib ((k, p) # reqs) =
     (if k = ''env'' then (case env_payload lib p of None \<Rightarrow> [] | Some (n, v) \<Rightarrow> [n @ ''='' @ v]) else []) @
     variables_of lib reqs"
  by (simp_all add: variables_of_def)

definition session_answer ::
  "ssh_library \<Rightarrow> session \<Rightarrow> request list \<Rightarrow> bool list \<times> (string list \<times> session \<times> request list) option \<Rightarrow> bool" where
  "session_answer lib s reqs a \<longleftrightarrow>
     (case a of
        (rs, None) \<Rightarrow> length rs = length reqs \<and> list_all (\<lambda>r. program_of lib r = None) reqs
      | (rs, Some (cmd, s', rest)) \<Rightarrow>
          (\<exists>pre r. reqs = pre @ r # rest \<and> length rs = Suc (length pre) \<and>
             list_all (\<lambda>r. program_of lib r = None) pre \<and> program_of lib r = Some cmd \<and>
             session_env s' = session_env s @ variables_of lib pre))"

lemma session_answer_step:
  assumes "session_answer lib s' reqs a" "program_of lib (k, p) = None"
    "session_env s' = session_env s @ variables_of lib [(k, p)]"
  shows "session_answer lib s ((k, p) # reqs) (map_prod ((#) b) id a)"
proof (cases "snd a")
  case None
  with assms show ?thesis by (cases a) (simp add: session_answer_def)
next
  case (Some x)
  then obtain rs cmd s2 rest where a: "a = (rs, Some (cmd, s2, rest))" by (cases a; cases x) auto
  from assms(1) obtain pre r where "reqs = pre @ r # rest" "length rs = Suc (length pre)"
      "list_all (\<lambda>r. program_of lib r = None) pre" "program_of lib r = Some cmd"
      "session_env s2 = session_env s' @ variables_of lib pre"
    by (auto simp: session_answer_def a)
  with assms(2,3) show ?thesis
    unfolding session_answer_def a by (cases r) (auto intro!: exI [of _ "(k, p) # pre"])
qed

lemma session_answer_start:
  "program_of lib (k, p) = Some cmd \<Longrightarrow> session_answer lib s ((k, p) # reqs) ([b], Some (cmd, s, reqs))"
  by (auto simp: session_answer_def intro!: exI [of _ "[]"])

lemma handle_requests_answer: "session_answer lib s reqs (handle_requests lib s reqs)"
proof (induction reqs arbitrary: s)
  case Nil
  then show ?case by (simp add: session_answer_def)
next
  case (Cons r reqs)
  obtain k p where r: "r = (k, p)" by (cases r)
  consider "k = ''pty-req''" | "k = ''env''" | "k = ''shell''" | "k = ''exec''"
    | "k \<notin> {''pty-req'', ''env'', ''shell'', ''exec''}" by blast
  then show ?case
  proof cases
    case 1
    then show ?thesis unfolding r
      by (auto simp: program_of_def intro!: session_answer_step [OF Cons.IH] split: option.split)
  next
    case 2
    then show ?thesis unfolding r
      by (auto simp: program_of_def intro!: session_answer_step [OF Cons.IH] split: option.split)
  next
    case 3
    then show ?thesis unfolding r by (auto simp: program_of_def intro!: session_answer_start)
  next
    case 4
    then show ?thesis unfolding r
      by (auto simp: program_of_def intro!: session_answer_start session_answer_step [OF Cons.IH] split: option.split)
  next
    case 5
    then show ?thesis unfolding r by (auto simp: program_of_def intro!: session_answer_step [OF Cons.IH])
  qed
qed

text \<open>A session answers every request once, in order, until the first shell request or readable exec
  request; that one starts the program it names, with exactly the variables set by the requests
  before it, in their order, and the requests after it are left for the window handler.\<close>

theorem session_requests_answered:
  assumes "handle_requests lib s reqs = (rs, Some (cmd, s', rest))"
  shows "\<exists>pre r. reqs = pre @ r # rest \<and> length rs = Suc (length pre) \<and>
    list_all (\<lambda>q. program_of lib q = None) pre \<and> program_of lib r = Some cmd \<and>
    session_env s' = session_env s @ variables_of lib pre"
  using handle_requests_answer [of lib s reqs] assms by (simp add: session_answer_def)

theorem session_requests_answered_witness:
  "\<exists>pre r. [(''env'', ''x''), (''exec'', ''id'')] = pre @ r # [] \<and> program_of some_ssh r = Some [''/bin/sh'', ''-c'', ''id'']"
  using session_requests_answered [of some_ssh new_session "[(''env'', ''x''), (''exec'', ''id'')]"
      "[True, True]" "[''/bin/sh'', ''-c'', ''id'']" new_session "[]"]
  by (simp add: some_ssh_def)

section \<open>Reaping\<close>

lemma find_remove1:
  "find P ks = Some k \<Longrightarrow> \<exists>a b. ks = a @ k # b \<and> (\<forall>x \<in> set a. \<not> P x) \<and> P k \<and> remove1 k ks = a @ b"
proof (induction ks)
  case (Cons x ks)
  show ?case
  proof (cases "P x")
    case True
    with Cons.prems show ?thesis by (intro exI [of _ "[]"] exI [of _ ks]) auto
  next
    case False
    with Cons obtain a b where "ks = a @ k # b" "\<forall>x \<in> set a. \<not> P x" "P k" "remove1 k ks = a @ b" by auto
    with False show ?thesis by (intro exI [of _ "x # a"] exI [of _ b]) auto
  qed
qed simp

lemma reap_leaves:
  assumes "\<forall>k \<in> set ks. fst k > 0"
  shows "reap_orphans ks = filter (\<lambda>k. \<not> has_ended k) ks"
  using assms
proof (induction ks rule: reap_orphans.induct)
  case (1 ks)
  show ?case
  proof (cases "find has_ended ks")
    case None
    then have "filter (\<lambda>k. \<not> has_ended k) ks = ks" unfolding find_None_iff filter_id_conv by blast
    moreover have "reap_orphans ks = ks"
      unfolding reap_orphans.simps [of ks] by (simp add: wait4_any_def None)
    ultimately show ?thesis by simp
  next
    case (Some k)
    then obtain a b where ab: "ks = a @ k # b" "\<forall>x \<in> set a. \<not> has_ended x" "has_ended k"
        "remove1 k ks = a @ b" using find_remove1 by metis
    then have w: "wait4_any ks = Inr (fst k, a @ b)" using Some by (simp add: wait4_any_def)
    have "fst k > 0" using "1.prems" ab(1) by simp
    then have "reap_orphans ks = reap_orphans (a @ b)" unfolding reap_orphans.simps [of ks] by (simp add: w)
    also have "\<dots> = filter (\<lambda>k. \<not> has_ended k) (a @ b)"
      using "1.IH" [OF w refl] "1.prems" ab(1) \<open>fst k > 0\<close> by simp
    also have "\<dots> = filter (\<lambda>k. \<not> has_ended k) ks" using ab by simp
    finally show ?thesis .
  qed
qed

text \<open>The reaper takes every ended child and nothing else: when it returns, exactly the children that
  still run are left, in their order.\<close>

theorem reap_leaves_running:
  assumes "\<forall>k \<in> set ks. fst k > 0"
  shows "reap_orphans ks = filter (\<lambda>k. snd k = None) ks"
  using reap_leaves [OF assms] by (simp add: has_ended_def)

theorem reap_leaves_running_witness:
  "reap_orphans [(5, Some (Exited 0)), (7, None), (9, Some (Signaled 9))] = [(7, None)]"
  using reap_leaves_running [of "[(5, Some (Exited 0)), (7, None), (9, Some (Signaled 9))]"] by simp

text \<open>C38: An exit status can be lost to the reaper. While the process serves until a signal, a session's
  program may exit with any status, zero included, and the client be told 1: the reaper, woken by
  the same exit, waits for the session's child before the session does.\<close>

theorem session_status_lost:
  assumes "pid > 0"
  shows "\<exists>s. idle_reach s \<and> fate s pid = Some e \<and> sent s = [(pid, 1)] \<and> idle_result s = None"
proof -
  let ?s1 = "idle_init\<lparr>kids := [(pid, None)], sessions := [pid]\<rparr>"
  let ?s2 = "?s1\<lparr>kids := [(pid, Some e)], fate := (fate idle_init)(pid := Some e),
      chldCh := notify_send SIGCHLD (make_chan 8)\<rparr>"
  let ?s3 = "?s2\<lparr>chldCh := make_chan 8, kids := []\<rparr>"
  let ?s4 = "?s3\<lparr>sessions := [], sent := [(pid, 1)]\<rparr>"
  have "idle_reach ?s1"
    using idle_next [OF idle_start session [OF assms]] by (simp add: idle_init_def)
  then have "idle_reach ?s2"
    using idle_next [OF _ child_exits [of pid ?s1 e]] by (simp add: idle_init_def mark_exit_def)
  moreover have "reap_orphans [(pid, Some e)] = []"
    using reap_leaves [of "[(pid, Some e)]"] assms by (simp add: has_ended_def)
  ultimately have "idle_reach ?s3"
    using idle_next [OF _ reap [of ?s2 SIGCHLD "make_chan 8"]]
    by (simp add: idle_init_def notify_send_def chan_receive_def make_chan_def)
  then have "idle_reach ?s4"
    using idle_next [OF _ session_waits [of pid ?s3 None "[]"]]
    by (simp add: idle_init_def wait_child_def report_def session_status_def)
  then show ?thesis by (intro exI [of _ ?s4]) (simp add: idle_init_def)
qed

theorem session_status_lost_witness:
  "\<exists>s. idle_reach s \<and> fate s 5 = Some (Exited 0) \<and> sent s = [(5, 1)] \<and> idle_result s = None"
  by (rule session_status_lost) simp

section \<open>What holds while it serves\<close>

definition kids_ok :: "idle \<Rightarrow> bool" where
  "kids_ok s \<longleftrightarrow> distinct (map fst (kids s)) \<and> (\<forall>(p, r) \<in> set (kids s). p > 0 \<and> fate s p = r)"

definition sessions_ok :: "idle \<Rightarrow> bool" where
  "sessions_ok s \<longleftrightarrow> (\<forall>p \<in> set (sessions s). p \<in> fst ` set (kids s) \<or> fate s p \<noteq> None)"

definition true_status :: "idle \<Rightarrow> int \<Rightarrow> u32 \<Rightarrow> bool" where
  "true_status s p st \<longleftrightarrow>
     (\<exists>e. fate s p = Some e \<and> (st = session_status True (report (Some e)) \<or> st = 1))"

definition sent_ok :: "idle \<Rightarrow> bool" where
  "sent_ok s \<longleftrightarrow> (\<forall>(p, st) \<in> set (sent s). true_status s p st)"

definition stops_ok :: "idle \<Rightarrow> bool" where
  "stops_ok s \<longleftrightarrow> (buffer (stopCh s) \<noteq> [] \<or> idle_result s \<noteq> None \<longrightarrow> stops s \<noteq> []) \<and>
     (\<forall>n. idle_result s = Some n \<longrightarrow> n = 0)"

lemma kids_positive: "kids_ok s \<Longrightarrow> \<forall>k \<in> set (kids s). fst k > 0"
  by (auto simp: kids_ok_def)

lemma reaped_kids:
  "kids_ok s \<Longrightarrow> reap_orphans (kids s) = filter (\<lambda>k. \<not> has_ended k) (kids s)"
  by (rule reap_leaves [OF kids_positive])

lemma find_pid:
  "find (\<lambda>k. fst k = p) ks = Some k \<Longrightarrow> k \<in> set ks \<and> fst k = p"
  "find (\<lambda>k. fst k = p) ks = None \<Longrightarrow> p \<notin> fst ` set ks"
  by (auto simp: find_None_iff dest!: find_remove1)

lemma remove1_keys:
  "set (remove1 x ks) \<subseteq> set ks" "set ks \<subseteq> insert x (set (remove1 x ks))"
  "distinct (map fst ks) \<Longrightarrow> distinct (map fst (remove1 x ks))"
proof -
  show s: "set (remove1 x ks) \<subseteq> set ks" by (rule set_remove1_subset)
  show "set ks \<subseteq> insert x (set (remove1 x ks))" by (auto dest: in_set_remove1 [THEN iffD2, rotated])
  show "distinct (map fst ks) \<Longrightarrow> distinct (map fst (remove1 x ks))"
    using s by (auto simp: distinct_map distinct_remove1 intro: inj_on_subset)
qed

lemma wait_child_kids:
  assumes "wait_child p ks = Some (r, ks')"
  shows "r = None \<and> ks' = ks \<and> p \<notin> fst ` set ks \<or>
    (\<exists>e. r = Some e \<and> (p, Some e) \<in> set ks \<and> ks' = remove1 (p, Some e) ks)"
proof (cases "find (\<lambda>k. fst k = p) ks")
  case None
  with assms find_pid(2) [OF None] show ?thesis by (simp add: wait_child_def)
next
  case (Some k)
  with find_pid(1) [OF Some] assms show ?thesis
    by (cases k; cases "snd k") (auto simp: wait_child_def)
qed

lemma mark_exit_keys [simp]: "map fst (mark_exit p e ks) = map fst ks"
  by (simp add: mark_exit_def)

lemma mark_exit_pids: "fst ` set (mark_exit p e ks) = fst ` set ks"
  using mark_exit_keys [of p e ks] by (metis list.set_map)

lemma mark_exit_member:
  assumes "(q, r) \<in> set (mark_exit p e ks)" "distinct (map fst ks)" "(p, None) \<in> set ks"
  shows "q = p \<and> r = Some e \<or> q \<noteq> p \<and> (q, r) \<in> set ks"
proof -
  from assms(1) obtain k where k: "k \<in> set ks" "(q, r) = (if k = (p, None) then (p, Some e) else k)"
    by (auto simp: mark_exit_def)
  show ?thesis
  proof (cases "k = (p, None)")
    case True
    with k show ?thesis by simp
  next
    case False
    with k have "(q, r) \<in> set ks" "(q, r) \<noteq> (p, None)" by simp_all
    with eq_key_imp_eq_value [OF assms(2,3), of r] show ?thesis by auto
  qed
qed

lemma step_kids: "idle_step s t \<Longrightarrow> kids_ok s \<Longrightarrow> kids_ok t"
proof (induction rule: idle_step.induct)
  case (child_exits pid s e)
  have d: "distinct (map fst (kids s))" using child_exits by (simp add: kids_ok_def)
  have "q > 0 \<and> ((fate s)(pid := Some e)) q = r" if m: "(q, r) \<in> set (mark_exit pid e (kids s))" for q r
    using mark_exit_member [OF m d child_exits(1)] child_exits by (auto simp: kids_ok_def)
  with d show ?case by (auto simp: kids_ok_def)
next
  case (session_waits pid s r ks)
  have "set ks \<subseteq> set (kids s)" "distinct (map fst (kids s)) \<longrightarrow> distinct (map fst ks)"
    using wait_child_kids [OF session_waits(2)] remove1_keys(1,3) by blast+
  with session_waits(3) show ?case by (auto simp: kids_ok_def)
next
  case (reap s sg ch)
  then show ?case by (auto simp: kids_ok_def reaped_kids distinct_map_filter)
next
  case (stop s sg ch)
  then show ?case by (auto simp: kids_ok_def reaped_kids distinct_map_filter)
qed (auto simp: kids_ok_def)

lemma reaped_pids: "kids_ok s \<Longrightarrow> p \<in> fst ` set (kids s) \<Longrightarrow>
  p \<in> fst ` set (reap_orphans (kids s)) \<or> fate s p \<noteq> None"
  by (force simp: reaped_kids kids_ok_def has_ended_def)

lemma step_sessions: "idle_step s t \<Longrightarrow> kids_ok s \<Longrightarrow> sessions_ok s \<Longrightarrow> sessions_ok t"
proof (induction rule: idle_step.induct)
  case (child_exits pid s e)
  have "fst ` set (mark_exit pid e (kids s)) = fst ` set (kids s)" by (rule mark_exit_pids)
  with child_exits(3) show ?case unfolding sessions_ok_def by auto
next
  case (session_waits pid s r ks)
  have "q \<in> fst ` set ks \<or> fate s q \<noteq> None" if q: "q \<in> set (sessions s)" for q
  proof -
    have "q \<in> fst ` set (kids s) \<or> fate s q \<noteq> None" using session_waits(4) q by (simp add: sessions_ok_def)
    moreover have "fst ` set (kids s) \<subseteq> fst ` set ks \<union> {p. fate s p \<noteq> None}"
      using wait_child_kids [OF session_waits(2)]
    proof
      assume "\<exists>e. r = Some e \<and> (pid, Some e) \<in> set (kids s) \<and> ks = remove1 (pid, Some e) (kids s)"
      then obtain e where e: "(pid, Some e) \<in> set (kids s)" "ks = remove1 (pid, Some e) (kids s)" by blast
      then have "fate s pid = Some e" using session_waits(3) by (auto simp: kids_ok_def)
      moreover have "set (kids s) \<subseteq> insert (pid, Some e) (set ks)" unfolding e(2) by (rule remove1_keys)
      ultimately show ?thesis by auto
    qed simp
    ultimately show ?thesis by blast
  qed
  then show ?case by (auto simp: sessions_ok_def dest: set_remove1_subset [THEN subsetD])
next
  case (reap s sg ch)
  then show ?case using reaped_pids [OF reap(3)] by (fastforce simp: sessions_ok_def)
next
  case (stop s sg ch)
  then show ?case using reaped_pids [OF stop(3)] by (fastforce simp: sessions_ok_def)
qed (auto simp: sessions_ok_def)

lemma step_fate: "idle_step s t \<Longrightarrow> kids_ok s \<Longrightarrow> fate s p = Some e \<Longrightarrow> fate t p = Some e"
  by (induction rule: idle_step.induct) (auto simp: kids_ok_def)

lemma step_sent_cases:
  "idle_step s t \<Longrightarrow> sent t = sent s \<or>
    (\<exists>pid r ks. sent t = sent s @ [(pid, session_status True (report r))] \<and> pid \<in> set (sessions s) \<and>
      wait_child pid (kids s) = Some (r, ks))"
  by (induction rule: idle_step.induct) auto

lemma step_sent:
  assumes "idle_step s t" "kids_ok s" "sessions_ok s" "sent_ok s"
  shows "sent_ok t"
proof -
  have old: "true_status t p st" if "true_status s p st" for p st
    using that step_fate [OF assms(1,2)] by (auto simp: true_status_def)
  from step_sent_cases [OF assms(1)] show ?thesis
  proof
    assume "sent t = sent s"
    with assms(4) old show ?thesis by (auto simp: sent_ok_def)
  next
    assume "\<exists>pid r ks. sent t = sent s @ [(pid, session_status True (report r))] \<and> pid \<in> set (sessions s) \<and>
      wait_child pid (kids s) = Some (r, ks)"
    then obtain pid r ks where n: "sent t = sent s @ [(pid, session_status True (report r))]"
        "pid \<in> set (sessions s)" "wait_child pid (kids s) = Some (r, ks)" by blast
    have one: "session_status True (report None) = 1" by (simp add: report_def session_status_def)
    have "true_status s pid (session_status True (report r))"
      using wait_child_kids [OF n(3)] n(2) assms(2,3) one
      by (auto simp: true_status_def kids_ok_def sessions_ok_def)
    with n(1) assms(4) old show ?thesis by (auto simp: sent_ok_def)
  qed
qed

lemma step_stops: "idle_step s t \<Longrightarrow> stops_ok s \<Longrightarrow> stops_ok t"
  by (induction rule: idle_step.induct)
     (auto simp: stops_ok_def chan_receive_def split: list.splits)

lemma idle_invariant: "idle_reach s \<Longrightarrow> kids_ok s \<and> sessions_ok s \<and> sent_ok s \<and> stops_ok s"
proof (induction rule: idle_reach.induct)
  case idle_start
  then show ?case by (simp add: idle_init_def kids_ok_def sessions_ok_def sent_ok_def stops_ok_def)
next
  case (idle_next s t)
  then show ?case using step_kids step_sessions step_sent step_stops by blast
qed



end
