(* ===== verification/SshdLoop.thy ===== *)
theory SshdLoop
  imports Sshd
begin

text \<open>
  Accepting connections (\<open>serveSSH\<close>, \<open>acceptLoop\<close> and \<open>handleConn\<close> of
  \<open>internal/postpivot/sshd_linux.go\<close>): one goroutine per listener, one per connection, and one that
  closes the listeners when the context is cancelled. The handshake and the channels a client opens
  are what the SSH library says.
\<close>

section \<open>A connection\<close>

datatype channel_event = Rejected | Not_accepted errno | Session_started

definition handle_channel :: "string \<times> errno option \<Rightarrow> channel_event" where
  "handle_channel ch =
     (if fst ch \<noteq> ''session'' then Rejected
      else case snd ch of Some e \<Rightarrow> Not_accepted e | None \<Rightarrow> Session_started)"

definition handle_conn :: "errno option \<Rightarrow> (string \<times> errno option) list \<Rightarrow> channel_event list" where
  "handle_conn handshake chans =
     (case handshake of Some _ \<Rightarrow> [] | None \<Rightarrow> map handle_channel chans)"

lemma session_after_handshake:
  "Session_started \<in> set (handle_conn handshake chans) \<longleftrightarrow> handshake = None \<and> (''session'', None) \<in> set chans"
  by (force simp: handle_conn_def handle_channel_def split: option.splits if_splits)

section \<open>The listeners\<close>

text \<open>A listener's loop: accepting, waiting for its connections with what it will return, or done.\<close>

datatype loop = Accepting | Draining "errno option" | Reported

record serving =
  cancelled :: bool
  listeners_closed :: bool
  loop_of :: "nat \<Rightarrow> loop"
  conns :: "nat \<Rightarrow> nat"
  reported :: "errno option list" \<comment> \<open>what is in \<open>errCh\<close>\<close>
  served :: "errno option option" \<comment> \<open>what \<open>serveSSH\<close> has returned\<close>

definition serving_init :: serving where
  "serving_init = \<lparr>cancelled = False, listeners_closed = False, loop_of = (\<lambda>_. Accepting), conns = (\<lambda>_. 0),
     reported = [], served = None\<rparr>"

fun first_error :: "errno option list \<Rightarrow> errno option" where
  "first_error [] = None"
| "first_error (Some e # rs) = Some e"
| "first_error (None # rs) = first_error rs"

inductive serve_step :: "nat \<Rightarrow> serving \<Rightarrow> serving \<Rightarrow> bool" for n where
  accepts: "i < n \<Longrightarrow> loop_of s i = Accepting \<Longrightarrow> \<not> listeners_closed s \<Longrightarrow>
    serve_step n s (s\<lparr>conns := (conns s)(i := Suc (conns s i))\<rparr>)"
| accept_fails: "i < n \<Longrightarrow> loop_of s i = Accepting \<Longrightarrow>
    serve_step n s (s\<lparr>loop_of := (loop_of s)(i := Draining (if cancelled s then None else Some e))\<rparr>)"
| conn_ends: "conns s i > 0 \<Longrightarrow> serve_step n s (s\<lparr>conns := (conns s)(i := conns s i - 1)\<rparr>)"
| reports: "i < n \<Longrightarrow> loop_of s i = Draining r \<Longrightarrow> conns s i = 0 \<Longrightarrow>
    serve_step n s (s\<lparr>loop_of := (loop_of s)(i := Reported), reported := reported s @ [r]\<rparr>)"
| cancels: "serve_step n s (s\<lparr>cancelled := True\<rparr>)"
| closes: "cancelled s \<Longrightarrow> serve_step n s (s\<lparr>listeners_closed := True\<rparr>)"
| returns: "served s = None \<Longrightarrow> \<forall>i < n. loop_of s i = Reported \<Longrightarrow>
    serve_step n s (s\<lparr>served := Some (first_error (reported s))\<rparr>)"

inductive serve_reach :: "nat \<Rightarrow> serving \<Rightarrow> bool" for n where
  serving_starts: "serve_reach n serving_init"
| serving_goes: "serve_reach n s \<Longrightarrow> serve_step n s t \<Longrightarrow> serve_reach n t"

section \<open>What holds while it serves\<close>

definition serving_ok :: "nat \<Rightarrow> serving \<Rightarrow> bool" where
  "serving_ok n s \<longleftrightarrow>
     (\<forall>i. loop_of s i = Reported \<longrightarrow> i < n \<and> conns s i = 0) \<and>
     (\<forall>i. n \<le> i \<longrightarrow> conns s i = 0) \<and>
     (None \<in> set (reported s) \<longrightarrow> cancelled s) \<and>
     (\<forall>i. loop_of s i = Draining None \<longrightarrow> cancelled s) \<and>
     ((\<exists>i. loop_of s i = Reported) \<longrightarrow> reported s \<noteq> []) \<and>
     (\<forall>r. served s = Some r \<longrightarrow> r = first_error (reported s) \<and> (\<forall>i < n. loop_of s i = Reported))"

lemma serve_step_ok: "serve_step n s t \<Longrightarrow> serving_ok n s \<Longrightarrow> serving_ok n t"
  by (induction rule: serve_step.induct) (auto simp: serving_ok_def)

lemma serve_reach_ok: "serve_reach n s \<Longrightarrow> serving_ok n s"
proof (induction rule: serve_reach.induct)
  case serving_starts
  then show ?case by (simp add: serving_ok_def serving_init_def)
qed (rule serve_step_ok)

lemma first_error_None: "first_error rs = None \<Longrightarrow> rs = [] \<or> None \<in> set rs"
  by (induction rs rule: first_error.induct) auto

text \<open>C40: The server ends only for a reason and leaves nobody behind: it returns without an error only when its
  context has been cancelled, and it returns at all only when no connection is open.\<close>

theorem sshd_serves_until_cancelled:
  assumes "serve_reach n s" "0 < n" "served s = Some r"
  shows "(r = None \<longrightarrow> cancelled s) \<and> (\<forall>i. conns s i = 0)"
proof -
  note ok = serve_reach_ok [OF assms(1), unfolded serving_ok_def]
  have rep: "loop_of s i = Reported" if "i < n" for i using ok assms(3) that by blast
  have "conns s i = 0" for i using ok rep [of i] by (cases "i < n") auto
  moreover have "cancelled s" if "r = None"
  proof -
    have "first_error (reported s) = None" using ok assms(3) that by simp
    moreover have "reported s \<noteq> []" using ok rep [OF assms(2)] by blast
    ultimately have "None \<in> set (reported s)" using first_error_None by blast
    then show ?thesis using ok by blast
  qed
  ultimately show ?thesis by blast
qed

section \<open>One failed accept\<close>

lemma never_accepts_again:
  assumes "(serve_step n)\<^sup>*\<^sup>* s t" "loop_of s i \<noteq> Accepting"
  shows "loop_of t i \<noteq> Accepting"
  using assms
proof (induction rule: rtranclp_induct)
  case (step t u)
  from step(2) step(3) [OF step(4)] show ?case by (cases rule: serve_step.cases) (auto split: if_splits)
qed

text \<open>One failed accept makes the server deaf: with one listener, which nobody closed, an error of a single
  \<open>Accept\<close> ends its loop for good, and while a client stays connected the server does not even
  report it.\<close>

theorem failed_accept_deafens:
  "\<exists>s. serve_reach 1 s \<and> \<not> cancelled s \<and> served s = None \<and> reported s = [] \<and> conns s 0 = 1 \<and>
    (\<forall>t. (serve_step 1)\<^sup>*\<^sup>* s t \<longrightarrow> loop_of t 0 \<noteq> Accepting)"
proof -
  let ?s1 = "serving_init\<lparr>conns := (conns serving_init)(0 := Suc (conns serving_init 0))\<rparr>"
  let ?s2 = "?s1\<lparr>loop_of := (loop_of ?s1)(0 := Draining (if cancelled ?s1 then None else Some (EOther 24)))\<rparr>"
  have "serve_reach 1 ?s1"
    by (rule serving_goes [OF serving_starts accepts]) (simp_all add: serving_init_def)
  then have "serve_reach 1 ?s2" by (rule serving_goes [OF _ accept_fails]) (simp_all add: serving_init_def)
  moreover have "loop_of ?s2 0 \<noteq> Accepting" by simp
  then have "\<forall>t. (serve_step 1)\<^sup>*\<^sup>* ?s2 t \<longrightarrow> loop_of t 0 \<noteq> Accepting" using never_accepts_again by blast
  ultimately show ?thesis by (intro exI [of _ ?s2]) (simp add: serving_init_def)
qed

text \<open>Cancelled, closed, drained.\<close>

theorem sshd_serves_until_cancelled_witness:
  "\<exists>s. serve_reach 1 s \<and> served s = Some None \<and> cancelled s \<and> conns s 0 = 0"
proof -
  let ?s1 = "serving_init\<lparr>cancelled := True\<rparr>"
  let ?s2 = "?s1\<lparr>loop_of := (loop_of ?s1)(0 := Draining (if cancelled ?s1 then None else Some EINVAL))\<rparr>"
  have "serve_reach 1 ?s1" by (rule serving_goes [OF serving_starts cancels])
  then have "serve_reach 1 ?s2" by (rule serving_goes [OF _ accept_fails]) (simp_all add: serving_init_def)
  then obtain s2 where s2: "serve_reach 1 s2" "loop_of s2 0 = Draining None" "conns s2 0 = 0"
      "reported s2 = []" "served s2 = None" by (simp add: serving_init_def)
  define s3 where "s3 = s2\<lparr>loop_of := (loop_of s2)(0 := Reported), reported := reported s2 @ [None]\<rparr>"
  have "serve_reach 1 s3" unfolding s3_def by (rule serving_goes [OF s2(1) reports]) (simp_all add: s2)
  then have s3: "serve_reach 1 s3" "loop_of s3 0 = Reported" "reported s3 = [None]" "served s3 = None"
    by (simp_all add: s3_def s2)
  define s4 where "s4 = s3\<lparr>served := Some (first_error (reported s3))\<rparr>"
  have r: "serve_reach 1 s4" unfolding s4_def by (rule serving_goes [OF s3(1) returns]) (simp_all add: s3)
  have v: "served s4 = Some None" unfolding s4_def by (simp add: s3)
  from sshd_serves_until_cancelled [OF r _ v] r v show ?thesis by auto
qed

end
