(* ===== verification/SessionRun.thy ===== *)
theory SessionRun
  imports Sshd Progress
begin

text \<open>
  The program of a session (\<open>runSession\<close> of \<open>internal/postpivot/sshd_linux.go\<close>): starting it on a
  terminal or on pipes, relaying bytes in both directions, and telling the client how it ended. The
  goroutines, the program with its descendants, and the client move independently, so it is a step
  relation. \<open>handle_requests\<close> has decided the command and whether there is a terminal.
\<close>

section \<open>State\<close>

text \<open>What the client is sent: on the channel or its stderr, then the exit status, then the close.\<close>

datatype fd = Out | Err

datatype wire = Data fd string | Exit_status u32 | Channel_close

datatype turn = Launching | Relaying | Awaiting | Told | Closed

datatype program_state = Not_started | Runs | Ends process_state | Lost

datatype copier = Copying | Copied | Broken

record run =
  turn :: turn
  program :: program_state
  holders :: nat \<comment> \<open>descendants of the program that hold its output\<close>
  piped :: "fd \<Rightarrow> string" \<comment> \<open>written and not yet read\<close>
  copier :: "fd \<Rightarrow> copier"
  written :: "fd \<Rightarrow> string" \<comment> \<open>all that was written, a history variable\<close>
  on_wire :: "wire list"
  typed :: string \<comment> \<open>come from the client and not yet read\<close>
  client_eof :: bool
  client_gone :: bool
  given :: string \<comment> \<open>passed on to the program\<close>
  stdin_closed :: bool

definition session_init :: run where
  "session_init = \<lparr>turn = Launching, program = Not_started, holders = 0, piped = (\<lambda>_. []), copier = (\<lambda>_. Copying),
     written = (\<lambda>_. []), on_wire = [], typed = [], client_eof = False, client_gone = False, given = [],
     stdin_closed = False\<rparr>"

text \<open>A terminal is one stream; otherwise \<open>os/exec\<close> copies each of two pipes.\<close>

definition output_streams :: "bool \<Rightarrow> fd set" where
  "output_streams pty = (if pty then {Out} else {Out, Err})"

definition send_wire :: "wire list \<Rightarrow> run \<Rightarrow> run" where
  "send_wire ms s = (if client_gone s then s else s\<lparr>on_wire := on_wire s @ ms\<rparr>)"

definition exec_failure :: "bool \<Rightarrow> string \<Rightarrow> wire" where
  "exec_failure pty why =
     (if pty then Data Out (''exec: '' @ why @ [CHR 0x0D, CHR 0x0A]) else Data Err (''exec: '' @ why @ [CHR 0x0A]))"

text \<open>What \<open>cmd.Wait\<close> returns. On pipes it also waits for the copying goroutines, and an error of
  theirs is reported when the program itself ended well.\<close>

definition cmd_wait :: "bool \<Rightarrow> run \<Rightarrow> wait_report option" where
  "cmd_wait pty s =
     (if \<not> pty \<and> (copier s Out = Copying \<or> copier s Err = Copying) then None
      else case program s of
        Ends e \<Rightarrow> Some (Some e, e \<noteq> Exited 0 \<or> \<not> pty \<and> (copier s Out = Broken \<or> copier s Err = Broken))
      | Lost \<Rightarrow> Some (None, True)
      | _ \<Rightarrow> None)"

definition no_writer :: "run \<Rightarrow> bool" where
  "no_writer s \<longleftrightarrow> program s \<noteq> Runs \<and> holders s = 0"

section \<open>Steps\<close>

datatype mover = Server | World | Client

inductive run_step :: "bool \<Rightarrow> mover \<Rightarrow> run \<Rightarrow> run \<Rightarrow> bool" for pty where
  launch_fails: "turn s = Launching \<Longrightarrow>
    run_step pty Server s (send_wire [exec_failure pty why, Exit_status (session_status False (None, True))]
      (s\<lparr>turn := Told\<rparr>))"
| launch: "turn s = Launching \<Longrightarrow>
    run_step pty Server s (s\<lparr>turn := (if pty then Relaying else Awaiting), program := Runs\<rparr>)"
| copy_out: "f \<in> output_streams pty \<Longrightarrow> program s \<noteq> Not_started \<Longrightarrow> copier s f = Copying \<Longrightarrow> \<not> client_gone s \<Longrightarrow>
    piped s f = bs @ rest \<Longrightarrow> bs \<noteq> [] \<Longrightarrow>
    run_step pty Server s (send_wire [Data f bs] (s\<lparr>piped := (piped s)(f := rest)\<rparr>))"
| copy_breaks: "f \<in> output_streams pty \<Longrightarrow> program s \<noteq> Not_started \<Longrightarrow> copier s f = Copying \<Longrightarrow> client_gone s \<Longrightarrow>
    piped s f = bs @ rest \<Longrightarrow> bs \<noteq> [] \<Longrightarrow>
    run_step pty Server s (s\<lparr>piped := (piped s)(f := rest), copier := (copier s)(f := Broken)\<rparr>)"
| copy_ends: "f \<in> output_streams pty \<Longrightarrow> program s \<noteq> Not_started \<Longrightarrow> copier s f = Copying \<Longrightarrow> piped s f = [] \<Longrightarrow>
    no_writer s \<Longrightarrow> run_step pty Server s (s\<lparr>copier := (copier s)(f := Copied)\<rparr>)"
| relayed: "turn s = Relaying \<Longrightarrow> copier s Out \<noteq> Copying \<Longrightarrow> run_step pty Server s (s\<lparr>turn := Awaiting\<rparr>)"
| tells: "turn s = Awaiting \<Longrightarrow> cmd_wait pty s = Some r \<Longrightarrow>
    run_step pty Server s (send_wire [Exit_status (session_status True r)] (s\<lparr>turn := Told, stdin_closed := True\<rparr>))"
| closes_channel: "turn s = Told \<Longrightarrow> run_step pty Server s (send_wire [Channel_close] (s\<lparr>turn := Closed\<rparr>))"
| copy_in: "program s \<noteq> Not_started \<Longrightarrow> \<not> stdin_closed s \<Longrightarrow> typed s = bs @ rest \<Longrightarrow> bs \<noteq> [] \<Longrightarrow>
    run_step pty Server s (s\<lparr>typed := rest, given := given s @ bs\<rparr>)"
| stdin_ends: "\<not> pty \<Longrightarrow> program s \<noteq> Not_started \<Longrightarrow> \<not> stdin_closed s \<Longrightarrow> client_eof s \<Longrightarrow> typed s = [] \<Longrightarrow>
    run_step pty Server s (s\<lparr>stdin_closed := True\<rparr>)"
| writes: "f \<in> output_streams pty \<Longrightarrow> program s = Runs \<or> holders s > 0 \<Longrightarrow>
    run_step pty World s (s\<lparr>piped := (piped s)(f := piped s f @ bs), written := (written s)(f := written s f @ bs)\<rparr>)"
| forks: "program s = Runs \<Longrightarrow> run_step pty World s (s\<lparr>holders := Suc (holders s)\<rparr>)"
| lets_go: "holders s = Suc n \<Longrightarrow> run_step pty World s (s\<lparr>holders := n\<rparr>)"
| ends: "program s = Runs \<Longrightarrow> run_step pty World s (s\<lparr>program := Ends e\<rparr>)"
| reaped_elsewhere: "program s = Ends e \<Longrightarrow> turn s \<in> {Relaying, Awaiting} \<Longrightarrow>
    run_step pty World s (s\<lparr>program := Lost\<rparr>)"
| types: "\<not> client_eof s \<Longrightarrow> run_step pty Client s (s\<lparr>typed := typed s @ bs\<rparr>)"
| ends_input: "run_step pty Client s (s\<lparr>client_eof := True\<rparr>)"
| leaves: "run_step pty Client s (s\<lparr>client_eof := True, client_gone := True\<rparr>)"

inductive run_reach :: "bool \<Rightarrow> run \<Rightarrow> bool" for pty where
  run_starts: "run_reach pty session_init"
| run_goes: "run_reach pty s \<Longrightarrow> run_step pty m s t \<Longrightarrow> run_reach pty t"

section \<open>What the client has been sent\<close>

primrec data_of :: "fd \<Rightarrow> wire \<Rightarrow> string" where
  "data_of f (Data g bs) = (if f = g then bs else [])"
| "data_of f (Exit_status _) = []"
| "data_of f Channel_close = []"

definition sent_on :: "fd \<Rightarrow> wire list \<Rightarrow> string" where
  "sent_on f ms = concat (map (data_of f) ms)"

lemma sent_on_simps [simp]: "sent_on f [] = []" "sent_on f (ms @ ms') = sent_on f ms @ sent_on f ms'"
  "sent_on f [m] = data_of f m" "sent_on f (m # ms) = data_of f m @ sent_on f ms"
  by (simp_all add: sent_on_def)

primrec is_data :: "wire \<Rightarrow> bool" where
  "is_data (Data _ _) = True"
| "is_data (Exit_status _) = False"
| "is_data Channel_close = False"

text \<open>The status the client is owed.\<close>

definition owed :: "program_state \<Rightarrow> u32" where
  "owed p = (case p of
       Not_started \<Rightarrow> 127
     | Ends (Exited c) \<Rightarrow> of_int c
     | Ends _ \<Rightarrow> - 1
     | _ \<Rightarrow> 1)"

fun wire_ok :: "program_state \<Rightarrow> turn \<Rightarrow> wire list \<Rightarrow> bool" where
  "wire_ok p Told ms \<longleftrightarrow> (\<exists>ds. list_all is_data ds \<and> ms = ds @ [Exit_status (owed p)])"
| "wire_ok p Closed ms \<longleftrightarrow> (\<exists>ds. list_all is_data ds \<and> ms = ds @ [Exit_status (owed p), Channel_close])"
| "wire_ok p _ ms \<longleftrightarrow> list_all is_data ms"

lemma wire_open: "t \<notin> {Told, Closed} \<Longrightarrow> wire_ok p t ms \<longleftrightarrow> list_all is_data ms"
  by (cases t) simp_all

definition copies_ok :: "bool \<Rightarrow> run \<Rightarrow> bool" where
  "copies_ok pty s \<longleftrightarrow>
     (\<forall>f \<in> output_streams pty. sent_on f (on_wire s) @ piped s f = written s f \<and> copier s f \<noteq> Broken \<and>
        (copier s f = Copied \<longrightarrow> piped s f = [] \<and> no_writer s) \<and>
        (turn s \<in> {Told, Closed} \<longrightarrow> copier s f = Copied)) \<and>
     (pty \<longrightarrow> turn s = Awaiting \<longrightarrow> copier s Out = Copied)"

definition unstarted :: "run \<Rightarrow> bool" where
  "unstarted s \<longleftrightarrow> holders s = 0 \<and> written s = (\<lambda>_. []) \<and> piped s = (\<lambda>_. []) \<and> copier s = (\<lambda>_. Copying) \<and>
     turn s \<in> {Launching, Told, Closed} \<and> (turn s = Launching \<longrightarrow> on_wire s = [] \<and> \<not> stdin_closed s)"

definition run_ok :: "bool \<Rightarrow> run \<Rightarrow> bool" where
  "run_ok pty s \<longleftrightarrow>
     (\<not> client_gone s \<longrightarrow> wire_ok (program s) (turn s) (on_wire s)) \<and>
     (if program s = Not_started then unstarted s
      else turn s \<noteq> Launching \<and> (turn s = Relaying \<longrightarrow> pty) \<and> (turn s \<in> {Told, Closed} \<longrightarrow> program s \<noteq> Runs) \<and>
        (\<not> client_gone s \<longrightarrow> copies_ok pty s))"

lemma output_streams_simps [simp]: "Out \<in> output_streams pty" "Err \<in> output_streams pty \<longleftrightarrow> \<not> pty" "output_streams True = {Out}"
    "output_streams False = {Out, Err}"
  by (auto simp: output_streams_def)

lemma cmd_wait_ready:
  "cmd_wait pty s = Some r \<Longrightarrow> program s \<noteq> Runs \<and> program s \<noteq> Not_started \<and>
    (\<not> pty \<longrightarrow> copier s Out \<noteq> Copying \<and> copier s Err \<noteq> Copying)"
  by (auto simp: cmd_wait_def split: if_splits program_state.splits)

lemma cmd_wait_owed:
  "cmd_wait pty s = Some r \<Longrightarrow> \<forall>f \<in> output_streams pty. copier s f \<noteq> Broken \<Longrightarrow> owed (program s) = session_status True r"
  by (auto simp: cmd_wait_def owed_def session_status_def output_streams_def split: if_splits program_state.splits process_state.splits)

lemma send_wire_fields [simp]:
  "turn (send_wire ms s) = turn s" "program (send_wire ms s) = program s" "holders (send_wire ms s) = holders s"
  "piped (send_wire ms s) = piped s" "copier (send_wire ms s) = copier s" "written (send_wire ms s) = written s"
  "client_gone (send_wire ms s) = client_gone s" "stdin_closed (send_wire ms s) = stdin_closed s"
  "typed (send_wire ms s) = typed s" "client_eof (send_wire ms s) = client_eof s"
  "on_wire (send_wire ms s) = (if client_gone s then on_wire s else on_wire s @ ms)"
  by (simp_all add: send_wire_def)

lemma copy_not_told:
  "copies_ok pty s \<Longrightarrow> f \<in> output_streams pty \<Longrightarrow> copier s f = Copying \<Longrightarrow> turn s \<notin> {Told, Closed}"
  by (auto simp: copies_ok_def)

lemma run_step_ok: "run_step pty m s t \<Longrightarrow> run_ok pty s \<Longrightarrow> run_ok pty t"
proof (induction rule: run_step.induct)
  case (copy_out f s bs rest)
  then have "copies_ok pty s" "turn s \<notin> {Told, Closed}" "turn s \<noteq> Launching"
    using copy_not_told by (auto simp: run_ok_def)
  with copy_out show ?case by (auto simp: run_ok_def wire_open copies_ok_def no_writer_def)
next
  case (tells s r)
  have c: "copies_ok pty s \<Longrightarrow> f \<in> output_streams pty \<Longrightarrow> copier s f = Copied" for f
    using cmd_wait_ready [OF tells(2)] tells(1) by (cases "copier s f") (auto simp: copies_ok_def output_streams_def split: if_splits)
  have "copies_ok pty s \<Longrightarrow> owed (program s) = session_status True r"
    using cmd_wait_owed [OF tells(2)] by (simp add: copies_ok_def)
  note owed = this
  have p: "program s \<noteq> Not_started" "program s \<noteq> Runs" using cmd_wait_ready [OF tells(2)] by simp_all
  show ?case
  proof (cases "client_gone s")
    case True
    with tells(3) p show ?thesis by (simp add: run_ok_def)
  next
    case False
    with tells(1,3) p have ok: "list_all is_data (on_wire s)" "copies_ok pty s"
      by (simp_all add: run_ok_def)
    from ok(2) c have "\<forall>f \<in> output_streams pty. copier s f = Copied" by blast
    with ok(2) have "copies_ok pty (send_wire [Exit_status (session_status True r)] (s\<lparr>turn := Told, stdin_closed := True\<rparr>))"
      unfolding copies_ok_def no_writer_def by (auto simp: False)
    with False p ok owed show ?thesis by (simp add: run_ok_def)
  qed
next
  case (launch_fails s why)
  then show ?case
    by (cases pty) (auto simp: run_ok_def unstarted_def exec_failure_def owed_def session_status_def split: if_split_asm)
next
  case (launch s)
  then have "unstarted s" by (auto simp: run_ok_def split: if_split_asm)
  with launch(1) show ?case by (auto simp: run_ok_def unstarted_def copies_ok_def)
next
  case (relayed s)
  then have p: "program s \<noteq> Not_started" by (auto simp: run_ok_def unstarted_def)
  show ?case
  proof (cases "client_gone s")
    case True
    with relayed p show ?thesis by (simp add: run_ok_def)
  next
    case False
    with relayed p have ok: "list_all is_data (on_wire s)" "copies_ok pty s" by (auto simp: run_ok_def)
    then have "copier s Out = Copied" using relayed(2) by (cases "copier s Out") (auto simp: copies_ok_def)
    with ok(2) relayed(1) have "copies_ok pty (s\<lparr>turn := Awaiting\<rparr>)" by (auto simp: copies_ok_def no_writer_def)
    with relayed p ok(1) False show ?thesis by (simp add: run_ok_def)
  qed
next
  case (ends s e)
  then have "turn s \<notin> {Told, Closed}" by (auto simp: run_ok_def)
  with ends show ?case by (auto simp: run_ok_def wire_open copies_ok_def no_writer_def)
qed (auto simp: run_ok_def unstarted_def wire_open copies_ok_def no_writer_def split: if_split_asm)

lemma run_reach_ok: "run_reach pty s \<Longrightarrow> run_ok pty s"
proof (induction rule: run_reach.induct)
  case run_starts
  then show ?case by (simp add: run_ok_def unstarted_def session_init_def)
qed (rule run_step_ok)

text \<open>C14: A session tells the client everything, and in order. When it is over and the client is still
  there, it has sent only data, then one exit status, then the close; the status is the program's
  (1 when somebody else has reaped it), and every byte the program and its descendants wrote on
  either stream came before it.\<close>

theorem session_output_then_status:
  assumes "run_reach pty s" "turn s = Closed" "\<not> client_gone s" "program s \<noteq> Not_started"
  shows "\<exists>ds. on_wire s = ds @ [Exit_status (owed (program s)), Channel_close] \<and> list_all is_data ds \<and>
    program s \<noteq> Runs \<and> (\<forall>f \<in> output_streams pty. sent_on f ds = written s f)"
proof -
  note ok = run_reach_ok [OF assms(1), unfolded run_ok_def]
  from ok assms(2,3) obtain ds where ds: "on_wire s = ds @ [Exit_status (owed (program s)), Channel_close]"
      "list_all is_data ds" by auto
  from ok assms(2-4) have "copies_ok pty s" "program s \<noteq> Runs" by auto
  then have "sent_on f ds = written s f" if "f \<in> output_streams pty" for f
    using that assms(2) ds(1) by (force simp: copies_ok_def)
  with ds \<open>program s \<noteq> Runs\<close> show ?thesis by blast
qed

section \<open>A session ends\<close>

definition turn_rank :: "turn \<Rightarrow> nat" where
  "turn_rank t = (case t of Launching \<Rightarrow> 4 | Relaying \<Rightarrow> 3 | Awaiting \<Rightarrow> 2 | Told \<Rightarrow> 1 | Closed \<Rightarrow> 0)"

definition copy_work :: "run \<Rightarrow> fd \<Rightarrow> nat" where
  "copy_work s f = length (piped s f) + (if copier s f = Copying then 1 else 0)"

definition work_left :: "run \<Rightarrow> nat" where
  "work_left s = turn_rank (turn s) + copy_work s Out + copy_work s Err + length (typed s) +
     (if stdin_closed s then 0 else 1)"

lemma server_step_works: "run_step pty m s t \<Longrightarrow> m = Server \<Longrightarrow> work_left t < work_left s"
proof (induction rule: run_step.induct)
  case (copy_out f s bs rest)
  then show ?case by (cases f) (auto simp: work_left_def copy_work_def send_wire_def)
next
  case (copy_breaks f s bs rest)
  then show ?case by (cases f) (auto simp: work_left_def copy_work_def)
next
  case (copy_ends f s)
  then show ?case by (cases f) (auto simp: work_left_def copy_work_def)
qed (auto simp: work_left_def copy_work_def turn_rank_def send_wire_def)

definition program_over :: "run \<Rightarrow> bool" where
  "program_over s \<longleftrightarrow> program s \<noteq> Not_started \<and> no_writer s \<and> turn s \<noteq> Launching"

lemma server_step_over: "run_step pty m s t \<Longrightarrow> m = Server \<Longrightarrow> program_over s \<Longrightarrow> program_over t"
  by (induction rule: run_step.induct) (auto simp: program_over_def no_writer_def)

lemma copier_moves:
  assumes "program_over s" "f \<in> output_streams pty" "copier s f = Copying"
  shows "\<exists>t. run_step pty Server s t"
proof (cases "piped s f = []")
  case True
  with assms copy_ends show ?thesis by (metis program_over_def)
next
  case False
  then have "piped s f = piped s f @ []" by simp
  with False assms copy_out copy_breaks show ?thesis by (metis program_over_def)
qed

lemma server_moves:
  assumes "program_over s" "turn s \<noteq> Closed"
  shows "\<exists>t. run_step pty Server s t"
proof (cases "\<exists>f \<in> output_streams pty. copier s f = Copying")
  case True
  with copier_moves [OF assms(1)] show ?thesis by blast
next
  case False
  have "\<exists>r. cmd_wait pty s = Some r"
    using False assms(1)
    by (cases "program s") (auto simp: cmd_wait_def program_over_def no_writer_def output_streams_def split: if_splits)
  moreover have "copier s Out \<noteq> Copying" using False by auto
  ultimately show ?thesis
    using assms by (cases "turn s") (auto simp: program_over_def intro: relayed tells closes_channel)
qed

interpretation closing: finite_worker "run_step pty Server" program_over work_left "\<lambda>s. turn s = Closed" for pty
  using server_step_over server_step_works server_moves by unfold_locales blast+


section \<open>A client that leaves\<close>

lemma input_open_moves:
  assumes "program s \<noteq> Not_started" "client_eof s" "\<not> stdin_closed s"
  shows "\<exists>t. run_step False Server s t"
proof (cases "typed s = []")
  case True
  with assms stdin_ends show ?thesis by blast
next
  case False
  then have "typed s = typed s @ []" by simp
  with False assms copy_in show ?thesis by blast
qed

lemma server_step_eof:
  "run_step pty m s t \<Longrightarrow> m = Server \<Longrightarrow> program s \<noteq> Not_started \<and> client_eof s \<Longrightarrow>
    program t \<noteq> Not_started \<and> client_eof t"
  by (induction rule: run_step.induct) auto

interpretation passing: finite_worker "run_step False Server" "\<lambda>s. program s \<noteq> Not_started \<and> client_eof s"
    work_left stdin_closed
  using server_step_eof server_step_works input_open_moves by unfold_locales blast+

text \<open>Without a terminal the end of the client's input reaches the program: as long as its input is
  open the server can go on, and it stops doing so only with the input closed.\<close>

lemma end_of_input_passed_on:
  assumes "program s \<noteq> Not_started" "client_eof s"
  shows "(\<forall>n t. (run_step False Server ^^ n) s t \<longrightarrow>
      n \<le> work_left s \<and> (stdin_closed t \<or> (\<exists>u. run_step False Server t u))) \<and>
    (\<exists>n t. (run_step False Server ^^ n) s t \<and> stdin_closed t)"
  by (rule passing.comes_to_end) (simp add: assms)

lemma abandoned_keeps:
  assumes "run_step True m s t" "m \<noteq> World"
    "turn s = Relaying \<and> program s = Runs \<and> client_gone s \<and> copier s Out = Copying \<and> piped s Out = [] \<and> \<not> stdin_closed s"
  shows "turn t = Relaying \<and> program t = Runs \<and> client_gone t \<and> copier t Out = Copying \<and> piped t Out = [] \<and> \<not> stdin_closed t"
  using assms by (cases rule: run_step.cases) (auto simp: no_writer_def cmd_wait_def)

text \<open>A terminal is not hung up when its client is gone. With a terminal there are states, reached by a
  client that disconnects from an idle shell, from which nothing the server or the client can do
  closes the program's input, ends it or ends the session: it waits for input for ever.\<close>

theorem abandoned_terminal_stays:
  "\<exists>s. run_reach True s \<and> client_gone s \<and> (\<forall>t. \<not> run_step True Server s t) \<and>
    (\<forall>t. (\<lambda>u v. run_step True Server u v \<or> run_step True Client u v)\<^sup>*\<^sup>* s t \<longrightarrow>
       program t = Runs \<and> \<not> stdin_closed t \<and> turn t = Relaying)"
proof -
  define s1 where "s1 = session_init\<lparr>turn := Relaying, program := Runs\<rparr>"
  define s2 where "s2 = s1\<lparr>client_eof := True, client_gone := True\<rparr>"
  have "run_reach True s1"
    unfolding s1_def using run_goes [OF run_starts launch [of session_init True]] by (simp add: session_init_def)
  then have r: "run_reach True s2" unfolding s2_def by (rule run_goes [OF _ leaves])
  have s2: "turn s2 = Relaying" "program s2 = Runs" "client_gone s2" "copier s2 Out = Copying"
      "piped s2 Out = []" "\<not> stdin_closed s2" "typed s2 = []"
    by (simp_all add: s2_def s1_def session_init_def)
  have stuck: "\<not> run_step True Server s2 t" for t
  proof
    assume "run_step True Server s2 t"
    then show False using s2 by (cases rule: run_step.cases) (auto simp: no_writer_def)
  qed
  have "turn t = Relaying \<and> program t = Runs \<and> client_gone t \<and> copier t Out = Copying \<and> piped t Out = [] \<and> \<not> stdin_closed t"
    if "(\<lambda>u v. run_step True Server u v \<or> run_step True Client u v)\<^sup>*\<^sup>* s2 t" for t
    using that
  proof (induction rule: rtranclp_induct)
    case base
    with s2 show ?case by simp
  next
    case (step u v)
    then show ?case using abandoned_keeps by blast
  qed
  with r s2 stuck show ?thesis by blast
qed

section \<open>A session, from start to end\<close>

text \<open>On a terminal a program writes two bytes and exits with 3.\<close>

definition said :: run where
  "said = session_init\<lparr>turn := Relaying, program := Ends (Exited 3), piped := (\<lambda>_. [])(Out := ''hi''),
     written := (\<lambda>_. [])(Out := ''hi'')\<rparr>"

definition relayed_all :: run where
  "relayed_all = said\<lparr>turn := Awaiting, piped := (\<lambda>_. []), copier := (\<lambda>_. Copying)(Out := Copied), on_wire := [Data Out ''hi'']\<rparr>"

definition said_all :: run where
  "said_all = relayed_all\<lparr>turn := Closed, stdin_closed := True, on_wire := [Data Out ''hi'', Exit_status 3, Channel_close]\<rparr>"

lemma said_reached: "run_reach True said"
proof -
  have "run_reach True (session_init\<lparr>turn := Relaying, program := Runs\<rparr>)"
    using run_goes [OF run_starts launch [of session_init True]] by (simp add: session_init_def)
  from run_goes [OF this writes [of Out True _ "''hi''"]]
  have "run_reach True (session_init\<lparr>turn := Relaying, program := Runs, piped := (\<lambda>_. [])(Out := ''hi''), written := (\<lambda>_. [])(Out := ''hi'')\<rparr>)"
    by (simp add: session_init_def)
  from run_goes [OF this ends [of _ True "Exited 3"]] show ?thesis by (simp add: said_def session_init_def)
qed

lemma said_relays: "(run_step True Server ^^ 3) said relayed_all"
proof -
  let ?a = "said\<lparr>piped := (\<lambda>_. []), on_wire := [Data Out ''hi'']\<rparr>"
  have "run_step True Server said ?a"
    using copy_out [of Out True said "''hi''" "[]"] by (simp add: said_def session_init_def send_wire_def fun_upd_idem)
  moreover have "run_step True Server ?a (?a\<lparr>copier := (\<lambda>_. Copying)(Out := Copied)\<rparr>)"
    using copy_ends [of Out True ?a] by (simp add: said_def session_init_def no_writer_def)
  moreover have "run_step True Server (?a\<lparr>copier := (\<lambda>_. Copying)(Out := Copied)\<rparr>) relayed_all"
    using relayed [of "?a\<lparr>copier := (\<lambda>_. Copying)(Out := Copied)\<rparr>" True]
    by (simp add: said_def session_init_def relayed_all_def)
  ultimately show ?thesis by (auto simp: numeral_3_eq_3)
qed

lemma said_ends: "(run_step True Server ^^ 2) relayed_all said_all"
proof -
  let ?b = "relayed_all\<lparr>turn := Told, stdin_closed := True, on_wire := [Data Out ''hi'', Exit_status 3]\<rparr>"
  have "run_step True Server relayed_all ?b"
    using tells [of relayed_all True "(Some (Exited 3), True)"]
    by (simp add: relayed_all_def said_def session_init_def cmd_wait_def session_status_def send_wire_def)
  moreover have "run_step True Server ?b said_all"
    using closes_channel [of ?b True] by (simp add: said_all_def relayed_all_def said_def session_init_def send_wire_def)
  ultimately show ?thesis by (auto simp: numeral_2_eq_2)
qed

lemma server_run_reached: "(run_step pty Server ^^ n) s t \<Longrightarrow> run_reach pty s \<Longrightarrow> run_reach pty t"
proof (induction n arbitrary: t)
  case (Suc n)
  then obtain u where "(run_step pty Server ^^ n) s u" "run_step pty Server u t" by auto
  with Suc show ?case by (blast intro: run_goes)
qed simp

theorem session_output_then_status_witness:
  "\<exists>ds. on_wire said_all = ds @ [Exit_status 3, Channel_close] \<and> sent_on Out ds = ''hi''"
proof -
  have "run_reach True said_all"
    using server_run_reached [OF said_ends server_run_reached [OF said_relays said_reached]] .
  from session_output_then_status [OF this] show ?thesis
    by (simp add: said_all_def relayed_all_def said_def session_init_def owed_def)
qed


end
