(* ===== verification/WatchdogPet.thy ===== *)
theory WatchdogPet
  imports Watchdog
begin

text \<open>
  The watchdog after the pivot (\<open>Watchdog\<close>, \<open>StartWatchdog\<close>, \<open>AdoptWatchdog\<close>, \<open>pet\<close> and \<open>Close\<close> of
  \<open>internal/postpivot/watchdog_linux.go\<close>): the goroutine that pets it and the caller that closes it
  move independently, so they are a step relation; a second relation has the time between pets.
\<close>

section \<open>Starting\<close>

definition start_watchdog :: "int \<Rightarrow> (watchdog_error, bool) res io" where
  "start_watchdog timeout =
     (if timeout \<le> 0 then ret (Inr False)
      else bind_ok open_watchdog (\<lambda>_.
           attempt (Watchdog_timeout (watchdog_seconds timeout)) (ret (Inr True))))"

section \<open>Petting and closing\<close>

text \<open>Where the petting goroutine is: in its select, between the tick and the write, or returned.\<close>

datatype petter = Selecting | Writing | Gone

text \<open>Where the one run of \<open>Close\<close> is; \<open>once\<close> makes every later call do nothing.\<close>

datatype closer = Not_called | Done_closed | Magic_written | Closed

text \<open>\<open>trail\<close> has the calls on the device since it was armed; \<open>late_pet\<close>, a history variable, says that
  a pet was written after the magic byte.\<close>

record petting =
  petter :: petter
  closer :: closer
  tick_ready :: bool
  trail :: history
  late_pet :: bool

definition petting_init :: petting where
  "petting_init = \<lparr>petter = Selecting, closer = Not_called, tick_ready = False,
     trail = [(Open_watchdog, None)], late_pet = False\<rparr>"

definition on_device :: "call \<Rightarrow> petting \<Rightarrow> petting" where
  "on_device c s = s\<lparr>trail := trail s @ [(c, None)]\<rparr>"

text \<open>The device answers every call here; a write after the descriptor is closed fails in the
  runtime and does not reach it.\<close>

inductive pet_step :: "petting \<Rightarrow> petting \<Rightarrow> bool" where
  ticks: "pet_step s (s\<lparr>tick_ready := True\<rparr>)"
| takes_tick: "petter s = Selecting \<Longrightarrow> tick_ready s \<Longrightarrow>
    pet_step s (s\<lparr>petter := Writing, tick_ready := False\<rparr>)"
| sees_done: "petter s = Selecting \<Longrightarrow> closer s \<noteq> Not_called \<Longrightarrow> pet_step s (s\<lparr>petter := Gone\<rparr>)"
| pets: "petter s = Writing \<Longrightarrow> closer s \<noteq> Closed \<Longrightarrow>
    pet_step s (on_device (Watchdog_write CHR 0x00)
      (s\<lparr>petter := Selecting, late_pet := (late_pet s \<or> closer s = Magic_written)\<rparr>))"
| pets_too_late: "petter s = Writing \<Longrightarrow> closer s = Closed \<Longrightarrow> pet_step s (s\<lparr>petter := Selecting\<rparr>)"
| closes_done: "closer s = Not_called \<Longrightarrow> pet_step s (s\<lparr>closer := Done_closed\<rparr>)"
| writes_magic: "closer s = Done_closed \<Longrightarrow>
    pet_step s (on_device (Watchdog_write CHR ''V'') (s\<lparr>closer := Magic_written\<rparr>))"
| closes_device: "closer s = Magic_written \<Longrightarrow>
    pet_step s (on_device Watchdog_close (s\<lparr>closer := Closed\<rparr>))"

inductive pet_reach :: "petting \<Rightarrow> bool" where
  adopted: "pet_reach petting_init"
| moved: "pet_reach s \<Longrightarrow> pet_step s t \<Longrightarrow> pet_reach t"

section \<open>The device while the two race\<close>

definition device_ok :: "petting \<Rightarrow> bool" where
  "device_ok s \<longleftrightarrow>
     dog_after (trail s) =
       (case closer s of
          Not_called \<Rightarrow> Armed
        | Done_closed \<Rightarrow> Armed
        | Magic_written \<Rightarrow> (if late_pet s then Armed else Disarming)
        | Closed \<Rightarrow> (if late_pet s then Armed else Idle)) \<and>
     (late_pet s \<longrightarrow> closer s = Magic_written \<or> closer s = Closed)"

lemma on_device_sel [simp]:
  "petter (on_device c s) = petter s" "closer (on_device c s) = closer s"
  "late_pet (on_device c s) = late_pet s" "dog_after (trail (on_device c s)) = dog_event (dog_after (trail s)) c"
  by (simp_all add: on_device_def dog_snoc)

lemma dog_event_simps [simp]:
  "dog_event s (Watchdog_write b) = (if s = Idle then Idle else if b = CHR ''V'' then Disarming else Armed)"
  "dog_event s Watchdog_close = (if s = Disarming then Idle else s)"
  by (simp_all add: dog_event_def)

lemma pet_step_device: "pet_step s t \<Longrightarrow> device_ok s \<Longrightarrow> device_ok t"
  by (induction rule: pet_step.induct) (auto simp: device_ok_def split: closer.splits)

lemma pet_reach_device: "pet_reach s \<Longrightarrow> device_ok s"
proof (induction rule: pet_reach.induct)
  case adopted
  then show ?case by (simp add: device_ok_def petting_init_def dog_after_def dog_event_def)
next
  case (moved s t)
  then show ?case by (blast intro: pet_step_device)
qed

text \<open>What closing the watchdog does to the device. Until the magic byte is written the device keeps
  running, however often it is petted; once \<open>Close\<close> has returned it is stopped exactly when no pet was
  written between the magic byte and the close of the descriptor.\<close>

theorem watchdog_close_exact:
  assumes "pet_reach s"
  shows "(closer s \<in> {Not_called, Done_closed} \<longrightarrow> dog_after (trail s) = Armed) \<and>
    (closer s = Closed \<longrightarrow> dog_after (trail s) = (if late_pet s then Armed else Idle))"
  using pet_reach_device [OF assms] by (auto simp: device_ok_def)

theorem watchdog_close_exact_witness: "dog_after (trail petting_init) = Armed"
  using watchdog_close_exact [OF adopted] by (simp add: petting_init_def)

text \<open>C34: The watchdog can outlive its \<open>Close\<close>: a tick taken just before \<open>Close\<close> lets the goroutine write its
  pet after the magic byte, which revokes it, and the close of the descriptor then leaves the
  device running with nobody to pet it, although every call on it has succeeded.\<close>

theorem watchdog_outlives_close:
  "\<exists>s. pet_reach s \<and> closer s = Closed \<and> petter s = Gone \<and> dog_after (trail s) = Armed"
proof -
  let ?s1 = "petting_init\<lparr>tick_ready := True\<rparr>"
  let ?s2 = "?s1\<lparr>petter := Writing, tick_ready := False\<rparr>"
  let ?s3 = "?s2\<lparr>closer := Done_closed\<rparr>"
  let ?s4 = "on_device (Watchdog_write CHR ''V'') (?s3\<lparr>closer := Magic_written\<rparr>)"
  let ?s5 = "on_device (Watchdog_write CHR 0x00) (?s4\<lparr>petter := Selecting, late_pet := (late_pet ?s4 \<or> closer ?s4 = Magic_written)\<rparr>)"
  let ?s6 = "on_device Watchdog_close (?s5\<lparr>closer := Closed\<rparr>)"
  let ?s7 = "?s6\<lparr>petter := Gone\<rparr>"
  have "pet_reach ?s1" by (rule moved [OF adopted ticks])
  then have "pet_reach ?s2" by (rule moved [OF _ takes_tick]) (simp_all add: petting_init_def)
  then have "pet_reach ?s3" by (rule moved [OF _ closes_done]) (simp add: petting_init_def)
  then have "pet_reach ?s4" by (rule moved [OF _ writes_magic]) simp
  then have "pet_reach ?s5" by (rule moved [OF _ pets]) simp_all
  then have "pet_reach ?s6" by (rule moved [OF _ closes_device]) simp
  then have r: "pet_reach ?s7" by (rule moved [OF _ sees_done]) simp_all
  have "dog_after (trail ?s7) = Armed"
    using pet_reach_device [OF r] by (simp add: device_ok_def)
  with r show ?thesis by (intro exI [of _ ?s7]) simp
qed

section \<open>In time\<close>

text \<open>\<open>tick.C\<close> fires every third of the timeout and holds one tick; the goroutine takes it and writes.
  Times are nanoseconds. The scheduler serves a tick within \<open>latency\<close>: time does not pass beyond
  that while a tick is waiting or its pet is being written.\<close>

definition pet_interval :: "int \<Rightarrow> int" where
  "pet_interval timeout = timeout div 3"

record schedule =
  now :: int
  next_tick :: int
  last_pet :: int
  in_channel :: "int option"
  in_hand :: "int option"

definition adopt_at :: "int \<Rightarrow> int \<Rightarrow> int \<Rightarrow> schedule" where
  "adopt_at timeout armed start =
     \<lparr>now = start, next_tick = start + pet_interval timeout, last_pet = armed,
      in_channel = None, in_hand = None\<rparr>"

definition served :: "int \<Rightarrow> schedule \<Rightarrow> int \<Rightarrow> bool" where
  "served latency s t \<longleftrightarrow>
     (case in_channel s of None \<Rightarrow> True | Some u \<Rightarrow> t \<le> u + latency) \<and>
     (case in_hand s of None \<Rightarrow> True | Some u \<Rightarrow> t \<le> u + latency)"

inductive tick_step :: "int \<Rightarrow> int \<Rightarrow> schedule \<Rightarrow> schedule \<Rightarrow> bool" for timeout latency where
  elapses: "now s < t \<Longrightarrow> t \<le> next_tick s \<Longrightarrow> served latency s t \<Longrightarrow>
    tick_step timeout latency s (s\<lparr>now := t\<rparr>)"
| fires: "now s = next_tick s \<Longrightarrow>
    tick_step timeout latency s
      (s\<lparr>next_tick := now s + pet_interval timeout,
         in_channel := (case in_channel s of None \<Rightarrow> Some (now s) | Some t \<Rightarrow> Some t)\<rparr>)"
| takes: "in_hand s = None \<Longrightarrow> in_channel s = Some t \<Longrightarrow>
    tick_step timeout latency s (s\<lparr>in_hand := Some t, in_channel := None\<rparr>)"
| writes: "in_hand s = Some t \<Longrightarrow>
    tick_step timeout latency s (s\<lparr>in_hand := None, last_pet := now s\<rparr>)"

inductive tick_reach :: "int \<Rightarrow> int \<Rightarrow> int \<Rightarrow> int \<Rightarrow> schedule \<Rightarrow> bool" for timeout latency armed start where
  at_adoption: "tick_reach timeout latency armed start (adopt_at timeout armed start)"
| thereafter: "tick_reach timeout latency armed start s \<Longrightarrow> tick_step timeout latency s t \<Longrightarrow>
    tick_reach timeout latency armed start t"

text \<open>Every moment is at most an interval after a tick; a tick not yet served is at most \<open>latency\<close> old, and
  the last pet is at most an interval, and the time lost before the adoption, older than it.\<close>

definition in_time :: "int \<Rightarrow> int \<Rightarrow> int \<Rightarrow> schedule \<Rightarrow> bool" where
  "in_time timeout latency gap s \<longleftrightarrow>
     next_tick s - pet_interval timeout \<le> now s \<and> now s \<le> next_tick s \<and> served latency s (now s) \<and>
     (\<forall>t. in_channel s = Some t \<longrightarrow> t \<le> now s) \<and>
     (case in_hand s of
        Some t \<Rightarrow> t \<le> now s \<and> t - pet_interval timeout - gap \<le> last_pet s
      | None \<Rightarrow>
          (case in_channel s of
             Some t \<Rightarrow> t - pet_interval timeout - gap \<le> last_pet s
           | None \<Rightarrow> next_tick s - pet_interval timeout - gap \<le> last_pet s))"

lemma tick_step_in_time:
  assumes "tick_step timeout latency s t" "in_time timeout latency gap s"
    "0 \<le> gap" "0 \<le> latency" "0 < pet_interval timeout"
  shows "in_time timeout latency gap t"
  using assms
  by (induction rule: tick_step.induct)
     (auto simp: in_time_def served_def split: option.splits)

lemma tick_reach_in_time:
  assumes "tick_reach timeout latency armed start s" "armed \<le> start" "0 \<le> latency" "0 < pet_interval timeout"
  shows "in_time timeout latency (start - armed) s"
  using assms
proof (induction rule: tick_reach.induct)
  case at_adoption
  then show ?case by (simp add: in_time_def adopt_at_def served_def)
next
  case (thereafter s t)
  then show ?case by (intro tick_step_in_time [OF thereafter(2)]) auto
qed

text \<open>The device is set to whole seconds, at least one.\<close>

definition device_timeout :: "int \<Rightarrow> int" where
  "device_timeout timeout = 1000000000 * watchdog_seconds timeout"

text \<open>C24: The petting keeps the watchdog from firing. If the time between arming the device and adopting
  it, together with the time the scheduler takes to serve a tick, stays below the whole seconds the
  device was set to less the interval between ticks, a third of the configured timeout, the device
  is never left unpetted for as long as it waits before it resets the machine.\<close>

theorem watchdog_fed_in_time:
  assumes "tick_reach timeout latency armed start s" "armed \<le> start" "0 \<le> latency" "3 \<le> timeout"
    "(start - armed) + latency < device_timeout timeout - pet_interval timeout"
  shows "now s < last_pet s + device_timeout timeout"
proof -
  have "0 < pet_interval timeout" using assms(4) by (simp add: pet_interval_def)
  from tick_reach_in_time [OF assms(1-3) this] assms(3,5) show ?thesis
    by (auto simp: in_time_def served_def split: option.splits)
qed

text \<open>A minute, a second of latency, ten seconds before the adoption; the first pet a second late.\<close>

definition first_pet :: schedule where
  "first_pet = \<lparr>now = 31000000000, next_tick = 50000000000, last_pet = 31000000000,
     in_channel = None, in_hand = None\<rparr>"

lemma first_pet_reached: "tick_reach 60000000000 1000000000 0 10000000000 first_pet"
proof -
  let ?r = "tick_reach 60000000000 1000000000 0 10000000000"
  let ?s = "\<lambda>n x p c h. \<lparr>now = n, next_tick = x, last_pet = p, in_channel = c, in_hand = h\<rparr>"
  have 0: "?r (?s 10000000000 30000000000 0 None None)"
    using at_adoption [of 60000000000 1000000000 0 10000000000] by (simp add: adopt_at_def pet_interval_def)
  have 1: "?r (?s 30000000000 30000000000 0 None None)"
    using thereafter [OF 0 elapses [of _ 30000000000]] by (simp add: served_def)
  have 2: "?r (?s 30000000000 50000000000 0 (Some 30000000000) None)"
    using thereafter [OF 1 fires] by (simp add: pet_interval_def)
  have 3: "?r (?s 30000000000 50000000000 0 None (Some 30000000000))"
    using thereafter [OF 2 takes] by simp
  have 4: "?r (?s 31000000000 50000000000 0 None (Some 30000000000))"
    using thereafter [OF 3 elapses [of _ 31000000000]] by (simp add: served_def)
  show ?thesis using thereafter [OF 4 writes] by (simp add: first_pet_def)
qed

theorem watchdog_fed_in_time_witness: "now first_pet < last_pet first_pet + device_timeout 60000000000"
  by (rule watchdog_fed_in_time [OF first_pet_reached])
     (simp_all add: pet_interval_def device_timeout_def watchdog_seconds_def)

end
