(* ===== verification/LogHandler.thy ===== *)
theory LogHandler
  imports World
begin

text \<open>
  The log (\<open>internal/log/log.go\<close>): a record is printed to stderr piece by piece and, as one plain
  line, to a buffer that outlives the pivot and to every registered sink. First each method on
  its own, then goroutines that log and register sinks at the same time.
\<close>

section \<open>A record and its line\<close>

text \<open>Levels are \<open>slog.Level\<close>, integers.\<close>

definition LevelDebug :: int where "LevelDebug = - 4"
definition LevelInfo :: int where "LevelInfo = 0"
definition LevelWarn :: int where "LevelWarn = 4"
definition LevelError :: int where "LevelError = 8"

definition level_tag :: "int \<Rightarrow> string" where
  "level_tag lvl =
     (if lvl \<ge> LevelError then ''ERROR'' else if lvl \<ge> LevelWarn then ''WARN''
      else if lvl \<ge> LevelInfo then ''INFO'' else ''DEBUG'')"

definition escape :: "string \<Rightarrow> string" where "escape s = CHR 0x1B # s"

definition level_color :: "int \<Rightarrow> string" where
  "level_color lvl =
     (if lvl \<ge> LevelError then escape ''[31m'' else if lvl \<ge> LevelWarn then escape ''[33m''
      else if lvl \<ge> LevelInfo then escape ''[32m'' else escape ''[36m'')"

definition color_reset :: string where "color_reset = escape ''[0m''"

text \<open>A record; the value of an attribute as \<open>%v\<close> prints it.\<close>

record log_record =
  rec_level :: int
  rec_message :: string
  rec_attrs :: "(string \<times> string) list"

text \<open>A handler; \<open>mu\<close> is the identity of its mutex. The streams and the sinks are shared with its clones.\<close>

record handler =
  mu :: nat
  min_level :: int
  colors :: bool
  scope :: string

record streams =
  stderr_text :: string
  buffer_text :: string
  sink_texts :: "string list"

definition new_handler :: "nat \<Rightarrow> int \<Rightarrow> bool \<Rightarrow> handler \<times> streams" where
  "new_handler m lvl cols =
     (\<lparr>mu = m, min_level = lvl, colors = cols, scope = []\<rparr>,
      \<lparr>stderr_text = [], buffer_text = [], sink_texts = []\<rparr>)"

definition attr_text :: "string \<times> string \<Rightarrow> string" where
  "attr_text a = '' '' @ fst a @ ''='' @ snd a"

definition bracketed :: "string \<Rightarrow> string" where
  "bracketed s = ''['' @ s @ '']''"

definition newline :: string where "newline = [CHR 0x0A]"

text \<open>The writes to stderr, in order.\<close>

definition stderr_pieces :: "handler \<Rightarrow> log_record \<Rightarrow> string list" where
  "stderr_pieces h r =
     (let tag = level_tag (rec_level r)
      in [if colors h then level_color (rec_level r) @ bracketed tag @ color_reset @ '' ''
          else bracketed tag @ '' ''] @
         (if scope h \<noteq> [] then [bracketed (scope h) @ '' ''] else []) @
         [rec_message r] @ map attr_text (rec_attrs r) @ [newline])"

definition plain_line :: "handler \<Rightarrow> string \<Rightarrow> log_record \<Rightarrow> string" where
  "plain_line h tag r =
     bracketed tag @ '' '' @
     (if scope h \<noteq> [] then bracketed (scope h) @ '' '' else []) @
     rec_message r @ concat (map attr_text (rec_attrs r)) @ newline"

abbreviation line_of :: "handler \<Rightarrow> log_record \<Rightarrow> string" where
  "line_of h r \<equiv> plain_line h (level_tag (rec_level r)) r"

text \<open>The whole of \<open>Handle\<close>, undisturbed.\<close>

definition handle_record :: "handler \<Rightarrow> log_record \<Rightarrow> streams \<Rightarrow> streams" where
  "handle_record h r s =
     \<lparr>stderr_text = stderr_text s @ concat (stderr_pieces h r),
      buffer_text = buffer_text s @ line_of h r,
      sink_texts = map (\<lambda>t. t @ line_of h r) (sink_texts s)\<rparr>"

text \<open>\<open>AddSink\<close>: a sink with what it has already; \<open>nil\<close> is ignored.\<close>

definition add_sink :: "string option \<Rightarrow> streams \<Rightarrow> streams" where
  "add_sink w s = (case w of None \<Rightarrow> s | Some t \<Rightarrow> s\<lparr>sink_texts := sink_texts s @ [t]\<rparr>)"

definition enabled :: "handler \<Rightarrow> int \<Rightarrow> bool" where
  "enabled h lvl \<longleftrightarrow> lvl \<ge> min_level h"

definition set_level :: "int \<Rightarrow> handler \<Rightarrow> handler" where "set_level lvl h = h\<lparr>min_level := lvl\<rparr>"

definition set_colors :: "bool \<Rightarrow> handler \<Rightarrow> handler" where "set_colors on h = h\<lparr>colors := on\<rparr>"

text \<open>A clone has a mutex of its own, \<open>m\<close>.\<close>

definition clone :: "nat \<Rightarrow> handler \<Rightarrow> handler" where "clone m h = h\<lparr>mu := m\<rparr>"

definition with_attrs :: "nat \<Rightarrow> (string \<times> string) list \<Rightarrow> handler \<Rightarrow> handler" where
  "with_attrs m attrs h = clone m h"

definition with_group :: "nat \<Rightarrow> string \<Rightarrow> handler \<Rightarrow> handler" where
  "with_group m name h =
     (let c = clone m h
      in if scope c = [] then c\<lparr>scope := name\<rparr> else c\<lparr>scope := scope c @ ''.'' @ name\<rparr>)"

definition flush_buffer_to :: "streams \<Rightarrow> string \<Rightarrow> (errno, unit) res io" where
  "flush_buffer_to s path =
     (let data = buffer_text s; dir = path_dir path
      in if data = [] then ret (Inr ())
         else check (if dir \<noteq> [] then do_call (Mkdir_all dir 0x1ED) else ret None) (\<lambda>e. e)
              (check (do_call (Write_file path data 0x1A4)) (\<lambda>e. e) (ret (Inr ()))))"

text \<open>\<open>cli.InstallLogger\<close>: without journald, which reads stderr, the system log is a sink, if it can
  be reached.\<close>

definition journald_present :: "world \<Rightarrow> history \<Rightarrow> bool" where
  "journald_present w h \<longleftrightarrow>
     path_error w h ''/run/systemd/journal/socket'' = None \<or>
     path_error w h ''/run/systemd/journal/stdout'' = None"

definition attach_system_log_sink :: "streams \<Rightarrow> streams io" where
  "attach_system_log_sink s =
     bind_io (ask journald_present) (\<lambda>there.
       if there then ret s
       else bind_io (do_call Open_syslog) (\<lambda>r. ret (if r = None then add_sink (Some []) s else s)))"

definition install_logger :: "nat \<Rightarrow> int \<Rightarrow> bool \<Rightarrow> (handler \<times> streams) io" where
  "install_logger m lvl cols =
     (case new_handler m lvl cols of
        (h, s) \<Rightarrow> bind_io (attach_system_log_sink s) (\<lambda>s. ret (h, s)))"

text \<open>Without colours stderr gets what the buffer gets.\<close>

lemma uncolored_pieces: "\<not> colors h \<Longrightarrow> concat (stderr_pieces h r) = line_of h r"
  by (simp add: stderr_pieces_def plain_line_def Let_def)

text \<open>Attributes given to \<open>WithAttrs\<close> appear in no record.\<close>

lemma with_attrs_lost: "handle_record (with_attrs m attrs h) r s = handle_record (with_attrs m [] h) r s"
  by (simp add: with_attrs_def)

section \<open>Logging at the same time\<close>

text \<open>What a goroutine does: handle one record, or register a sink.\<close>

datatype job = Handle handler log_record | Register "string option"

fun do_job :: "job \<Rightarrow> streams \<Rightarrow> streams" where
  "do_job (Handle h r) s = handle_record h r s"
| "do_job (Register w) s = add_sink w s"

text \<open>Where it is: before the call, after so many writes to stderr, after the buffer, after so many
  sinks (with \<open>sinks.mu\<close>), with \<open>sinks.mu\<close> released, or done; or about to append the sink.\<close>

datatype phase = Ready | Printing nat | Buffered | Sinking nat | Leaving | Adding | Ended

record logging =
  streams_of :: streams
  holder :: "nat \<Rightarrow> nat option" \<comment> \<open>of each handler's mutex\<close>
  sinks_holder :: "nat option"
  phase_of :: "nat \<Rightarrow> phase"

definition log_init :: "streams \<Rightarrow> logging" where
  "log_init s = \<lparr>streams_of = s, holder = (\<lambda>_. None), sinks_holder = None, phase_of = (\<lambda>_. Ready)\<rparr>"

definition goes :: "nat \<Rightarrow> phase \<Rightarrow> logging \<Rightarrow> logging" where
  "goes i p s = s\<lparr>phase_of := (phase_of s)(i := p)\<rparr>"

inductive log_step :: "(nat \<Rightarrow> job) \<Rightarrow> logging \<Rightarrow> logging \<Rightarrow> bool" for jobs where
  locks: "jobs i = Handle h r \<Longrightarrow> phase_of s i = Ready \<Longrightarrow> holder s (mu h) = None \<Longrightarrow>
    log_step jobs s (goes i (Printing 0) (s\<lparr>holder := (holder s)(mu h := Some i)\<rparr>))"
| prints: "jobs i = Handle h r \<Longrightarrow> phase_of s i = Printing k \<Longrightarrow> k < length (stderr_pieces h r) \<Longrightarrow>
    log_step jobs s (goes i (Printing (Suc k))
      (s\<lparr>streams_of := (streams_of s)\<lparr>stderr_text := stderr_text (streams_of s) @ stderr_pieces h r ! k\<rparr>\<rparr>))"
| buffers: "jobs i = Handle h r \<Longrightarrow> phase_of s i = Printing (length (stderr_pieces h r)) \<Longrightarrow>
    log_step jobs s (goes i Buffered
      (s\<lparr>streams_of := (streams_of s)\<lparr>buffer_text := buffer_text (streams_of s) @ line_of h r\<rparr>\<rparr>))"
| locks_sinks: "phase_of s i = Buffered \<Longrightarrow> sinks_holder s = None \<Longrightarrow>
    log_step jobs s (goes i (Sinking 0) (s\<lparr>sinks_holder := Some i\<rparr>))"
| sinks: "jobs i = Handle h r \<Longrightarrow> phase_of s i = Sinking k \<Longrightarrow> k < length (sink_texts (streams_of s)) \<Longrightarrow>
    log_step jobs s (goes i (Sinking (Suc k))
      (s\<lparr>streams_of := (streams_of s)\<lparr>sink_texts := (sink_texts (streams_of s))[k := sink_texts (streams_of s) ! k @ line_of h r]\<rparr>\<rparr>))"
| unlocks_sinks: "phase_of s i = Sinking (length (sink_texts (streams_of s))) \<Longrightarrow>
    log_step jobs s (goes i Leaving (s\<lparr>sinks_holder := None\<rparr>))"
| unlocks: "jobs i = Handle h r \<Longrightarrow> phase_of s i = Leaving \<Longrightarrow>
    log_step jobs s (goes i Ended (s\<lparr>holder := (holder s)(mu h := None)\<rparr>))"
| ignores: "jobs i = Register None \<Longrightarrow> phase_of s i = Ready \<Longrightarrow> log_step jobs s (goes i Ended s)"
| registers: "jobs i = Register (Some t) \<Longrightarrow> phase_of s i = Ready \<Longrightarrow> sinks_holder s = None \<Longrightarrow>
    log_step jobs s (goes i Adding (s\<lparr>sinks_holder := Some i\<rparr>))"
| appends: "jobs i = Register w \<Longrightarrow> phase_of s i = Adding \<Longrightarrow>
    log_step jobs s (goes i Ended (s\<lparr>streams_of := add_sink w (streams_of s), sinks_holder := None\<rparr>))"

inductive log_reach :: "(nat \<Rightarrow> job) \<Rightarrow> streams \<Rightarrow> logging \<Rightarrow> bool" for jobs out where
  log_start: "log_reach jobs out (log_init out)"
| log_next: "log_reach jobs out s \<Longrightarrow> log_step jobs s t \<Longrightarrow> log_reach jobs out t"

end
