(* ===== verification/LogProofs.thy ===== *)
theory LogProofs
  imports LogHandler Progress
begin

text \<open>
  Goroutines that log through one handler write as if one after another; through a handler and its
  clone they do not.
\<close>

section \<open>The two mutexes\<close>

fun inside :: "phase \<Rightarrow> bool" where
  "inside (Printing _) = True" | "inside Buffered = True" | "inside (Sinking _) = True"
| "inside Leaving = True" | "inside _ = False"

fun at_sinks :: "phase \<Rightarrow> bool" where
  "at_sinks (Sinking _) = True" | "at_sinks Adding = True" | "at_sinks _ = False"

text \<open>\<open>one_lock m jobs\<close>: every record goes through a handler with the mutex \<open>m\<close>.\<close>

definition one_lock :: "nat \<Rightarrow> (nat \<Rightarrow> job) \<Rightarrow> bool" where
  "one_lock m jobs \<longleftrightarrow> (\<forall>i h r. jobs i = Handle h r \<longrightarrow> mu h = m)"

definition locked_right :: "nat \<Rightarrow> (nat \<Rightarrow> job) \<Rightarrow> logging \<Rightarrow> bool" where
  "locked_right m jobs s \<longleftrightarrow>
     (\<forall>i. holder s m = Some i \<longleftrightarrow> inside (phase_of s i)) \<and>
     (\<forall>i. sinks_holder s = Some i \<longleftrightarrow> at_sinks (phase_of s i)) \<and>
     (\<forall>i. inside (phase_of s i) \<longrightarrow> (\<exists>h r. jobs i = Handle h r)) \<and>
     (\<forall>i. phase_of s i = Adding \<longrightarrow> (\<exists>w. jobs i = Register w))"

lemma goes_sel [simp]:
  "phase_of (goes i p s) j = (if j = i then p else phase_of s j)" "streams_of (goes i p s) = streams_of s"
  "holder (goes i p s) = holder s" "sinks_holder (goes i p s) = sinks_holder s"
  by (simp_all add: goes_def)

lemma locked_right_init: "locked_right m jobs (log_init st)"
  by (simp add: locked_right_def log_init_def)

lemma locked_rightD:
  assumes "locked_right m jobs s"
  shows "holder s m = Some i \<longleftrightarrow> inside (phase_of s i)" "sinks_holder s = Some i \<longleftrightarrow> at_sinks (phase_of s i)"
    "inside (phase_of s i) \<Longrightarrow> \<exists>h r. jobs i = Handle h r"
    "phase_of s i = Adding \<Longrightarrow> \<exists>w. jobs i = Register w"
  using assms by (auto simp: locked_right_def)

lemma alone:
  assumes "locked_right m jobs s"
  shows "inside (phase_of s i) \<Longrightarrow> inside (phase_of s j) \<Longrightarrow> i = j"
    "at_sinks (phase_of s i) \<Longrightarrow> at_sinks (phase_of s j) \<Longrightarrow> i = j"
    "holder s m = None \<Longrightarrow> \<not> inside (phase_of s i)" "sinks_holder s = None \<Longrightarrow> \<not> at_sinks (phase_of s i)"
  using locked_rightD(1,2) [OF assms, of i] locked_rightD(1,2) [OF assms, of j] by auto

lemma locked_right_step:
  assumes "log_step jobs s t" "one_lock m jobs" "locked_right m jobs s"
  shows "locked_right m jobs t"
proof -
  note d = locked_rightD [OF assms(3)] and a = alone [OF assms(3)]
  from assms(1) show ?thesis
  proof cases
    case (locks i h r)
    moreover from this assms(2) have "mu h = m" by (auto simp: one_lock_def)
    ultimately show ?thesis using a(3) d(2-4) by (auto simp: locked_right_def)
  next
    case (unlocks i h r)
    moreover from this assms(2) have "mu h = m" by (auto simp: one_lock_def)
    ultimately show ?thesis using a(1) [of i] d(2-4) by (auto simp: locked_right_def)
  next
    case (prints i h r k)
    then show ?thesis using d by (auto simp: locked_right_def)
  next
    case (buffers i h r)
    then show ?thesis using d by (auto simp: locked_right_def)
  next
    case (locks_sinks i)
    then show ?thesis using d a(4) by (auto simp: locked_right_def)
  next
    case (sinks i h r k)
    then show ?thesis using d by (auto simp: locked_right_def)
  next
    case (unlocks_sinks i)
    then show ?thesis using d a(2) [of i] by (auto simp: locked_right_def)
  next
    case (ignores i)
    then show ?thesis using d by (auto simp: locked_right_def)
  next
    case (registers i w)
    then show ?thesis using d a(4) by (auto simp: locked_right_def)
  next
    case (appends i w)
    then show ?thesis using d a(2) [of i] by (auto simp: locked_right_def)
  qed
qed

section \<open>One after another\<close>

definition run_jobs :: "(nat \<Rightarrow> job) \<Rightarrow> nat list \<Rightarrow> streams \<Rightarrow> streams" where
  "run_jobs jobs order st = fold (\<lambda>i. do_job (jobs i)) order st"

text \<open>What the streams hold while a goroutine is inside \<open>Handle\<close>.\<close>

fun partial :: "job \<Rightarrow> phase \<Rightarrow> streams \<Rightarrow> streams" where
  "partial (Handle h r) (Printing k) s =
     s\<lparr>stderr_text := stderr_text s @ concat (take k (stderr_pieces h r))\<rparr>"
| "partial (Handle h r) Buffered s =
     s\<lparr>stderr_text := stderr_text s @ concat (stderr_pieces h r), buffer_text := buffer_text s @ line_of h r\<rparr>"
| "partial (Handle h r) (Sinking k) s =
     s\<lparr>stderr_text := stderr_text s @ concat (stderr_pieces h r), buffer_text := buffer_text s @ line_of h r,
       sink_texts := map (\<lambda>t. t @ line_of h r) (take k (sink_texts s)) @ drop k (sink_texts s)\<rparr>"
| "partial _ _ s = s"

definition effective :: "phase \<Rightarrow> bool" where
  "effective p \<longleftrightarrow> p = Leaving \<or> p = Ended"

text \<open>A goroutine takes its turn in \<open>order\<close> when it gives up \<open>sinks.mu\<close>.\<close>

definition in_order :: "nat \<Rightarrow> (nat \<Rightarrow> job) \<Rightarrow> streams \<Rightarrow> logging \<Rightarrow> nat list \<Rightarrow> bool" where
  "in_order m jobs st s order \<longleftrightarrow>
     distinct order \<and> set order = {i. effective (phase_of s i)} \<and>
     streams_of s =
       (case holder s m of
          None \<Rightarrow> run_jobs jobs order st
        | Some i \<Rightarrow> partial (jobs i) (phase_of s i) (run_jobs jobs order st))"

lemma run_jobs_snoc [simp]: "run_jobs jobs (order @ [i]) st = do_job (jobs i) (run_jobs jobs order st)"
  by (simp add: run_jobs_def)

lemma partial_start [simp]: "partial (Handle h r) (Printing 0) s = s"
  by simp

lemma partial_prints:
  "k < length (stderr_pieces h r) \<Longrightarrow>
    (partial (Handle h r) (Printing k) s)
      \<lparr>stderr_text := stderr_text (partial (Handle h r) (Printing k) s) @ stderr_pieces h r ! k\<rparr> =
    partial (Handle h r) (Printing (Suc k)) s"
  by (simp add: take_Suc_conv_app_nth)

lemma partial_buffers:
  "(partial (Handle h r) (Printing (length (stderr_pieces h r))) s)
     \<lparr>buffer_text := buffer_text (partial (Handle h r) (Printing (length (stderr_pieces h r))) s) @ line_of h r\<rparr> =
   partial (Handle h r) Buffered s"
  by simp

lemma partial_locks_sinks: "partial (Handle h r) (Sinking 0) s = partial (Handle h r) Buffered s"
  by simp

lemma map_take_step:
  "k < length xs \<Longrightarrow>
    (map f (take k xs) @ drop k xs)[k := f ((map f (take k xs) @ drop k xs) ! k)] =
    map f (take (Suc k) xs) @ drop (Suc k) xs"
  by (simp add: list_update_append nth_append take_Suc_conv_app_nth Cons_nth_drop_Suc [symmetric])

lemma length_partial: "length (sink_texts (partial (Handle h r) (Sinking k) s)) = length (sink_texts s)"
  by simp

lemma partial_sinks:
  "k < length (sink_texts s) \<Longrightarrow>
    (partial (Handle h r) (Sinking k) s)
      \<lparr>sink_texts := (sink_texts (partial (Handle h r) (Sinking k) s))
        [k := sink_texts (partial (Handle h r) (Sinking k) s) ! k @ line_of h r]\<rparr> =
    partial (Handle h r) (Sinking (Suc k)) s"
  using map_take_step [of k "sink_texts s" "\<lambda>t. t @ line_of h r"] by simp

lemma partial_all_sinks:
  "partial (Handle h r) (Sinking (length (sink_texts s))) s = handle_record h r s"
  by (simp add: handle_record_def)

lemma partial_add_sink:
  "\<not> at_sinks p \<Longrightarrow> partial j p (add_sink w s) = add_sink w (partial j p s)"
  by (cases "(j, p, s)" rule: partial.cases) (auto simp: add_sink_def split: option.split)

declare partial.simps(1-3) [simp del]

lemma in_order_inside:
  "in_order m jobs st s order \<Longrightarrow> locked_right m jobs s \<Longrightarrow> inside (phase_of s i) \<Longrightarrow>
    streams_of s = partial (jobs i) (phase_of s i) (run_jobs jobs order st)"
  using locked_rightD(1) [of m jobs s i] by (simp add: in_order_def)

text \<open>The steps inside \<open>Handle\<close> that do not end a turn.\<close>

lemma in_order_same:
  assumes "in_order m jobs st s order" "holder s m = Some i"
    "phase_of t = (phase_of s)(i := p)" "holder t = holder s" "\<not> effective p" "\<not> effective (phase_of s i)"
    "streams_of t = partial (jobs i) p (run_jobs jobs order st)"
  shows "in_order m jobs st t order"
proof -
  have "{j. effective (phase_of t j)} = {j. effective (phase_of s j)}"
    using assms(3,5,6) by auto
  with assms show ?thesis by (simp add: in_order_def)
qed

lemma in_order_step:
  assumes "log_step jobs s t" "one_lock m jobs" "locked_right m jobs s" "in_order m jobs st s order"
  shows "\<exists>order. in_order m jobs st t order"
proof -
  note d = locked_rightD [OF assms(3)] and a = alone [OF assms(3)]
  note out = in_order_inside [OF assms(4,3)]
  let ?base = "run_jobs jobs order st"
  from assms(1) show ?thesis
  proof cases
    case (locks i h r)
    moreover from this assms(2) have "mu h = m" by (auto simp: one_lock_def)
    moreover have "{j. effective (phase_of t j)} = {j. effective (phase_of s j)}"
      using locks by (auto simp: effective_def)
    ultimately show ?thesis using assms(4) by (auto simp: in_order_def)
  next
    case (prints i h r k)
    then have "in_order m jobs st t order"
      using assms(4) d(1) [of i] out [of i] partial_prints [of k h r ?base]
      by (intro in_order_same [of m jobs st s order i t "Printing (Suc k)"])
         (simp_all add: effective_def goes_def)
    then show ?thesis ..
  next
    case (buffers i h r)
    then have "in_order m jobs st t order"
      using assms(4) d(1) [of i] out [of i] partial_buffers [of h r ?base]
      by (intro in_order_same [of m jobs st s order i t Buffered]) (simp_all add: effective_def goes_def)
    then show ?thesis ..
  next
    case (locks_sinks i)
    moreover from this d(3) [of i] obtain h r where "jobs i = Handle h r" by auto
    ultimately have "in_order m jobs st t order"
      using assms(4) d(1) [of i] out [of i] partial_locks_sinks [of h r ?base]
      by (intro in_order_same [of m jobs st s order i t "Sinking 0"]) (simp_all add: effective_def goes_def)
    then show ?thesis ..
  next
    case (sinks i h r k)
    then have "in_order m jobs st t order"
      using assms(4) d(1) [of i] out [of i] partial_sinks [of k ?base h r] length_partial [of h r k ?base]
      by (intro in_order_same [of m jobs st s order i t "Sinking (Suc k)"]) (simp_all add: effective_def goes_def)
    then show ?thesis ..
  next
    case (unlocks_sinks i)
    have ins: "inside (phase_of s i)" by (simp add: unlocks_sinks(2))
    from d(3) [OF this] obtain h r where j: "jobs i = Handle h r" by blast
    have p: "streams_of s = partial (Handle h r) (Sinking (length (sink_texts (streams_of s)))) ?base"
      using out [OF ins] unfolding j unlocks_sinks(2) .
    have "length (sink_texts (streams_of s)) = length (sink_texts ?base)"
      by (subst p) (rule length_partial)
    with p have o: "streams_of s = handle_record h r ?base" by (simp only: partial_all_sinks)
    have ends: "\<not> effective (phase_of s i)" by (simp add: unlocks_sinks(2) effective_def)
    have "in_order m jobs st t (order @ [i])"
      using unlocks_sinks(1) ends assms(4) d(1) [of i] ins o j
      by (simp add: in_order_def effective_def) auto
    then show ?thesis ..
  next
    case (unlocks i h r)
    moreover from this assms(2) have "mu h = m" by (auto simp: one_lock_def)
    moreover have "{j. effective (phase_of t j)} = {j. effective (phase_of s j)}"
      using unlocks by (auto simp: effective_def)
    ultimately show ?thesis using assms(4) d(1) [of i] by (auto simp: in_order_def)
  next
    case (ignores i)
    then have "in_order m jobs st t (order @ [i])"
      using assms(4) d(1) [of i] by (auto simp: in_order_def effective_def add_sink_def split: option.splits)
    then show ?thesis ..
  next
    case (registers i w)
    moreover have "{j. effective (phase_of t j)} = {j. effective (phase_of s j)}"
      using registers by (auto simp: effective_def)
    ultimately show ?thesis using assms(4) d(1) [of i] by (auto simp: in_order_def split: option.splits)
  next
    case (appends i w)
    have n: "\<not> at_sinks (phase_of s j)" if "holder s m = Some j" for j
      using a(2) [of i j] d(1) [of j] that appends by auto
    have "in_order m jobs st t (order @ [i])"
      using appends assms(4) d(1) [of i] n
      by (auto simp: in_order_def effective_def partial_add_sink split: option.splits)
    then show ?thesis ..
  qed
qed

lemma log_reach_in_order:
  assumes "log_reach jobs st s" "one_lock m jobs"
  shows "locked_right m jobs s \<and> (\<exists>order. in_order m jobs st s order)"
  using assms(1)
proof (induction rule: log_reach.induct)
  case log_start
  have "in_order m jobs st (log_init st) []" by (simp add: in_order_def log_init_def effective_def run_jobs_def)
  then show ?case using locked_right_init by blast
next
  case (log_next s t)
  then show ?case using locked_right_step [OF _ assms(2)] in_order_step [OF _ assms(2)] by blast
qed

text \<open>What a job adds to the buffer.\<close>

fun job_line :: "job \<Rightarrow> string" where
  "job_line (Handle h r) = line_of h r" | "job_line (Register w) = []"

lemma do_job_buffer [simp]: "buffer_text (do_job j s) = buffer_text s @ job_line j"
  by (cases j) (simp_all add: handle_record_def add_sink_def split: option.split)

lemma run_jobs_buffer:
  "buffer_text (run_jobs jobs order st) = buffer_text st @ concat (map (\<lambda>i. job_line (jobs i)) order)"
  by (induction order arbitrary: st) (simp_all add: run_jobs_def)

text \<open>C22: Goroutines that log through one handler and register sinks leave stderr, the buffer and every sink
  as if their calls had been made one after another, in some order: whenever the handler's mutex is
  free, as it is when the buffer is flushed, the buffer is made of whole lines, one for each call
  that has ended, and each sink has the lines logged since it was registered.\<close>

theorem log_lines_whole:
  assumes "log_reach jobs st s" "one_lock m jobs" "holder s m = None"
  shows "\<exists>order. distinct order \<and> set order = {i. phase_of s i = Ended} \<and>
    streams_of s = run_jobs jobs order st \<and>
    buffer_text (streams_of s) = buffer_text st @ concat (map (\<lambda>i. job_line (jobs i)) order)"
proof -
  from log_reach_in_order [OF assms(1,2)] obtain order
    where l: "locked_right m jobs s" and o: "in_order m jobs st s order" by blast
  have "effective (phase_of s i) \<longleftrightarrow> phase_of s i = Ended" for i
    using alone(3) [OF l assms(3), of i] by (cases "phase_of s i") (simp_all add: effective_def)
  then have "{i. effective (phase_of s i)} = {i. phase_of s i = Ended}" by simp
  moreover from o assms(3) have "distinct order" "set order = {i. effective (phase_of s i)}"
    "streams_of s = run_jobs jobs order st"
    by (simp_all add: in_order_def)
  ultimately show ?thesis using run_jobs_buffer [of jobs order st] by (intro exI [of _ order]) simp
qed

section \<open>No deadlock\<close>

definition in_range :: "(nat \<Rightarrow> job) \<Rightarrow> logging \<Rightarrow> bool" where
  "in_range jobs s \<longleftrightarrow>
     (\<forall>i k h r. phase_of s i = Printing k \<longrightarrow> jobs i = Handle h r \<longrightarrow> k \<le> length (stderr_pieces h r)) \<and>
     (\<forall>i k. phase_of s i = Sinking k \<longrightarrow> k \<le> length (sink_texts (streams_of s)))"

lemma in_range_step: "log_step jobs s t \<Longrightarrow> in_range jobs s \<Longrightarrow> in_range jobs t"
proof (induction rule: log_step.induct)
  case (appends i w s)
  have "k \<le> length (sink_texts (streams_of s)) \<Longrightarrow> k \<le> length (sink_texts (add_sink w (streams_of s)))" for k
    by (simp add: add_sink_def split: option.split)
  with appends show ?case unfolding in_range_def by auto
qed (auto simp: in_range_def)

lemma log_reach_in_range: "log_reach jobs st s \<Longrightarrow> in_range jobs s"
proof (induction rule: log_reach.induct)
  case log_start
  then show ?case by (simp add: in_range_def log_init_def)
qed (rule in_range_step)

text \<open>The goroutine can take a step of its own.\<close>

definition moves :: "(nat \<Rightarrow> job) \<Rightarrow> nat \<Rightarrow> logging \<Rightarrow> bool" where
  "moves jobs i s \<longleftrightarrow> (\<exists>t. log_step jobs s t \<and> (\<forall>j. j \<noteq> i \<longrightarrow> phase_of t j = phase_of s j))"

lemma moves_by:
  "log_step jobs s (goes i p u) \<Longrightarrow> phase_of u = phase_of s \<Longrightarrow> moves jobs i s"
  unfolding moves_def by (rule exI [of _ "goes i p u"]) simp

lemma sinks_holder_moves:
  assumes "locked_right m jobs s" "sinks_holder s = Some i" "in_range jobs s"
  shows "moves jobs i s"
proof (cases "phase_of s i")
  case (Sinking k)
  with locked_rightD(3) [OF assms(1), of i] obtain h r where j: "jobs i = Handle h r" by auto
  show ?thesis
  proof (cases "k = length (sink_texts (streams_of s))")
    case True
    with Sinking show ?thesis by (intro moves_by [OF unlocks_sinks]) simp_all
  next
    case False
    with Sinking assms(3) have "k < length (sink_texts (streams_of s))"
      by (auto simp: in_range_def le_less)
    with j Sinking show ?thesis by (intro moves_by [OF sinks]) simp_all
  qed
next
  case Adding
  with locked_rightD(4) [OF assms(1), of i] obtain w where "jobs i = Register w" by blast
  with Adding show ?thesis by (intro moves_by [OF appends]) simp_all
qed (use locked_rightD(2) [OF assms(1), of i] assms(2) in auto)

lemma holder_moves:
  assumes "locked_right m jobs s" "holder s m = Some i" "in_range jobs s"
  shows "\<exists>j. moves jobs j s \<and> phase_of s j \<noteq> Ready"
proof -
  have ins: "inside (phase_of s i)" using assms(2) locked_rightD(1) [OF assms(1)] by simp
  with locked_rightD(3) [OF assms(1)] obtain h r where j: "jobs i = Handle h r" by blast
  have sink: "moves jobs k s \<and> phase_of s k \<noteq> Ready" if "sinks_holder s = Some k" for k
    using sinks_holder_moves [OF assms(1) that assms(3)] locked_rightD(2) [OF assms(1), of k] that
    by (cases "phase_of s k") auto
  show ?thesis
  proof (cases "phase_of s i")
    case (Printing k)
    with assms(3) j have "k < length (stderr_pieces h r) \<or> k = length (stderr_pieces h r)"
      by (auto simp: in_range_def le_less)
    then have "moves jobs i s"
    proof
      assume "k < length (stderr_pieces h r)"
      with j Printing show ?thesis by (intro moves_by [OF prints]) simp_all
    next
      assume "k = length (stderr_pieces h r)"
      with j Printing show ?thesis by (intro moves_by [OF buffers]) simp_all
    qed
    with Printing show ?thesis by auto
  next
    case Buffered
    show ?thesis
    proof (cases "sinks_holder s")
      case None
      with Buffered have "moves jobs i s" by (intro moves_by [OF locks_sinks]) simp_all
      with Buffered show ?thesis by auto
    qed (use sink in blast)
  next
    case (Sinking k)
    then show ?thesis using sink locked_rightD(2) [OF assms(1), of i] by auto
  next
    case Leaving
    with j have "moves jobs i s" by (intro moves_by [OF unlocks]) simp_all
    with Leaving show ?thesis by auto
  qed (use ins in auto)
qed

lemma somebody_moves:
  assumes "locked_right m jobs s" "in_range jobs s" "one_lock m jobs" "phase_of s i \<noteq> Ended"
  shows "\<exists>j. moves jobs j s \<and> (j = i \<or> phase_of s j \<noteq> Ready)"
proof (cases "holder s m = None \<and> sinks_holder s = None")
  case True
  then have ready: "phase_of s i = Ready"
    using alone(3) [OF assms(1), of i] alone(4) [OF assms(1), of i] assms(4) by (cases "phase_of s i") auto
  have "moves jobs i s"
  proof (cases "jobs i")
    case (Handle h r)
    with assms(3) True have "holder s (mu h) = None" by (auto simp: one_lock_def)
    with Handle ready show ?thesis by (intro moves_by [OF log_step.locks]) simp_all
  next
    case (Register w)
    show ?thesis
    proof (cases w)
      case None
      with Register ready show ?thesis by (intro moves_by [OF ignores]) simp_all
    next
      case (Some t)
      with Register ready True show ?thesis by (intro moves_by [OF registers]) simp_all
    qed
  qed
  then show ?thesis by blast
next
  case False
  then consider k where "holder s m = Some k" | k where "sinks_holder s = Some k" by auto
  then show ?thesis
  proof cases
    case 1
    with holder_moves [OF assms(1) _ assms(2)] show ?thesis by blast
  next
    case 2
    then have "phase_of s k \<noteq> Ready" using locked_rightD(2) [OF assms(1), of k] by auto
    with sinks_holder_moves [OF assms(1) 2 assms(2)] show ?thesis by blast
  qed
qed

text \<open>Logging never deadlocks on its two mutexes: as long as a call has not ended, some call can go on.\<close>

theorem logging_never_stuck:
  assumes "log_reach jobs st s" "one_lock m jobs" "phase_of s i \<noteq> Ended"
  shows "\<exists>t. log_step jobs s t"
  using somebody_moves [OF _ log_reach_in_range [OF assms(1)] assms(2,3)] log_reach_in_order [OF assms(1,2)]
  unfolding moves_def by blast

section \<open>Logging ends\<close>

text \<open>What a call still has to do, with \<open>L\<close> sinks and at most \<open>M\<close> to come.\<close>

fun job_work :: "nat \<Rightarrow> nat \<Rightarrow> job \<Rightarrow> phase \<Rightarrow> nat" where
  "job_work M L (Handle h r) Ready = length (stderr_pieces h r) + M + 6"
| "job_work M L (Handle h r) (Printing k) = length (stderr_pieces h r) - k + M + 5"
| "job_work M L (Handle h r) Buffered = M + 4"
| "job_work M L (Handle h r) (Sinking k) = L - k + 2"
| "job_work M L (Handle h r) Leaving = 1"
| "job_work M L (Register w) Ready = 2"
| "job_work M L (Register w) Adding = 1"
| "job_work M L _ _ = 0"

fun sink_due :: "job \<Rightarrow> phase \<Rightarrow> nat" where
  "sink_due (Register w) p = (if p = Ended then 0 else 1)"
| "sink_due (Handle h r) p = 0"

abbreviation sink_count :: "logging \<Rightarrow> nat" where
  "sink_count s \<equiv> length (sink_texts (streams_of s))"

definition sinks_ahead :: "nat \<Rightarrow> (nat \<Rightarrow> job) \<Rightarrow> logging \<Rightarrow> nat" where
  "sinks_ahead n jobs s = sink_count s + (\<Sum>i<n. sink_due (jobs i) (phase_of s i))"

definition log_work :: "nat \<Rightarrow> (nat \<Rightarrow> job) \<Rightarrow> logging \<Rightarrow> nat" where
  "log_work n jobs s = (\<Sum>i<n. job_work (sinks_ahead n jobs s) (sink_count s) (jobs i) (phase_of s i))"

lemma job_work_mono: "M' \<le> M \<Longrightarrow> job_work M' L j p \<le> job_work M L j p"
  by (cases j; cases p) auto

lemma job_work_sinks: "(\<forall>k. p \<noteq> Sinking k) \<Longrightarrow> job_work M L' j p = job_work M L j p"
  by (cases j; cases p) auto

text \<open>What one step does to the goroutine that takes it.\<close>

definition own_step :: "(nat \<Rightarrow> job) \<Rightarrow> nat \<Rightarrow> logging \<Rightarrow> logging \<Rightarrow> bool" where
  "own_step jobs i s t \<longleftrightarrow>
     (\<forall>j. j \<noteq> i \<longrightarrow> phase_of t j = phase_of s j) \<and> phase_of t i \<noteq> Ready \<and>
     (sink_count t = sink_count s \<or> phase_of s i = Adding) \<and>
     sink_count t + sink_due (jobs i) (phase_of t i) \<le> sink_count s + sink_due (jobs i) (phase_of s i) \<and>
     (\<forall>M. sink_count s \<le> M \<longrightarrow>
        job_work M (sink_count t) (jobs i) (phase_of t i) < job_work M (sink_count s) (jobs i) (phase_of s i))"

lemma log_step_own:
  assumes "log_step jobs s t" "locked_right m jobs s"
  shows "\<exists>i. own_step jobs i s t"
  using assms(1)
proof cases
  case (locks i h r)
  then show ?thesis by (intro exI [of _ i]) (simp add: own_step_def)
next
  case (prints i h r k)
  then show ?thesis by (intro exI [of _ i]) (auto simp: own_step_def)
next
  case (buffers i h r)
  then show ?thesis by (intro exI [of _ i]) (simp add: own_step_def)
next
  case (locks_sinks i)
  with locked_rightD(3) [OF assms(2), of i] obtain h r where "jobs i = Handle h r" by auto
  with locks_sinks show ?thesis by (intro exI [of _ i]) (simp add: own_step_def)
next
  case (sinks i h r k)
  then show ?thesis by (intro exI [of _ i]) (auto simp: own_step_def)
next
  case (unlocks_sinks i)
  with locked_rightD(3) [OF assms(2), of i] obtain h r where "jobs i = Handle h r" by auto
  with unlocks_sinks show ?thesis by (intro exI [of _ i]) (simp add: own_step_def)
next
  case (unlocks i h r)
  then show ?thesis by (intro exI [of _ i]) (simp add: own_step_def)
next
  case (ignores i)
  then show ?thesis by (intro exI [of _ i]) (simp add: own_step_def)
next
  case (registers i w)
  then show ?thesis by (intro exI [of _ i]) (simp add: own_step_def)
next
  case (appends i w)
  then show ?thesis by (intro exI [of _ i]) (simp add: own_step_def add_sink_def split: option.split)
qed

lemma own_step_ahead:
  assumes "own_step jobs i s t" "i < n"
  shows "sinks_ahead n jobs t \<le> sinks_ahead n jobs s"
proof -
  have "(\<Sum>j \<in> {..<n} - {i}. sink_due (jobs j) (phase_of t j)) = (\<Sum>j \<in> {..<n} - {i}. sink_due (jobs j) (phase_of s j))"
    using assms(1) by (intro sum.cong) (auto simp: own_step_def)
  with assms show ?thesis
    by (simp add: sinks_ahead_def own_step_def sum.remove [of "{..<n}" i])
qed

lemma own_step_works:
  assumes "own_step jobs i s t" "i < n" "locked_right m jobs s"
  shows "log_work n jobs t < log_work n jobs s"
  unfolding log_work_def
proof (rule sum_strict_mono_ex1)
  let ?w = "\<lambda>s j. job_work (sinks_ahead n jobs s) (sink_count s) (jobs j) (phase_of s j)"
  note ahead = own_step_ahead [OF assms(1,2)]
  have "sink_count s \<le> sinks_ahead n jobs s" by (simp add: sinks_ahead_def)
  then have "job_work (sinks_ahead n jobs s) (sink_count t) (jobs i) (phase_of t i) < ?w s i"
    using assms(1) by (simp add: own_step_def)
  with job_work_mono [OF ahead] have less: "?w t i < ?w s i" by (rule le_less_trans)
  show "\<exists>j \<in> {..<n}. ?w t j < ?w s j" using less assms(2) by blast
  have "?w t j \<le> ?w s j" if "j \<noteq> i" for j
  proof -
    have p: "phase_of t j = phase_of s j" using assms(1) that by (simp add: own_step_def)
    have "job_work (sinks_ahead n jobs s) (sink_count t) (jobs j) (phase_of s j) = ?w s j"
    proof (cases "sink_count t = sink_count s")
      case False
      with assms(1) have "phase_of s i = Adding" by (simp add: own_step_def)
      then have "\<not> at_sinks (phase_of s j)" using alone(2) [OF assms(3), of i j] that by auto
      then show ?thesis by (intro job_work_sinks) auto
    qed simp
    with job_work_mono [OF ahead] p show ?thesis by metis
  qed
  with less show "\<forall>j \<in> {..<n}. ?w t j \<le> ?w s j" by (metis less_imp_le)
qed simp

text \<open>Of the goroutines, only the first \<open>n\<close> call the handler.\<close>

definition crew_ready :: "nat \<Rightarrow> (nat \<Rightarrow> job) \<Rightarrow> streams \<Rightarrow> nat \<Rightarrow> logging \<Rightarrow> bool" where
  "crew_ready m jobs st n s \<longleftrightarrow> log_reach jobs st s \<and> one_lock m jobs \<and> (\<forall>i \<ge> n. phase_of s i = Ready)"

definition crew_step :: "(nat \<Rightarrow> job) \<Rightarrow> nat \<Rightarrow> logging \<Rightarrow> logging \<Rightarrow> bool" where
  "crew_step jobs n s t \<longleftrightarrow> log_step jobs s t \<and> (\<forall>i \<ge> n. phase_of t i = Ready)"

interpretation logging_crew: finite_worker "crew_step jobs n" "crew_ready m jobs st n" "log_work n jobs"
    "\<lambda>s. \<forall>i < n. phase_of s i = Ended" for jobs n m st
proof
  fix s t
  assume r: "crew_ready m jobs st n s" and t: "crew_step jobs n s t"
  then show "crew_ready m jobs st n t" by (auto simp: crew_ready_def crew_step_def intro: log_next)
  from r have l: "locked_right m jobs s" using log_reach_in_order by (auto simp: crew_ready_def)
  from t have "log_step jobs s t" by (simp add: crew_step_def)
  with l obtain i where i: "own_step jobs i s t" using log_step_own by blast
  with t have "i < n" by (auto simp: own_step_def crew_step_def not_less [symmetric])
  from own_step_works [OF i this l] show "log_work n jobs t < log_work n jobs s" .
next
  fix s
  assume r: "crew_ready m jobs st n s" and "\<not> (\<forall>i < n. phase_of s i = Ended)"
  then obtain i where i: "i < n" "phase_of s i \<noteq> Ended" by blast
  from r have l: "locked_right m jobs s" "in_range jobs s" "one_lock m jobs"
    using log_reach_in_order log_reach_in_range by (auto simp: crew_ready_def)
  with somebody_moves [OF l i(2)] obtain j where j: "moves jobs j s" "j = i \<or> phase_of s j \<noteq> Ready" by blast
  with r i(1) have "j < n" by (auto simp: crew_ready_def not_less [symmetric])
  with j(1) r show "\<exists>t. crew_step jobs n s t" by (auto simp: moves_def crew_step_def crew_ready_def)
qed

text \<open>C23: Logging comes to an end. When finitely many goroutines log or register sinks through handlers
  of one mutex, however they are scheduled, each run takes at most \<open>log_work\<close> steps, goes on until every
  call has ended, and there is one that ends all: nobody deadlocks on the two mutexes, and nobody
  waits for ever.\<close>

theorem logging_finishes:
  assumes "one_lock m jobs"
  shows "(\<forall>k s. (crew_step jobs n ^^ k) (log_init st) s \<longrightarrow>
      k \<le> log_work n jobs (log_init st) \<and> ((\<forall>i < n. phase_of s i = Ended) \<or> (\<exists>t. crew_step jobs n s t))) \<and>
    (\<exists>k s. (crew_step jobs n ^^ k) (log_init st) s \<and> (\<forall>i < n. phase_of s i = Ended))"
proof (rule logging_crew.comes_to_end)
  show "crew_ready m jobs st n (log_init st)"
    using assms log_start by (simp add: crew_ready_def log_init_def)
qed

section \<open>A run\<close>

text \<open>A handler with one sink, and two records logged in turn by two goroutines.\<close>

definition demo_handler :: handler where
  "demo_handler = \<lparr>mu = 0, min_level = LevelInfo, colors = False, scope = []\<rparr>"

definition say :: "string \<Rightarrow> log_record" where
  "say s = \<lparr>rec_level = LevelInfo, rec_message = s, rec_attrs = []\<rparr>"

definition demo_jobs :: "nat \<Rightarrow> job" where
  "demo_jobs i = (if i = 0 then Handle demo_handler (say ''a'') else Handle demo_handler (say ''b''))"

text \<open>Two goroutines with handlers of their own mutex, the second a clone of the first.\<close>

definition clone_jobs :: "nat \<Rightarrow> job" where
  "clone_jobs i =
     (if i = 0 then Handle demo_handler (say ''a'') else Handle (with_attrs i [] demo_handler) (say ''b''))"

definition no_streams :: streams where
  "no_streams = \<lparr>stderr_text = [], buffer_text = [], sink_texts = []\<rparr>"

lemma demo_pieces [simp]:
  "stderr_pieces demo_handler (say m) = [''[INFO] '', m, newline]"
  "stderr_pieces (with_attrs i [] demo_handler) (say m) = [''[INFO] '', m, newline]"
  by (simp_all add: stderr_pieces_def demo_handler_def say_def level_tag_def bracketed_def with_attrs_def
      clone_def LevelInfo_def LevelWarn_def LevelError_def Let_def)

lemma demo_line [simp]: "line_of demo_handler (say m) = ''[INFO] '' @ m @ newline"
  by (simp add: uncolored_pieces [symmetric] demo_handler_def) (simp add: demo_handler_def [symmetric])

lemma demo_mu [simp]: "mu demo_handler = 0" "mu (with_attrs i [] demo_handler) = i"
  by (simp_all add: demo_handler_def with_attrs_def clone_def)

lemma demo_one_lock: "one_lock 0 demo_jobs"
  by (simp add: one_lock_def demo_jobs_def)

lemma clone_jobs_simps [simp]:
  "clone_jobs 0 = Handle demo_handler (say ''a'')"
  "clone_jobs (Suc 0) = Handle (with_attrs 1 [] demo_handler) (say ''b'')"
  by (simp_all add: clone_jobs_def)

text \<open>The first goroutine of \<open>demo_jobs\<close> alone, from start to end.\<close>

definition solo :: "nat option \<Rightarrow> nat option \<Rightarrow> phase \<Rightarrow> string \<Rightarrow> string \<Rightarrow> logging" where
  "solo l k p txt buf =
     \<lparr>streams_of = \<lparr>stderr_text = txt, buffer_text = buf, sink_texts = []\<rparr>,
      holder = (\<lambda>_. None)(0 := l), sinks_holder = k, phase_of = (\<lambda>_. Ready)(0 := p)\<rparr>"

abbreviation demo_reach :: "logging \<Rightarrow> bool" where
  "demo_reach s \<equiv> log_reach demo_jobs no_streams s"

lemma demo_jobs_0 [simp]: "demo_jobs 0 = Handle demo_handler (say ''a'')"
  by (simp add: demo_jobs_def)

lemma solo_prints:
  assumes "demo_reach (solo (Some 0) None (Printing k) txt [])" "k < 3"
  shows "demo_reach (solo (Some 0) None (Printing (Suc k)) (txt @ [''[INFO] '', ''a'', newline] ! k) [])"
  using log_next [OF assms(1) log_step.prints [of demo_jobs 0 demo_handler "say ''a''" _ k]] assms(2)
  by (simp add: solo_def goes_def)

lemma solo_ends: "demo_reach (solo None None Ended (''[INFO] a'' @ newline) (''[INFO] a'' @ newline))"
proof -
  let ?l = "''[INFO] a'' @ newline"
  have "log_init no_streams = solo None None Ready [] []"
    by (auto simp: log_init_def solo_def no_streams_def)
  then have 0: "demo_reach (solo None None Ready [] [])" using log_start [of demo_jobs no_streams] by simp
  have "demo_reach (solo (Some 0) None (Printing 0) [] [])"
    using log_next [OF 0 log_step.locks [of demo_jobs 0 demo_handler "say ''a''"]] by (simp add: solo_def goes_def)
  from solo_prints [OF this] have "demo_reach (solo (Some 0) None (Printing 1) ''[INFO] '' [])" by simp
  from solo_prints [OF this] have "demo_reach (solo (Some 0) None (Printing 2) ''[INFO] a'' [])"
    by (simp add: numeral_2_eq_2)
  from solo_prints [OF this] have 1: "demo_reach (solo (Some 0) None (Printing 3) ?l [])"
    by (simp add: numeral_2_eq_2 numeral_3_eq_3)
  have 2: "demo_reach (solo (Some 0) None Buffered ?l ?l)"
    using log_next [OF 1 log_step.buffers [of demo_jobs 0 demo_handler "say ''a''"]] by (simp add: solo_def goes_def)
  have 3: "demo_reach (solo (Some 0) (Some 0) (Sinking 0) ?l ?l)"
    using log_next [OF 2 log_step.locks_sinks [of _ 0]] by (simp add: solo_def goes_def)
  have 4: "demo_reach (solo (Some 0) None Leaving ?l ?l)"
    using log_next [OF 3 log_step.unlocks_sinks [of _ 0]] by (simp add: solo_def goes_def)
  show ?thesis
    using log_next [OF 4 log_step.unlocks [of demo_jobs 0 demo_handler "say ''a''"]] by (simp add: solo_def goes_def)
qed

theorem log_lines_whole_witness:
  "\<exists>order. distinct order \<and> set order = {0 :: nat} \<and>
    ''[INFO] a'' @ newline = concat (map (\<lambda>i. job_line (demo_jobs i)) order)"
proof -
  have "{i. phase_of (solo None None Ended t b) i = Ended} = {0}" for t b by (auto simp: solo_def)
  with log_lines_whole [OF solo_ends demo_one_lock] show ?thesis
    by (simp add: solo_def no_streams_def) blast
qed

theorem logging_finishes_witness:
  "\<exists>k s. (crew_step demo_jobs 2 ^^ k) (log_init no_streams) s \<and> (\<forall>i < 2. phase_of s i = Ended)"
  using logging_finishes [OF demo_one_lock, of 2 no_streams] by blast

theorem logging_never_stuck_witness: "\<exists>t. log_step demo_jobs (log_init no_streams) t"
  by (rule logging_never_stuck [OF log_start demo_one_lock, of _ 0]) (simp add: log_init_def)

text \<open>Both inside \<open>Handle\<close>, with so many pieces written.\<close>

definition both :: "nat \<Rightarrow> nat \<Rightarrow> string \<Rightarrow> logging" where
  "both a b txt =
     \<lparr>streams_of = \<lparr>stderr_text = txt, buffer_text = [], sink_texts = []\<rparr>,
      holder = (\<lambda>_. None)(0 := Some 0, 1 := Some 1), sinks_holder = None,
      phase_of = (\<lambda>_. Ready)(0 := Printing a, 1 := Printing b)\<rparr>"

abbreviation clone_reach :: "logging \<Rightarrow> bool" where
  "clone_reach s \<equiv> log_reach clone_jobs no_streams s"

lemma both_prints:
  assumes "clone_reach (both a b txt)"
  shows "a < 3 \<Longrightarrow> clone_reach (both (Suc a) b (txt @ [''[INFO] '', ''a'', newline] ! a))"
    "b < 3 \<Longrightarrow> clone_reach (both a (Suc b) (txt @ [''[INFO] '', ''b'', newline] ! b))"
proof -
  let ?t = "\<lambda>i k p. goes i (Printing (Suc k)) ((both a b txt)\<lparr>streams_of := (streams_of (both a b txt))
    \<lparr>stderr_text := stderr_text (streams_of (both a b txt)) @ p\<rparr>\<rparr>)"
  show "clone_reach (both (Suc a) b (txt @ [''[INFO] '', ''a'', newline] ! a))" if "a < 3"
  proof -
    have "log_step clone_jobs (both a b txt) (?t 0 a (stderr_pieces demo_handler (say ''a'') ! a))"
      by (rule log_step.prints) (use that in \<open>simp_all add: both_def\<close>)
    from log_next [OF assms this] show ?thesis by (simp add: both_def goes_def fun_upd_twist)
  qed
  show "clone_reach (both a (Suc b) (txt @ [''[INFO] '', ''b'', newline] ! b))" if "b < 3"
  proof -
    have "log_step clone_jobs (both a b txt) (?t 1 b (stderr_pieces (with_attrs 1 [] demo_handler) (say ''b'') ! b))"
      by (rule log_step.prints) (use that in \<open>simp_all add: both_def\<close>)
    from log_next [OF assms this] show ?thesis by (simp add: both_def goes_def)
  qed
qed

lemma clone_both_in: "clone_reach (both 0 0 [])"
proof -
  let ?s0 = "log_init no_streams"
  let ?s1 = "goes 0 (Printing 0) (?s0\<lparr>holder := (holder ?s0)(mu demo_handler := Some 0)\<rparr>)"
  have "log_step clone_jobs ?s0 ?s1"
    by (rule log_step.locks [of _ _ _ "say ''a''"]) (simp_all add: log_init_def)
  from log_next [OF log_start this] have r1: "clone_reach ?s1" .
  let ?s2 = "goes 1 (Printing 0) (?s1\<lparr>holder := (holder ?s1)(mu (with_attrs 1 [] demo_handler) := Some 1)\<rparr>)"
  have "log_step clone_jobs ?s1 ?s2"
    by (rule log_step.locks [of _ _ _ "say ''b''"]) (simp_all add: log_init_def)
  from log_next [OF r1 this] show ?thesis by (simp add: log_init_def both_def goes_def no_streams_def)
qed

text \<open>A handler and its clone are not safe to use at the same time: each has a mutex of its own, so two
  goroutines can be inside \<open>Handle\<close> together, mix the pieces of their lines on stderr, and then both
  stand before the write to the buffer they share, which nothing protects.\<close>

theorem clones_interleave:
  "\<exists>s. log_reach clone_jobs no_streams s \<and>
    stderr_text (streams_of s) = ''[INFO] [INFO] ab'' @ newline @ newline \<and>
    phase_of s 0 = Printing (length (stderr_pieces demo_handler (say ''a''))) \<and>
    phase_of s 1 = Printing (length (stderr_pieces (with_attrs 1 [] demo_handler) (say ''b'')))"
proof -
  have "clone_reach (both 1 0 ''[INFO] '')" using both_prints(1) [OF clone_both_in] by simp
  from both_prints(2) [OF this] have "clone_reach (both 1 1 ''[INFO] [INFO] '')" by simp
  from both_prints(1) [OF this] have "clone_reach (both 2 1 ''[INFO] [INFO] a'')" by (simp add: numeral_2_eq_2)
  from both_prints(2) [OF this] have "clone_reach (both 2 2 ''[INFO] [INFO] ab'')" by (simp add: numeral_2_eq_2)
  from both_prints(1) [OF this] have "clone_reach (both 3 2 (''[INFO] [INFO] ab'' @ newline))"
    by (simp add: numeral_2_eq_2 numeral_3_eq_3)
  from both_prints(2) [OF this] have "clone_reach (both 3 3 (''[INFO] [INFO] ab'' @ newline @ newline))"
    by (simp add: numeral_2_eq_2 numeral_3_eq_3)
  then show ?thesis
    by (intro exI [of _ "both 3 3 (''[INFO] [INFO] ab'' @ newline @ newline)"]) (simp add: both_def)
qed

end
