(* ===== verification/TreeWalk.thy ===== *)
theory TreeWalk
  imports ExtractEffects WalkDir
begin

text \<open>
  Walks that only read the tree: the contract of a function handed to \<open>filepath.WalkDir\<close> that does not
  write, and what every such walk visits. The packing of a directory and the sum of its blocks are
  instances.
\<close>

section \<open>Reading a directory by its path\<close>

lemma join_abs_names:
  assumes "\<forall>c \<in> set (s @ names). normal c"
  shows "path_join (abs_path s # names) = abs_path (s @ names)"
proof (cases names)
  case Nil
  with assms show ?thesis using clean_abs_normal [of s] by (simp add: path_join_def)
next
  case (Cons c cs)
  then have "path_join (abs_path s # names) = path_join [abs_path s, rel_path names]"
    by (simp add: path_join_def)
  with assms show ?thesis using join_abs_rel [of s names] by simp
qed

lemma lstat_abs:
  assumes "tree_ok t" "look t p = Some n"
  shows "lstat t (abs_path p) = Inr n"
proof -
  have "\<forall>c \<in> set p. normal c" using assms tree_ok_normal by blast
  then show ?thesis using resolve_existing [OF assms, of False] assms(2)
    by (simp add: lstat_def lstat_c_def node_at_def comps_abs_path_normal comps_rel_path_normal)
qed

lemma read_dir_types_abs:
  assumes "tree_ok t" "dir_at t p"
  shows "read_dir_types t (abs_path p) = Inr (map (\<lambda>c. (c, dir_at t (p @ [c]))) (child_names t p))"
proof -
  obtain n where n: "look t p = Some n" "is_dir n" using assms(2) by (auto dest: dir_at_Some)
  then have "\<not> is_sym n" by (cases n) auto
  then show ?thesis
    using resolve_existing [OF assms(1) n(1), of True] remove_all_children(1) [OF assms]
      comps_abs_path_normal [OF tree_ok_names [OF assms]]
    by (simp add: read_dir_types_def)
qed

section \<open>The order of a walk\<close>

text \<open>Every name comes after that of its parent, and only once; \<open>A\<close> has the names before.\<close>

fun parents_first :: "loc set \<Rightarrow> loc list \<Rightarrow> bool" where
  "parents_first A [] = True"
| "parents_first A (x # xs) \<longleftrightarrow> x \<notin> A \<and> (x = [] \<or> butlast x \<in> A) \<and> parents_first (insert x A) xs"

lemma parents_first_append [simp]:
  "parents_first A (xs @ ys) \<longleftrightarrow> parents_first A xs \<and> parents_first (A \<union> set xs) ys"
  by (induction xs arbitrary: A) (auto simp: insert_commute)

lemma parents_first_distinct: "parents_first A xs \<Longrightarrow> distinct xs \<and> A \<inter> set xs = {}"
  by (induction xs arbitrary: A) auto

definition below :: "fs \<Rightarrow> loc \<Rightarrow> loc \<Rightarrow> loc set" where
  "below t s names = {x. prefix names x \<and> look t (s @ x) \<noteq> None}"

text \<open>What the names before must be for the walk to start at \<open>names\<close>.\<close>

definition ready :: "loc set \<Rightarrow> loc \<Rightarrow> bool" where
  "ready A names \<longleftrightarrow> (names \<noteq> [] \<longrightarrow> butlast names \<in> A) \<and> (\<forall>x \<in> A. \<not> prefix names x)"

text \<open>Enough fuel for what is below \<open>names\<close>.\<close>

definition shallow :: "fs \<Rightarrow> loc \<Rightarrow> loc \<Rightarrow> nat \<Rightarrow> bool" where
  "shallow t s names fuel \<longleftrightarrow> (\<forall>cs. look t (s @ names @ cs) \<noteq> None \<longrightarrow> length cs < fuel)"

lemma shallow_child: "shallow t s names (Suc fuel) \<Longrightarrow> shallow t s (names @ [c]) fuel"
  by (force simp: shallow_def dest: spec [of _ "c # _"])

lemma below_plain:
  assumes "tree_ok t" "\<not> dir_at t (s @ names)" "look t (s @ names) \<noteq> None"
  shows "below t s names = {names}"
proof -
  have "cs = []" if "look t (s @ names @ cs) = Some n" for cs n
  proof (rule ccontr)
    assume "cs \<noteq> []"
    with tree_ok_ancestors [OF assms(1) that, of "length (s @ names)"] assms(2) show False by simp
  qed
  then show ?thesis using assms(3) by (auto simp: below_def prefix_def)
qed

lemma below_dir:
  assumes "tree_ok t" "look t (s @ names) \<noteq> None"
  shows "below t s names = insert names (\<Union>c \<in> set (child_names t (s @ names)). below t s (names @ [c]))"
proof -
  have "x = names \<or> (\<exists>c \<in> set (child_names t (s @ names)). prefix (names @ [c]) x)"
    if x: "prefix names x" "look t (s @ x) = Some n" for x n
  proof (cases "x = names")
    case False
    with x(1) have "strict_prefix (s @ names) (s @ x)" by (auto simp: strict_prefix_def)
    from child_of_below [OF assms(1) x(2) this] show ?thesis by (metis append_assoc same_prefix_prefix)
  qed simp
  then have "below t s names \<subseteq> insert names (\<Union>c \<in> set (child_names t (s @ names)). below t s (names @ [c]))"
    by (auto simp: below_def)
  moreover have "below t s (names @ [c]) \<subseteq> below t s names" for c
    by (auto simp: below_def dest: append_prefixD)
  then have "(\<Union>c \<in> set (child_names t (s @ names)). below t s (names @ [c])) \<subseteq> below t s names" by blast
  moreover have "names \<in> below t s names" using assms(2) by (simp add: below_def)
  ultimately show ?thesis by blast
qed

section \<open>The contract\<close>

definition list_below :: "fs \<Rightarrow> loc \<Rightarrow> 's \<Rightarrow> string list \<Rightarrow> (errno, (string \<times> bool) list) res" where
  "list_below t s st names = read_dir_types t (path_join (abs_path s # names))"

locale tree_reader =
  fixes visit :: "fs \<Rightarrow> loc \<Rightarrow> 's \<Rightarrow> string list \<Rightarrow> bool \<Rightarrow> errno option \<times> 's"
    and add :: "fs \<Rightarrow> loc \<Rightarrow> 's \<Rightarrow> loc \<Rightarrow> 's"
  assumes visits:
    "tree_ok t \<Longrightarrow> look t (s @ x) \<noteq> None \<Longrightarrow> visit t s st x (dir_at t (s @ x)) = (None, add t s st x)"
begin

text \<open>\<open>covers\<close>: the walk ends, having added the names of \<open>X\<close> in an order fit for every \<open>A\<close> with \<open>P\<close>.\<close>

definition covers ::
  "fs \<Rightarrow> loc \<Rightarrow> (errno option \<times> 's) option \<Rightarrow> 's \<Rightarrow> loc set \<Rightarrow> (loc set \<Rightarrow> bool) \<Rightarrow> bool" where
  "covers t s r st X P \<longleftrightarrow>
     (\<exists>xs. r = Some (None, foldl (add t s) st xs) \<and> set xs = X \<and> (\<forall>A. P A \<longrightarrow> parents_first A xs))"

lemma coversE:
  assumes "covers t s r st X P"
  obtains xs where "r = Some (None, foldl (add t s) st xs)" "set xs = X" "\<forall>A. P A \<longrightarrow> parents_first A xs"
  using assms unfolding covers_def by blast

lemma entries_cover:
  assumes one: "\<And>st c. c \<in> set cs \<Longrightarrow> covers t s
      (walk_dir (visit t s) (list_below t s) fuel st (names @ [c]) (dir_at t (s @ names @ [c])))
      st (below t s (names @ [c])) (\<lambda>A. ready A (names @ [c]))"
    and "distinct cs"
  shows "covers t s
    (walk_entries (visit t s) (list_below t s) fuel st names (map (\<lambda>c. (c, dir_at t (s @ names @ [c]))) cs))
    st (\<Union>c \<in> set cs. below t s (names @ [c])) (\<lambda>A. names \<in> A \<and> (\<forall>x \<in> A. \<forall>c \<in> set cs. \<not> prefix (names @ [c]) x))"
  using assms
proof (induction cs arbitrary: st)
  case Nil
  then show ?case by (simp add: covers_def)
next
  case (Cons c cs)
  let ?w = "\<lambda>st. walk_entries (visit t s) (list_below t s) fuel st names (map (\<lambda>c. (c, dir_at t (s @ names @ [c]))) cs)"
  from Cons.prems(1) [of c st] obtain xs where xs:
    "walk_dir (visit t s) (list_below t s) fuel st (names @ [c]) (dir_at t (s @ names @ [c])) =
      Some (None, foldl (add t s) st xs)"
    "set xs = below t s (names @ [c])" "\<forall>A. ready A (names @ [c]) \<longrightarrow> parents_first A xs"
    by (auto elim: coversE)
  have "covers t s (?w (foldl (add t s) st xs)) (foldl (add t s) st xs) (\<Union>c \<in> set cs. below t s (names @ [c]))
      (\<lambda>A. names \<in> A \<and> (\<forall>x \<in> A. \<forall>c \<in> set cs. \<not> prefix (names @ [c]) x))"
    using Cons.prems by (intro Cons.IH) auto
  then obtain ys where ys: "?w (foldl (add t s) st xs) = Some (None, foldl (add t s) (foldl (add t s) st xs) ys)"
    "set ys = (\<Union>c \<in> set cs. below t s (names @ [c]))"
    "\<forall>A. names \<in> A \<and> (\<forall>x \<in> A. \<forall>c \<in> set cs. \<not> prefix (names @ [c]) x) \<longrightarrow> parents_first A ys"
    by (rule coversE)
  have "parents_first A (xs @ ys)"
    if "names \<in> A" "\<forall>x \<in> A. \<forall>d \<in> set (c # cs). \<not> prefix (names @ [d]) x" for A
  proof -
    have "parents_first A xs" using that by (intro xs(3) [rule_format]) (simp add: ready_def)
    moreover have "\<not> prefix (names @ [d]) x" if "x \<in> set xs" "d \<in> set cs" for x d
      using that xs(2) Cons.prems(2) by (auto simp: below_def prefix_def)
    then have "parents_first (A \<union> set xs) ys" using that by (intro ys(3) [rule_format]) auto
    ultimately show ?thesis by simp
  qed
  with xs(1,2) ys(1,2) show ?case unfolding covers_def by (intro exI [of _ "xs @ ys"]) simp
qed

lemma walk_covers:
  assumes "tree_ok t"
  shows "look t (s @ names) \<noteq> None \<Longrightarrow> shallow t s names fuel \<Longrightarrow>
    covers t s (walk_dir (visit t s) (list_below t s) fuel st names (dir_at t (s @ names)))
      st (below t s names) (\<lambda>A. ready A names)"
proof (induction fuel arbitrary: names st)
  case 0
  then show ?case by (auto simp: shallow_def dest: spec [of _ "[]"])
next
  case (Suc fuel)
  note one = visits [OF assms Suc.prems(1), of st]
  show ?case
  proof (cases "dir_at t (s @ names)")
    case False
    with one have "walk_dir (visit t s) (list_below t s) (Suc fuel) st names (dir_at t (s @ names)) =
      Some (None, foldl (add t s) st [names])" by simp
    then show ?thesis unfolding covers_def using below_plain [OF assms False Suc.prems(1)]
      by (intro exI [of _ "[names]"]) (auto simp: ready_def)
  next
    case True
    have one': "visit t s st names True = (None, add t s st names)" using one True by simp
    let ?cs = "child_names t (s @ names)"
    have "path_join (abs_path s # names) = abs_path (s @ names)"
      using tree_ok_names [OF assms True] by (rule join_abs_names)
    then have ls: "list_below t s st' names = Inr (map (\<lambda>c. (c, dir_at t (s @ names @ [c]))) ?cs)" for st' :: 's
      using read_dir_types_abs [OF assms True] by (simp add: list_below_def)
    have d: "distinct ?cs" by (simp add: child_names_def)
    have "covers t s (walk_dir (visit t s) (list_below t s) fuel st' (names @ [c]) (dir_at t (s @ names @ [c])))
        st' (below t s (names @ [c])) (\<lambda>A. ready A (names @ [c]))" if "c \<in> set ?cs" for st' c
      using Suc.IH [of "names @ [c]" st'] child_names_exact [OF that] shallow_child [OF Suc.prems(2)] by simp
    from entries_cover [OF this d, of "add t s st names"] obtain ys where ys:
      "walk_entries (visit t s) (list_below t s) fuel (add t s st names) names (map (\<lambda>c. (c, dir_at t (s @ names @ [c]))) ?cs) =
        Some (None, foldl (add t s) (add t s st names) ys)"
      "set ys = (\<Union>c \<in> set ?cs. below t s (names @ [c]))"
      "\<forall>A. names \<in> A \<and> (\<forall>x \<in> A. \<forall>c \<in> set ?cs. \<not> prefix (names @ [c]) x) \<longrightarrow> parents_first A ys"
      by (rule coversE)
    have "walk_dir (visit t s) (list_below t s) (Suc fuel) st names (dir_at t (s @ names)) =
        Some (None, foldl (add t s) st (names # ys))"
      using ys(1)
      by (simp only: walk_dir.simps one' prod.case option.case True not_True_eq_False if_False ls sum.case foldl.simps)
    moreover have "set (names # ys) = below t s names"
      using below_dir [OF assms Suc.prems(1)] ys(2) by simp
    moreover have "parents_first A (names # ys)" if "ready A names" for A
    proof -
      have "parents_first (insert names A) ys"
        using that by (intro ys(3) [rule_format]) (auto simp: ready_def dest: append_prefixD)
      with that show ?thesis by (auto simp: ready_def)
    qed
    ultimately show ?thesis unfolding covers_def by blast
  qed
qed

text \<open>The walk of a whole directory: every name below it once, after its parent, itself first.\<close>

lemma walk_all:
  assumes "tree_ok t" "dir_at t s" "shallow t s [] fuel"
  obtains xs where
    "walk_dir (visit t s) (list_below t s) fuel st [] True = Some (None, foldl (add t s) st xs)"
    "set xs = {x. look t (s @ x) \<noteq> None}" "parents_first {} xs"
proof -
  have "look t (s @ []) \<noteq> None" using assms(2) by (auto dest: dir_at_Some)
  from walk_covers [OF assms(1) this assms(3), of st] obtain xs where
    "walk_dir (visit t s) (list_below t s) fuel st [] (dir_at t (s @ [])) = Some (None, foldl (add t s) st xs)"
    "set xs = below t s []" "\<forall>A. ready A [] \<longrightarrow> parents_first A xs" by (rule coversE)
  then show thesis using assms(2) by (intro that [of xs]) (simp_all add: below_def ready_def)
qed

end

section \<open>The depth of a tree\<close>

definition tree_depth :: "fs \<Rightarrow> nat" where
  "tree_depth t = Max (insert 0 (set (map (\<lambda>e. length (fst e)) t)))"

lemma tree_depth_bound: "look t p = Some n \<Longrightarrow> length p \<le> tree_depth t"
  unfolding tree_depth_def by (intro Max_ge) (force dest!: map_of_SomeD)+

lemma depth_shallow: "shallow t s [] (Suc (tree_depth t))"
  using tree_depth_bound [of t "s @ _"] by (fastforce simp: shallow_def less_Suc_eq_le)

end
