(* ===== verification/Usage.thy ===== *)
theory Usage
  imports TreeWalk
begin

text \<open>
  \<open>UsageBytes\<close> of \<open>internal/pivot/tmpfs.go\<close>: the bytes a tree takes up, by the blocks the file system
  has given its files. How many blocks a file has is a parameter.
\<close>

definition usage_visit ::
  "(node \<Rightarrow> u64) \<Rightarrow> fs \<Rightarrow> string \<Rightarrow> u64 \<Rightarrow> string list \<Rightarrow> bool \<Rightarrow> errno option \<times> u64" where
  "usage_visit blocks t path used names entry_dir =
     (if entry_dir then (None, used)
      else case lstat t (path_join (path # names)) of
             Inl _ \<Rightarrow> (None, used)
           | Inr n \<Rightarrow> (None, used + blocks n * 512))"

definition usage_bytes :: "(node \<Rightarrow> u64) \<Rightarrow> fs \<Rightarrow> string \<Rightarrow> (errno option \<times> u64) option" where
  "usage_bytes blocks t path =
     (case lstat t path of
        Inl e \<Rightarrow> Some (Some e, 0)
      | Inr n \<Rightarrow>
          walk_dir (usage_visit blocks t path) (\<lambda>_ names. read_dir_types t (path_join (path # names)))
            (Suc (tree_depth t)) 0 [] (is_dir n))"

definition charge :: "(node \<Rightarrow> u64) \<Rightarrow> fs \<Rightarrow> loc \<Rightarrow> loc \<Rightarrow> u64" where
  "charge blocks t s x = (if dir_at t (s @ x) then 0 else blocks (the (look t (s @ x))) * 512)"

interpretation usage: tree_reader "\<lambda>t s. usage_visit blocks t (abs_path s)"
  "\<lambda>t s used x. used + charge blocks t s x" for blocks
proof
  fix t s x and used :: u64
  assume t: "tree_ok t" and x: "look t (s @ x) \<noteq> None"
  then obtain n where n: "look t (s @ x) = Some n" by blast
  have "\<forall>c \<in> set (s @ x). normal c" using t n tree_ok_normal by blast
  from join_abs_names [OF this] lstat_abs [OF t n] n
  show "usage_visit blocks t (abs_path s) used x (dir_at t (s @ x)) = (None, used + charge blocks t s x)"
    by (simp add: usage_visit_def charge_def)
qed

lemma foldl_charge: "foldl (\<lambda>a x. a + f x) a xs = a + (sum_list (map f xs) :: u64)"
  by (induction xs arbitrary: a) (simp_all add: add.assoc)

text \<open>The space counted for a directory is the space of every file, link and device below it, each once,
  modulo two to the sixty-four.\<close>

theorem usage_exact:
  assumes "tree_ok t" "dir_at t s"
  shows "usage_bytes blocks t (abs_path s) =
    Some (None, \<Sum>x \<in> {x. look t (s @ x) \<noteq> None \<and> \<not> dir_at t (s @ x)}. blocks (the (look t (s @ x))) * 512)"
proof -
  from assms(2) obtain n where n: "look t s = Some n" "is_dir n" by (auto dest: dir_at_Some)
  obtain xs where xs:
    "walk_dir (usage_visit blocks t (abs_path s)) (list_below t s) (Suc (tree_depth t)) 0 [] True =
      Some (None, foldl (\<lambda>a x. a + charge blocks t s x) 0 xs)"
    "set xs = {x. look t (s @ x) \<noteq> None}" "parents_first {} xs"
    using usage.walk_all [OF assms depth_shallow] .
  have "list_below t s = (\<lambda>(_ :: u64) names. read_dir_types t (path_join (abs_path s # names)))"
    by (simp add: list_below_def fun_eq_iff)
  with xs(1) have "usage_bytes blocks t (abs_path s) = Some (None, sum_list (map (charge blocks t s) xs))"
    using lstat_abs [OF assms(1) n(1)] n(2) by (simp add: usage_bytes_def foldl_charge del: walk_dir.simps)
  moreover have "sum_list (map (charge blocks t s) xs) = sum (charge blocks t s) (set xs)"
    using parents_first_distinct [OF xs(3)] by (simp add: sum_list_distinct_conv_sum_set)
  moreover have "sum (charge blocks t s) (set xs) =
      sum (\<lambda>x. blocks (the (look t (s @ x))) * 512) {x \<in> set xs. \<not> dir_at t (s @ x)}"
    by (subst sum.inter_filter) (auto simp: charge_def intro: sum.cong)
  moreover have "{x \<in> set xs. \<not> dir_at t (s @ x)} = {x. look t (s @ x) \<noteq> None \<and> \<not> dir_at t (s @ x)}"
    using xs(2) by simp
  ultimately show ?thesis by (simp only:)
qed

text \<open>Two files of three blocks each, one of them below a directory.\<close>

definition two_files :: fs where
  "two_files = [([], NDir 0x1ED), ([''w''], NDir 0x1ED), ([''w'', ''d''], NDir 0x1ED),
     ([''w'', ''d'', ''f''], NFile 0x1A4 ''x''), ([''w'', ''g''], NFile 0x1A4 ''y'')]"

theorem usage_exact_witness: "usage_bytes (\<lambda>_. 3) two_files ''/w'' = Some (None, 3072)"
proof -
  have "tree_ok two_files" "dir_at two_files [''w'']"
    by (auto simp: tree_ok_def dir_at_def two_files_def normal_def split: if_splits)
  moreover have "{x. look two_files ([''w''] @ x) \<noteq> None \<and> \<not> dir_at two_files ([''w''] @ x)} = {[''d'', ''f''], [''g'']}"
    by (auto simp: two_files_def dir_at_def)
  ultimately show ?thesis using usage_exact [of two_files "[''w'']" "\<lambda>_. 3"] by simp
qed

end
