(* ===== verification/BuildCmd.thy ===== *)
theory BuildCmd
  imports Rootfs Config TreeWalk
begin

text \<open>
  \<open>xmorph build\<close>: \<open>runBuild\<close> (\<open>internal/cli/build.go\<close>), packing the built tree as a tar stream, an
  image or an archive, and copying a cached layout (\<open>build_compose.go\<close>), and \<open>WriteLayout\<close>
  (\<open>internal/oci/layout.go\<close>). The image library and the writers of tar and gzip streams are
  parameters.
\<close>

section \<open>Packing a directory\<close>

text \<open>\<open>tar.FileInfoHeader\<close> on what \<open>lstat\<close> says, with the name the program gives the entry, and the
  bytes written after the header.\<close>

fun node_type :: "node \<Rightarrow> typeflag" where
  "node_type (NDir _) = TypeDir" | "node_type (NFile _ _) = TypeReg" | "node_type (NSym _) = TypeSymlink"
| "node_type (NDev k _ _ _) = (case k of CharDev \<Rightarrow> TypeChar | BlockDev \<Rightarrow> TypeBlock | Fifo \<Rightarrow> TypeFifo)"

fun node_dev :: "node \<Rightarrow> u32 \<times> u32" where
  "node_dev (NDev k _ a b) = (if k = Fifo then (0, 0) else (a, b))" | "node_dev _ = (0, 0)"

fun node_body :: "node \<Rightarrow> string" where
  "node_body (NFile _ c) = c" | "node_body _ = []"

definition tar_header :: "string list \<Rightarrow> bool \<Rightarrow> node \<Rightarrow> tar_entry" where
  "tar_header names entry_dir n =
     \<lparr>Name = rel_path names @ (if entry_dir then ''/'' else []), Typeflag = node_type n,
      Linkname = (case link_target n of None \<Rightarrow> [] | Some l \<Rightarrow> l), Mode = ucast (node_mode n),
      Devmajor = ucast (fst (node_dev n)), Devminor = ucast (snd (node_dev n)),
      body = node_body n, body_err = None\<rparr>"

text \<open>The function \<open>WalkDir\<close> is given; its state is the entries written so far.\<close>

definition tar_one ::
  "fs \<Rightarrow> string \<Rightarrow> tar_entry list \<Rightarrow> string list \<Rightarrow> bool \<Rightarrow> errno option \<times> tar_entry list" where
  "tar_one t src es names entry_dir =
     (if names = [] then (None, es)
      else case lstat t (path_join (src # names)) of
             Inl e \<Rightarrow> (Some e, es)
           | Inr n \<Rightarrow> (None, es @ [tar_header names entry_dir n]))"

text \<open>The tree is only read, so its depth bounds the walk.\<close>

definition tar_directory :: "fs \<Rightarrow> string \<Rightarrow> (errno option \<times> tar_entry list) option" where
  "tar_directory t srcDir =
     (let src = clean srcDir
      in case lstat t src of
           Inl e \<Rightarrow> Some (Some e, [])
         | Inr n \<Rightarrow>
             walk_dir (tar_one t src) (\<lambda>_ names. read_dir_types t (path_join (src # names)))
               (Suc (tree_depth t)) [] [] (is_dir n))"

section \<open>The image and its layout\<close>

text \<open>The image library: a layer from a stream of entries, an image from a layer, and reading and
  replacing the configuration of an image.\<close>

record image_maker =
  wrap_layer :: "tar_entry list \<Rightarrow> (errno, (errno, tar_item list) res) res"
  append_layer :: "(errno, tar_item list) res \<Rightarrow> (errno, oci_image) res"
  config_file :: "oci_image \<Rightarrow> errno option"
  set_config :: "oci_image \<Rightarrow> image_config \<Rightarrow> (errno, oci_image) res"

datatype compose_error =
    TarRootfs errno | TarUnbounded | WrapLayer errno | AppendLayer errno | ReadConfig errno | SetConfig errno

definition compose_image ::
  "image_maker \<Rightarrow> fs \<Rightarrow> string \<Rightarrow> image_config option \<Rightarrow> (compose_error, oci_image) res" where
  "compose_image mk t rootfsDir cfg =
     (case tar_directory t rootfsDir of
        None \<Rightarrow> Inl TarUnbounded
      | Some (Some e, es) \<Rightarrow> Inl (TarRootfs e)
      | Some (None, es) \<Rightarrow>
          (case wrap_layer mk es of
             Inl e \<Rightarrow> Inl (WrapLayer e)
           | Inr l \<Rightarrow>
               (case append_layer mk l of
                  Inl e \<Rightarrow> Inl (AppendLayer e)
                | Inr img \<Rightarrow>
                    (case cfg of
                       None \<Rightarrow> Inr img
                     | Some c \<Rightarrow>
                         (case config_file mk img of
                            Some e \<Rightarrow> Inl (ReadConfig e)
                          | None \<Rightarrow>
                              (case set_config mk img c of Inl e \<Rightarrow> Inl (SetConfig e) | Inr img \<Rightarrow> Inr img))))))"

text \<open>A layout directory is opened, or else initialised; then the image is appended.\<close>

record layout_writer =
  layout_from_path :: "fs \<Rightarrow> string \<Rightarrow> errno option"
  layout_init :: "fs \<Rightarrow> string \<Rightarrow> outcome"
  layout_append :: "fs \<Rightarrow> string \<Rightarrow> oci_image \<Rightarrow> outcome"
  image_digest :: "oci_image \<Rightarrow> (errno, string) res"

datatype layout_error = InitLayout errno | AppendImage errno | ComputeDigest errno

definition append_to_layout ::
  "layout_writer \<Rightarrow> fs \<Rightarrow> string \<Rightarrow> oci_image \<Rightarrow> (layout_error, string) res \<times> fs" where
  "append_to_layout lw t dir img =
     (case layout_append lw t dir img of
        (Some e, t1) \<Rightarrow> (Inl (AppendImage e), t1)
      | (None, t1) \<Rightarrow>
          (case image_digest lw img of Inl e \<Rightarrow> (Inl (ComputeDigest e), t1) | Inr d \<Rightarrow> (Inr d, t1)))"

definition write_layout ::
  "layout_writer \<Rightarrow> fs \<Rightarrow> string \<Rightarrow> oci_image \<Rightarrow> (layout_error, string) res \<times> fs" where
  "write_layout lw t dir img =
     (case layout_from_path lw t dir of
        None \<Rightarrow> append_to_layout lw t dir img
      | Some _ \<Rightarrow>
          (case layout_init lw t dir of
             (Some e, t1) \<Rightarrow> (Inl (InitLayout e), t1)
           | (None, t1) \<Rightarrow> append_to_layout lw t1 dir img))"

section \<open>The archive of the root file system\<close>

text \<open>The stream of so many entries, closed or broken off, and its compression. The archive is not
  below the directory it packs.\<close>

record stream_writer =
  tar_stream :: "bool \<Rightarrow> tar_entry list \<Rightarrow> string"
  gzip_stream :: "string \<Rightarrow> string"

definition write_rootfs_tarball :: "stream_writer \<Rightarrow> fs \<Rightarrow> string \<Rightarrow> string \<Rightarrow> outcome option" where
  "write_rootfs_tarball sw t srcDir dst =
     (case mkdir_all t (path_dir dst) 0x1ED of
        (Some e, t1) \<Rightarrow> Some (Some e, t1)
      | (None, t1) \<Rightarrow>
          (case create_trunc t1 (comps dst) 0x1B6 [] of
             (Some e, t2) \<Rightarrow> Some (Some e, t2)
           | (None, t2) \<Rightarrow>
               (case tar_directory t2 srcDir of
                  None \<Rightarrow> None
                | Some (err, es) \<Rightarrow>
                    (let bytes = tar_stream sw (err = None) es;
                         packed = (if has_suffix dst ''.gz'' \<or> has_suffix dst ''.tgz''
                                   then gzip_stream sw bytes else bytes)
                     in Some (err, snd (create_trunc t2 (comps dst) 0x1B6 packed))))))"

section \<open>Copying a layout\<close>

definition copy_file :: "fs \<Rightarrow> string \<Rightarrow> string \<Rightarrow> outcome" where
  "copy_file t src dst =
     (case stat t src of
        Inl e \<Rightarrow> (Some e, t)
      | Inr n \<Rightarrow> copy_regular t src dst (perm (node_mode n)))"

definition layout_entry :: "fs \<Rightarrow> string \<Rightarrow> string \<Rightarrow> string list \<Rightarrow> bool \<Rightarrow> outcome" where
  "layout_entry t src dst names entry_dir =
     (if names = [] then (None, t)
      else if entry_dir then mkdir_all t (path_join (dst # names)) 0x1ED
      else copy_file t (path_join (src # names)) (path_join (dst # names)))"

definition copy_layout_dir :: "nat \<Rightarrow> fs \<Rightarrow> string \<Rightarrow> string \<Rightarrow> outcome option" where
  "copy_layout_dir fuel t srcDir dstDir =
     (let src = clean srcDir; dst = clean dstDir
      in case mkdir_all t dst 0x1ED of
           (Some e, t1) \<Rightarrow> Some (Some e, t1)
         | (None, t1) \<Rightarrow>
             (case lstat t1 src of
                Inl e \<Rightarrow> Some (Some e, t1)
              | Inr n \<Rightarrow>
                  walk_dir (\<lambda>t names entry_dir. layout_entry t src dst names entry_dir)
                    (\<lambda>t names. read_dir_types t (path_join (src # names))) fuel t1 [] (is_dir n)))"

section \<open>The command\<close>

text \<open>What the command depends on besides the tree and its configuration.\<close>

record build_tools =
  builder :: build_env
  maker :: image_maker
  layouts :: layout_writer
  writers :: stream_writer
  sha256_hex :: "string \<Rightarrow> string"

datatype build_cmd_error =
    CleanWorkDir errno | BuildRootfs build_error | ComposeImage compose_error | CreateCacheDir errno
  | WriteCacheLayout layout_error | WriteOutputLayout layout_error | WriteRootfsTarball errno
  | CopyLayout errno | Unbounded

type_synonym build_outcome = "build_cmd_error option \<times> fs"

definition cache_path :: "build_tools \<Rightarrow> config \<Rightarrow> string" where
  "cache_path bt cfg = path_join [CacheDir cfg, ''builds'', compute_cache_key (sha256_hex bt) (Layers cfg)]"

definition cache_hit :: "fs \<Rightarrow> string \<Rightarrow> bool" where
  "cache_hit t path = is_ok (stat t (path_join [path, ''index.json'']))"

definition walked :: "(errno \<Rightarrow> build_cmd_error) \<Rightarrow> fs \<Rightarrow> outcome option \<Rightarrow> build_outcome" where
  "walked wrap t r = (case r of None \<Rightarrow> (Some Unbounded, t) | Some (e, t1) \<Rightarrow> (map_option wrap e, t1))"

definition write_outputs :: "build_tools \<Rightarrow> config \<Rightarrow> oci_image \<Rightarrow> fs \<Rightarrow> build_outcome" where
  "write_outputs bt cfg img t =
     (case (if Output cfg = [] then (Inr [], t) else write_layout (layouts bt) t (Output cfg) img) of
        (Inl e, t1) \<Rightarrow> (Some (WriteOutputLayout e), t1)
      | (Inr _, t1) \<Rightarrow>
          if RootfsOutput cfg = [] then (None, t1)
          else walked WriteRootfsTarball t1
                 (write_rootfs_tarball (writers bt) t1 (WorkDir cfg) (RootfsOutput cfg)))"

definition save_image :: "build_tools \<Rightarrow> config \<Rightarrow> oci_image \<Rightarrow> fs \<Rightarrow> build_outcome" where
  "save_image bt cfg img t =
     (case mkdir_all t (cache_path bt cfg) 0x1ED of
        (Some e, t1) \<Rightarrow> (Some (CreateCacheDir e), t1)
      | (None, t1) \<Rightarrow>
          (case write_layout (layouts bt) t1 (cache_path bt cfg) img of
             (Inl e, t2) \<Rightarrow> (Some (WriteCacheLayout e), t2)
           | (Inr _, t2) \<Rightarrow> write_outputs bt cfg img t2))"

definition build_fresh :: "build_tools \<Rightarrow> config \<Rightarrow> fs \<Rightarrow> build_outcome" where
  "build_fresh bt cfg t =
     (case clean_target t (WorkDir cfg) of
        (Some e, t1) \<Rightarrow> (Some (CleanWorkDir e), t1)
      | (None, t1) \<Rightarrow>
          (case build (builder bt) t1 (Layers cfg) (WorkDir cfg) of
             (Inl e, t2) \<Rightarrow> (Some (BuildRootfs e), t2)
           | (Inr result, t2) \<Rightarrow>
               (case compose_image (maker bt) t2 (WorkDir cfg) (build_result.Config result) of
                  Inl e \<Rightarrow> (Some (ComposeImage e), t2)
                | Inr img \<Rightarrow> save_image bt cfg img t2)))"

definition run_build :: "build_tools \<Rightarrow> config \<Rightarrow> fs \<Rightarrow> build_outcome" where
  "run_build bt cfg t =
     (if \<not> NoCache cfg \<and> cache_hit t (cache_path bt cfg)
      then (if Output cfg = [] then (None, t)
            else walked CopyLayout t (copy_layout_dir (copy_depth (builder bt)) t (cache_path bt cfg) (Output cfg)))
      else build_fresh bt cfg t)"

end
