(* ===== verification/BuildProofs.thy ===== *)
theory BuildProofs
  imports BuildCmd
begin

text \<open>
  What \<open>tarDirectory\<close> writes (\<open>internal/cli/build_compose.go\<close>): one entry for every name below the
  directory, after that of its parent.
\<close>

definition header_of :: "fs \<Rightarrow> loc \<Rightarrow> loc \<Rightarrow> tar_entry" where
  "header_of t s x = tar_header x (dir_at t (s @ x)) (the (look t (s @ x)))"

definition headers :: "fs \<Rightarrow> loc \<Rightarrow> loc list \<Rightarrow> tar_entry list" where
  "headers t s xs = map (header_of t s) xs"

definition add_header :: "fs \<Rightarrow> loc \<Rightarrow> tar_entry list \<Rightarrow> loc \<Rightarrow> tar_entry list" where
  "add_header t s es x = es @ (if x = [] then [] else [header_of t s x])"

lemma foldl_headers: "foldl (add_header t s) es xs = es @ headers t s (filter (\<lambda>x. x \<noteq> []) xs)"
  by (induction xs arbitrary: es) (simp_all add: add_header_def headers_def)

interpretation packing: tree_reader "\<lambda>t s. tar_one t (abs_path s)" add_header
proof
  fix t s x and es :: "tar_entry list"
  assume t: "tree_ok t" and x: "look t (s @ x) \<noteq> None"
  then obtain n where n: "look t (s @ x) = Some n" by blast
  have "\<forall>c \<in> set (s @ x). normal c" using t n tree_ok_normal by blast
  from join_abs_names [OF this] lstat_abs [OF t n] n
  show "tar_one t (abs_path s) es x (dir_at t (s @ x)) = (None, add_header t s es x)"
    by (simp add: tar_one_def add_header_def header_of_def)
qed

text \<open>The first name of a walk is the root itself, which gets no entry.\<close>

lemma parents_first_tail:
  assumes "parents_first {} xs" "[] \<in> set xs"
  shows "\<exists>ys. xs = [] # ys \<and> parents_first {[]} ys \<and> [] \<notin> set ys"
proof (cases xs)
  case (Cons x ys)
  with assms(1) have "x = []" by simp
  with Cons assms(1) show ?thesis using parents_first_distinct [of "{[]}" ys] by auto
qed (use assms in simp)

lemma tar_directory_entries:
  assumes "tree_ok t" "dir_at t s"
  obtains xs where "tar_directory t (abs_path s) = Some (None, headers t s xs)"
    "set xs = {x. x \<noteq> [] \<and> look t (s @ x) \<noteq> None}" "parents_first {[]} xs" "[] \<notin> set xs"
proof -
  from assms(2) obtain n where n: "look t s = Some n" "is_dir n" by (auto dest: dir_at_Some)
  obtain ys where ys:
    "walk_dir (tar_one t (abs_path s)) (list_below t s) (Suc (tree_depth t)) [] [] True =
      Some (None, foldl (add_header t s) [] ys)"
    "set ys = {x. look t (s @ x) \<noteq> None}" "parents_first {} ys"
    using packing.walk_all [OF assms depth_shallow] .
  from ys(2,3) n obtain xs where xs: "ys = [] # xs" "parents_first {[]} xs" "[] \<notin> set xs"
    using parents_first_tail [of ys] by auto
  have f: "filter (\<lambda>x. x \<noteq> []) ys = xs" using xs(1,3) by (auto simp: filter_id_conv)
  have "list_below t s = (\<lambda>(_ :: tar_entry list) names. read_dir_types t (path_join (abs_path s # names)))"
    by (simp add: list_below_def fun_eq_iff)
  with ys(1) have "walk_dir (tar_one t (abs_path s)) (\<lambda>_ names. read_dir_types t (path_join (abs_path s # names)))
      (Suc (tree_depth t)) [] [] True = Some (None, headers t s xs)"
    by (simp only: foldl_headers f append_Nil)
  moreover have "clean (abs_path s) = abs_path s" using tree_ok_names [OF assms] by (rule clean_abs_normal)
  ultimately have "tar_directory t (abs_path s) = Some (None, headers t s xs)"
    using lstat_abs [OF assms(1) n(1)] n(2) by (simp add: tar_directory_def Let_def del: walk_dir.simps)
  moreover have "set xs = {x. x \<noteq> [] \<and> look t (s @ x) \<noteq> None}" using ys(2) xs(1,3) by auto
  ultimately show thesis using xs(2,3) by (intro that)
qed

end
