(* ===== verification/RoundTrip.thy ===== *)
theory RoundTrip
  imports BuildProofs
begin

text \<open>
  Extracting what \<open>tarDirectory\<close> packs (\<open>internal/cli/build_compose.go\<close>, \<open>internal/oci/extract.go\<close>)
  gives the tree again, one entry at a time.
\<close>

section \<open>One entry of the stream\<close>

text \<open>What extraction makes of a node: a device node is made under the umask, and its mode is not set
  afterwards.\<close>

definition remade :: "node \<Rightarrow> node" where
  "remade n =
     (case n of NDev k m a b \<Rightarrow> NDev k (masked (m AND 0x1FF)) (fst (node_dev n)) (snd (node_dev n)) | _ \<Rightarrow> n)"

lemma remade_simps [simp]:
  "remade (NDir m) = NDir m" "remade (NFile m c) = NFile m c" "remade (NSym l) = NSym l"
  "is_dir (remade n) = is_dir n"
  by (simp_all add: remade_def split: node.splits)

text \<open>The name of a directory entry ends in a slash, which \<open>Clean\<close> drops.\<close>

lemma extract_entry_name:
  assumes "cs \<noteq> []" "\<forall>c \<in> set cs. normal c" "Name h = rel_path cs @ (if d then ''/'' else [])"
  shows "extract_entry t target h = extract_entry t target (h\<lparr>Name := rel_path cs\<rparr>)"
proof -
  have "clean (Name h) = rel_path cs"
    using assms clean_rel_normal [of cs] clean_trailing_slash [of cs] by (cases d) simp_all
  moreover have "clean (rel_path cs) = rel_path cs" using assms by (intro clean_rel_normal)
  ultimately have "clean (Name (h\<lparr>Name := rel_path cs\<rparr>)) = clean (Name h)" by simp
  moreover from this have "entry_name (h\<lparr>Name := rel_path cs\<rparr>) = entry_name h"
    unfolding entry_name_def by simp
  moreover have "write_entry u T q (h\<lparr>Name := n\<rparr>) = write_entry u T q h" for u T q n
    by (cases "Typeflag h") (simp_all add: write_entry_def extract_dir_def extract_file_def
        extract_symlink_def extract_link_def make_device_def chmod_entry_def split: option.split prod.split)
  ultimately show ?thesis unfolding extract_entry_def by (simp split: prod.split sum.split option.split)
qed

lemma drop_nothing:
  assumes "tree_ok t" "look t p = None"
  shows "look (drop_tree t p) q = look t q"
proof (cases "prefix p q")
  case True
  then obtain u where u: "q = p @ u" by (auto simp: prefix_def)
  have "look t q = None"
  proof (rule ccontr)
    assume "look t q \<noteq> None"
    with u assms(2) have "u \<noteq> []" by auto
    with u \<open>look t q \<noteq> None\<close> tree_ok_ancestors [OF assms(1), of q _ "length p"] have "dir_at t p" by auto
    with assms(2) show False by (simp add: dir_at_def)
  qed
  with True show ?thesis by simp
qed simp

lemma mkdir_all_child:
  assumes "tree_ok t" "dir_at t p" "normal c" "look t (p @ [c]) = None"
  shows "mkdir_all_c t (p @ [c]) m = (None, put t (p @ [c]) (NDir (masked m)))"
proof -
  have "resolve t True (p @ [c]) = Inr (p @ [c])"
    using resolve_child [OF assms(1-3), of True] assms(4) by (simp add: sym_at_def)
  then have "stat_c t (p @ [c]) = Inl ENOENT" using assms(4) by (simp add: stat_c_def node_at_def)
  moreover have "(if length (p @ [c]) \<le> 1 then (None, t) else mkdir_all_c t (butlast (p @ [c])) m) = (None, t)"
    using mkdir_all_existing [OF assms(1,2)] by simp
  ultimately show ?thesis
    using new_child(1) [OF assms] by (subst mkdir_all_c.simps) (simp add: sys_mkdir_def)
qed

lemma dir_effect:
  assumes "entry_at t r ds b h" "\<not> has_prefix b whiteoutPrefix" "Typeflag h = TypeDir"
    "look t (r @ ds @ [b]) = None"
  shows "extract_entry t (abs_path r) h = (None, put t (r @ ds @ [b]) (NDir (ucast (Mode h))))"
proof -
  note d = entry_atD [OF assms(1)]
  have n: "look t ((r @ ds) @ [b]) = None" using assms(4) by simp
  note nw = new_child [OF d(1,3,6) n]
  have "b \<noteq> whiteoutOpaque" using assms(2) by (auto simp: whiteoutOpaque_def whiteoutPrefix_def has_prefix_def)
  then show ?thesis
    using extract_entry_at [OF assms(1)] assms(2,3) comps_child [OF d(1,3,6)]
      mkdir_all_child [OF d(1,3,6) n] chmod_child [OF nw(2,3) d(6)]
    by (simp add: write_entry_def extract_dir_def mkdir_all_def chmod_entry_def sys_err_def set_mode_def)
qed

lemma device_effect:
  assumes "entry_at t r ds b h" "\<not> has_prefix b whiteoutPrefix" "look t (r @ ds @ [b]) = None"
    "(Typeflag h, k) \<in> {(TypeChar, CharDev), (TypeBlock, BlockDev), (TypeFifo, Fifo)}"
  shows "extract_entry t (abs_path r) h =
    (None, put t (r @ ds @ [b])
       (NDev k (masked (ucast (Mode h AND 0x1FF))) (ucast (Devmajor h)) (ucast (Devminor h))))"
proof -
  note d = entry_atD [OF assms(1)]
  have n: "look t ((r @ ds) @ [b]) = None" using assms(3) by simp
  have "b \<noteq> whiteoutOpaque" using assms(2) by (auto simp: whiteoutOpaque_def whiteoutPrefix_def has_prefix_def)
  then show ?thesis
    using extract_entry_at [OF assms(1)] assms(2,4) comps_child [OF d(1,3,6)] new_child(1) [OF d(1,3,6) n]
    by (auto simp: write_entry_def make_device_def sys_mknod_def)
qed

text \<open>A node whose name is no whiteout, and which is no empty link, comes out as it was packed.\<close>

definition packable :: "loc \<Rightarrow> node \<Rightarrow> bool" where
  "packable x n \<longleftrightarrow> \<not> has_prefix (last x) whiteoutPrefix \<and> n \<noteq> NSym []"

lemma tree_ok_cong:
  assumes "tree_ok t" "\<And>q. look t' q = look t q"
  shows "tree_ok t'"
proof -
  have "dir_at t' q = dir_at t q" for q by (simp add: dir_at_def assms(2))
  with assms show ?thesis by (simp add: tree_ok_def)
qed

lemma header_sel [simp]:
  "Typeflag (tar_header x d n) = node_type n" "Mode (tar_header x d n) = ucast (node_mode n)"
  "body (tar_header x d n) = node_body n" "body_err (tar_header x d n) = None"
  "Linkname (tar_header x d n) = (case link_target n of None \<Rightarrow> [] | Some l \<Rightarrow> l)"
  "Devmajor (tar_header x d n) = ucast (fst (node_dev n))"
  "Devminor (tar_header x d n) = ucast (snd (node_dev n))"
  "Name (tar_header x d n) = rel_path x @ (if d then ''/'' else [])"
  by (simp_all add: tar_header_def)

lemma ucast_through [simp]:
  "(ucast (ucast m :: u64) :: mode) = m" "(ucast (ucast a :: u64) :: u32) = a"
  "(ucast ((ucast m :: u64) AND 0x1FF) :: mode) = m AND 0x1FF"
  by (rule bit_word_eqI, force simp: bit_simps dest: bit_imp_le_length)+

lemma extract_packed:
  assumes t: "tree_ok t" "r \<noteq> []" "dir_at t (r @ ds)" "normal b" "look t (r @ ds @ [b]) = None"
    and n: "packable (ds @ [b]) n" "d = is_dir n"
  shows "\<exists>t'. extract_entry t (abs_path r) (tar_header (ds @ [b]) d n) = (None, t') \<and> tree_ok t' \<and>
    (\<forall>q. look t' q = (if q = r @ ds @ [b] then Some (remade n) else look t q))"
proof -
  let ?h = "(tar_header (ds @ [b]) d n)\<lparr>Name := rel_path (ds @ [b])\<rparr>"
  have "\<forall>c \<in> set (ds @ [b]). normal c" using tree_ok_names [OF t(1,3)] t(4) by auto
  from extract_entry_name [OF _ this, of "tar_header (ds @ [b]) d n" d]
  have eq: "extract_entry t (abs_path r) (tar_header (ds @ [b]) d n) = extract_entry t (abs_path r) ?h" by simp
  have at: "entry_at t r ds b ?h" using t by (simp add: entry_at_def)
  have np: "\<not> has_prefix b whiteoutPrefix" "n \<noteq> NSym []" using n(1) by (simp_all add: packable_def)
  have put_ok: "tree_ok (put t (r @ ds @ [b]) m)" for m
    using new_child(2) [OF t(1,3,4)] t(5) by simp
  have drop: "look (put (drop_tree t (r @ ds @ [b])) (r @ ds @ [b]) m) q = look (put t (r @ ds @ [b]) m) q" for m q
    using drop_nothing [OF t(1,5), of q] by simp
  have "\<exists>t'. extract_entry t (abs_path r) ?h = (None, t') \<and> (\<forall>q. look t' q = look (put t (r @ ds @ [b]) (remade n)) q)"
  proof (cases n)
    case (NDir m)
    with dir_effect [OF at np(1) _ t(5)] show ?thesis by simp
  next
    case (NFile m c)
    with file_effect [OF at np(1)] drop [of "NFile m c"] show ?thesis by simp
  next
    case (NSym l)
    with symlink_effect [OF at np(1)] drop [of "NSym l"] np(2) show ?thesis by simp
  next
    case (NDev k m x y)
    with device_effect [OF at np(1) t(5), of k] show ?thesis by (cases k) (simp_all add: remade_def)
  qed
  then show ?thesis using eq tree_ok_cong [OF put_ok] by auto
qed

section \<open>The whole stream\<close>

text \<open>The target holds the nodes named in \<open>A\<close>, remade, and nothing else below its root.\<close>

definition holds :: "fs \<Rightarrow> loc \<Rightarrow> fs \<Rightarrow> loc \<Rightarrow> loc set \<Rightarrow> bool" where
  "holds t s t2 r A \<longleftrightarrow>
     tree_ok t2 \<and> dir_at t2 r \<and>
     (\<forall>x. x \<noteq> [] \<longrightarrow> look t2 (r @ x) = (if x \<in> A then map_option remade (look t (s @ x)) else None))"

lemma extract_headers:
  assumes "tree_ok t" "r \<noteq> []"
    and "\<And>x n. x \<in> set xs \<Longrightarrow> look t (s @ x) = Some n \<Longrightarrow> packable x n"
    and "\<And>x. x \<in> set xs \<Longrightarrow> look t (s @ x) \<noteq> None"
  shows "[] \<notin> set xs \<Longrightarrow> parents_first A xs \<Longrightarrow> holds t s t2 r A \<Longrightarrow>
    \<exists>t3. extract_tar t2 (abs_path r) (map TarEntry (headers t s xs)) = (None, t3) \<and>
      holds t s t3 r (A \<union> set xs) \<and> (\<forall>q. \<not> strict_prefix r q \<longrightarrow> look t3 q = look t2 q)"
  using assms(3,4)
proof (induction xs arbitrary: A t2)
  case Nil
  then show ?case by (simp add: headers_def)
next
  case (Cons x xs)
  from Cons.prems(1,2) have x: "x \<notin> A" "x \<noteq> []" "butlast x \<in> A" "parents_first (insert x A) xs" by auto
  then obtain ds b where ds: "x = ds @ [b]" by (cases x rule: rev_cases) auto
  from Cons.prems(5) [of x] obtain n where n: "look t (s @ x) = Some n" by auto
  note h = Cons.prems(3) [unfolded holds_def]
  have d: "dir_at t (s @ ds)" using tree_ok_parent [OF assms(1) n] ds by (simp add: butlast_append)
  have "dir_at t2 (r @ ds)"
  proof (cases "ds = []")
    case False
    with h x(3) ds have "look t2 (r @ ds) = map_option remade (look t (s @ ds))" by simp
    with d show ?thesis by (auto simp: dir_at_def split: option.splits)
  qed (use h in simp)
  moreover have "normal b" using tree_ok_normal [OF assms(1) n] ds by simp
  moreover have "look t2 (r @ ds @ [b]) = None" using h x(1,2) ds by simp
  moreover have "packable (ds @ [b]) n" using Cons.prems(4) n ds by simp
  moreover have "dir_at t (s @ x) = is_dir n" using n by (simp add: dir_at_def)
  ultimately obtain t' where t': "extract_entry t2 (abs_path r) (tar_header x (dir_at t (s @ x)) n) = (None, t')"
    "tree_ok t'" "\<And>q. look t' q = (if q = r @ x then Some (remade n) else look t2 q)"
    using extract_packed [of t2 r ds b n] h assms(2) ds by auto
  have "r @ x \<noteq> r" using x(2) by simp
  with h t' x(2) n have "holds t s t' r (insert x A)" by (auto simp: holds_def dir_at_def)
  from Cons.IH [OF _ x(4) this] Cons.prems(1,4,5) obtain t3 where t3:
    "extract_tar t' (abs_path r) (map TarEntry (headers t s xs)) = (None, t3)"
    "holds t s t3 r (insert x A \<union> set xs)" "\<And>q. \<not> strict_prefix r q \<Longrightarrow> look t3 q = look t' q" by auto
  have "look t3 q = look t2 q" if "\<not> strict_prefix r q" for q
    using that t3(3) [OF that] t'(3) [of q] x(2) by (auto simp: strict_prefix_def)
  with t3(1,2) t'(1) n show ?case by (simp add: headers_def header_of_def)
qed

lemma tar_round_trip:
  assumes "tree_ok t" "dir_at t s"
    and "\<And>x n. x \<noteq> [] \<Longrightarrow> look t (s @ x) = Some n \<Longrightarrow> packable x n"
    and "tree_ok t2" "r \<noteq> []" "dir_at t2 r" "\<And>x. x \<noteq> [] \<Longrightarrow> look t2 (r @ x) = None"
  obtains es t3 where "tar_directory t (abs_path s) = Some (None, es)"
    "extract_tar t2 (abs_path r) (map TarEntry es) = (None, t3)"
    "\<And>x. x \<noteq> [] \<Longrightarrow> look t3 (r @ x) = map_option remade (look t (s @ x))"
    "\<And>q. \<not> strict_prefix r q \<Longrightarrow> look t3 q = look t2 q"
proof -
  from tar_directory_entries [OF assms(1,2)] obtain xs where xs:
    "tar_directory t (abs_path s) = Some (None, headers t s xs)"
    "set xs = {x. x \<noteq> [] \<and> look t (s @ x) \<noteq> None}" "parents_first {[]} xs" "[] \<notin> set xs" .
  have "holds t s t2 r {[]}" using assms(4,6,7) by (simp add: holds_def)
  from extract_headers [OF assms(1,5) _ _ xs(4,3) this] xs(2) assms(3) obtain t3 where t3:
    "extract_tar t2 (abs_path r) (map TarEntry (headers t s xs)) = (None, t3)"
    "holds t s t3 r ({[]} \<union> set xs)" "\<And>q. \<not> strict_prefix r q \<Longrightarrow> look t3 q = look t2 q" by auto
  have "look t3 (r @ x) = map_option remade (look t (s @ x))" if "x \<noteq> []" for x
    using t3(2) that xs(2) by (auto simp: holds_def)
  with xs(1) t3(1,3) show thesis by (intro that)
qed

section \<open>Through an image\<close>

text \<open>What the image library promises: a layer gives back the stream it was made of, an image its one
  layer, and setting the configuration changes no layer.\<close>

definition honest_maker :: "image_maker \<Rightarrow> bool" where
  "honest_maker mk \<longleftrightarrow>
     (\<forall>es. wrap_layer mk es = Inr (Inr (map TarEntry es))) \<and>
     (\<forall>l. \<exists>img. append_layer mk l = Inr img \<and> img_layers img = Inr [l]) \<and>
     (\<forall>img. config_file mk img = None) \<and>
     (\<forall>img c. \<exists>img'. set_config mk img c = Inr img' \<and> img_layers img' = img_layers img)"

lemma compose_layers:
  assumes "honest_maker mk" "tar_directory t dir = Some (None, es)"
  obtains img where "compose_image mk t dir cfg = Inr img" "img_layers img = Inr [Inr (map TarEntry es)]"
proof -
  from assms(1) obtain img where img: "append_layer mk (Inr (map TarEntry es)) = Inr img"
    "img_layers img = Inr [Inr (map TarEntry es)]" unfolding honest_maker_def by blast
  show thesis
  proof (cases cfg)
    case None
    with assms img show thesis by (intro that [of img]) (simp_all add: compose_image_def honest_maker_def)
  next
    case (Some c)
    from assms(1) obtain img' where "set_config mk img c = Inr img'" "img_layers img' = img_layers img"
      unfolding honest_maker_def by blast
    with Some assms img show thesis
      by (intro that [of img']) (simp_all add: compose_image_def honest_maker_def)
  qed
qed

text \<open>C4: An image built from a directory holds that directory: composing the image packs every name below it,
  and extracting the image into an empty directory gives every directory, file and symbolic link
  again, with its mode, its bytes and its target, device nodes with their mode under the umask, and
  nothing more; outside the target nothing changes. The names must not begin like a whiteout.\<close>

theorem image_round_trip:
  assumes "honest_maker mk" "tree_ok t" "dir_at t s"
    and "\<And>x n. x \<noteq> [] \<Longrightarrow> look t (s @ x) = Some n \<Longrightarrow> packable x n"
    and "tree_ok t2" "r \<noteq> []" "dir_at t2 r" "\<And>x. x \<noteq> [] \<Longrightarrow> look t2 (r @ x) = None"
  shows "\<exists>img t3. compose_image mk t (abs_path s) cfg = Inr img \<and>
    extract_image t2 (img_layers img) (abs_path r) = (None, t3) \<and>
    (\<forall>x. x \<noteq> [] \<longrightarrow> look t3 (r @ x) = map_option remade (look t (s @ x))) \<and>
    (\<forall>q. \<not> strict_prefix r q \<longrightarrow> look t3 q = look t2 q)"
proof -
  from tar_round_trip [OF assms(2-8)] obtain es t3 where es:
    "tar_directory t (abs_path s) = Some (None, es)"
    "extract_tar t2 (abs_path r) (map TarEntry es) = (None, t3)"
    "\<And>x. x \<noteq> [] \<Longrightarrow> look t3 (r @ x) = map_option remade (look t (s @ x))"
    "\<And>q. \<not> strict_prefix r q \<Longrightarrow> look t3 q = look t2 q" by blast
  from compose_layers [OF assms(1) es(1)] obtain img where img:
    "compose_image mk t (abs_path s) cfg = Inr img" "img_layers img = Inr [Inr (map TarEntry es)]" .
  have "comps (abs_path r) = r" using tree_ok_names [OF assms(5,7)] by (rule comps_abs_path_normal)
  then have "ensure_dir t2 (abs_path r) = (None, t2)"
    using mkdir_all_existing [OF assms(5,7)] by (simp add: ensure_dir_def mkdir_all_def sys_err_def)
  with img es(2) have "extract_image t2 (img_layers img) (abs_path r) = (None, t3)"
    by (simp add: extract_image_def)
  with img(1) es(3,4) show ?thesis by blast
qed

text \<open>A directory with one of everything, and an empty one.\<close>

definition small_tree :: fs where
  "small_tree =
     [([], NDir 0x1ED), ([''w''], NDir 0x1ED), ([''w'', ''d''], NDir 0x1C0),
      ([''w'', ''d'', ''f''], NFile 0x9ED ''x''), ([''w'', ''l''], NSym ''d/f''),
      ([''w'', ''n''], NDev CharDev 0x1B6 1 3)]"

definition empty_target :: fs where
  "empty_target = [([], NDir 0x1ED), ([''t''], NDir 0x1ED)]"

definition plain_maker :: image_maker where
  "plain_maker =
     \<lparr>wrap_layer = (\<lambda>es. Inr (Inr (map TarEntry es))),
      append_layer = (\<lambda>l. Inr \<lparr>img_layers = Inr [l], img_config = Inr None\<rparr>),
      config_file = (\<lambda>img. None),
      set_config = (\<lambda>img c. Inr (img\<lparr>img_config := Inr (Some c)\<rparr>))\<rparr>"

lemma plain_maker_honest: "honest_maker plain_maker"
  by (simp add: honest_maker_def plain_maker_def)

lemma small_trees: "tree_ok small_tree" "tree_ok empty_target"
  by (auto simp: tree_ok_def dir_at_def small_tree_def empty_target_def normal_def split: if_splits)

theorem image_round_trip_witness:
  "\<exists>img t3. compose_image plain_maker small_tree ''/w'' None = Inr img \<and>
    extract_image empty_target (img_layers img) ''/t'' = (None, t3) \<and>
    look t3 [''t'', ''d'', ''f''] = Some (NFile 0x9ED ''x'') \<and>
    look t3 [''t'', ''n''] = Some (NDev CharDev 0x1A4 1 3)"
proof -
  have p: "packable x n" if "x \<noteq> []" "look small_tree ([''w''] @ x) = Some n" for x n
    using that by (auto simp: small_tree_def packable_def has_prefix_def whiteoutPrefix_def split: if_splits)
  have d: "dir_at small_tree [''w'']" "dir_at empty_target [''t'']"
    "\<And>x. x \<noteq> [] \<Longrightarrow> look empty_target ([''t''] @ x) = None"
    by (auto simp: dir_at_def small_tree_def empty_target_def)
  from image_round_trip [OF plain_maker_honest small_trees(1) d(1) p small_trees(2) _ d(2,3), of None]
  obtain img t3 where r: "compose_image plain_maker small_tree ''/w'' None = Inr img"
    "extract_image empty_target (img_layers img) ''/t'' = (None, t3)"
    "\<forall>x. x \<noteq> [] \<longrightarrow> look t3 ([''t''] @ x) = map_option remade (look small_tree ([''w''] @ x))" by auto
  from r(3) have "look t3 [''t'', ''d'', ''f''] = map_option remade (look small_tree [''w'', ''d'', ''f''])"
    "look t3 [''t'', ''n''] = map_option remade (look small_tree [''w'', ''n''])" by auto
  then have "look t3 [''t'', ''d'', ''f''] = Some (NFile 0x9ED ''x'')"
    "look t3 [''t'', ''n''] = Some (NDev CharDev 0x1A4 1 3)"
    by (simp_all add: small_tree_def remade_def masked_def umask_def)
  with r(1,2) show ?thesis by blast
qed

section \<open>What does not come through\<close>

text \<open>A file whose name begins like a whiteout is packed under its own name, and read back as the
  order to remove another.\<close>

lemma whiteout_name_lost:
  assumes "tree_ok t" "r \<noteq> []" "dir_at t (r @ ds)" "normal w" "whiteoutPrefix @ w \<noteq> whiteoutOpaque"
  shows "extract_entry t (abs_path r) (tar_header (ds @ [whiteoutPrefix @ w]) False n) =
    (None, drop_tree t (r @ ds @ [w]))"
proof -
  have "normal (whiteoutPrefix @ w)" using assms(4) by (auto simp: normal_def whiteoutPrefix_def)
  with assms show ?thesis by (intro whiteout_effect) (simp_all add: entry_at_def)
qed

text \<open>A work directory that is itself a symbolic link packs as an empty archive.\<close>

lemma linked_work_dir_packs_nothing:
  "lstat t (clean dir) = Inr (NSym l) \<Longrightarrow> tar_directory t dir = Some (None, [])"
  by (simp add: tar_directory_def tar_one_def Let_def)

end
