(* ===== verification/BuildRuns.thy ===== *)
theory BuildRuns
  imports RoundTrip
begin

text \<open>
  Runs of \<open>xmorph build\<close> (\<open>internal/cli/build.go\<close>): what a hit in the cache does, and what an
  interrupted one leaves.
\<close>

section \<open>The stages of a fresh build\<close>

lemma build_fresh_stages:
  assumes "clean_target t (WorkDir cfg) = (None, t1)"
    "build (builder bt) t1 (Layers cfg) (WorkDir cfg) = (Inr result, t2)"
    "compose_image (maker bt) t2 (WorkDir cfg) (build_result.Config result) = Inr img"
  shows "build_fresh bt cfg t = save_image bt cfg img t2"
  using assms by (simp add: build_fresh_def)

lemma cache_hit_nothing:
  "\<not> NoCache cfg \<Longrightarrow> cache_hit t (cache_path bt cfg) \<Longrightarrow> Output cfg = [] \<Longrightarrow> run_build bt cfg t = (None, t)"
  by (simp add: run_build_def)

lemma cache_miss: "NoCache cfg \<or> \<not> cache_hit t (cache_path bt cfg) \<Longrightarrow> run_build bt cfg t = build_fresh bt cfg t"
  by (auto simp: run_build_def)

text \<open>A build whose write to the cache fails poisons it: the layout was initialised, with its index,
  before the image was appended, so the next build with the same layers takes it for a hit and
  reports success without building anything.\<close>

theorem failed_cache_write_hits:
  assumes "\<not> NoCache cfg" "Output cfg = []" "\<not> cache_hit t (cache_path bt cfg)"
    "clean_target t (WorkDir cfg) = (None, t1)"
    "build (builder bt) t1 (Layers cfg) (WorkDir cfg) = (Inr result, t2)"
    "compose_image (maker bt) t2 (WorkDir cfg) (build_result.Config result) = Inr img"
    "mkdir_all t2 (cache_path bt cfg) 0x1ED = (None, t3)"
    "layout_from_path (layouts bt) t3 (cache_path bt cfg) = Some e1"
    "layout_init (layouts bt) t3 (cache_path bt cfg) = (None, t4)"
    "layout_append (layouts bt) t4 (cache_path bt cfg) img = (Some e2, t5)"
    "is_ok (stat t5 (path_join [cache_path bt cfg, ''index.json'']))"
  shows "run_build bt cfg t = (Some (WriteCacheLayout (AppendImage e2)), t5) \<and>
    run_build bt cfg t5 = (None, t5)"
proof
  show "run_build bt cfg t = (Some (WriteCacheLayout (AppendImage e2)), t5)"
    using assms(3,7-10) build_fresh_stages [OF assms(4-6)]
    by (simp add: cache_miss save_image_def write_layout_def append_to_layout_def)
  show "run_build bt cfg t5 = (None, t5)"
    using assms(1,2,11) by (intro cache_hit_nothing) (simp_all add: cache_hit_def)
qed

text \<open>On a hit in the cache the archive asked for with \<open>--rootfs-output\<close> is not written either.\<close>

lemma cache_hit_skips_archive:
  "\<not> NoCache cfg \<Longrightarrow> cache_hit t (cache_path bt cfg) \<Longrightarrow> Output cfg = [] \<Longrightarrow>
    run_build bt (cfg\<lparr>RootfsOutput := archive\<rparr>) t = (None, t)"
  by (intro cache_hit_nothing) (simp_all add: cache_path_def)

section \<open>Pinned images\<close>

lemma strip_pinned: "CHR ''@'' \<notin> set r \<Longrightarrow> strip_digest (r @ CHR ''@'' # d) = r"
proof -
  assume "CHR ''@'' \<notin> set r"
  then have "cut_byte CHR ''@'' (r @ CHR ''@'' # d) = Some (r, d)" by (simp add: cut_byte_Some)
  then show ?thesis by (simp add: strip_digest_def)
qed

lemma pinned_key:
  "CHR ''@'' \<notin> set r \<Longrightarrow> layer_key (image_layer (r @ CHR ''@'' # d)) = layer_key (image_layer (r @ CHR ''@'' # d'))"
  by (simp add: layer_key_def normalize_image_ref_def strip_pinned)

lemma pinned_path:
  "CHR ''@'' \<notin> set r \<Longrightarrow>
    cache_path bt (cfg\<lparr>Layers := ls @ image_layer (r @ CHR ''@'' # d) # ls'\<rparr>) =
    cache_path bt (cfg\<lparr>Layers := ls @ image_layer (r @ CHR ''@'' # d') # ls'\<rparr>)"
  using pinned_key [of r d d'] by (simp add: cache_path_def compute_cache_key_def cache_bytes_def)

text \<open>C36: An image pinned to one digest is served for another. The digest of a reference is not part of the
  key of the cache, so once a build with an image pinned to one digest is cached, a build with that image
  pinned to any other digest does what the former would do: it hands out the cached layout, or
  reports success without building.\<close>

theorem pinned_digest_ignored:
  assumes "CHR ''@'' \<notin> set r" "\<not> NoCache cfg"
    "cache_hit t (cache_path bt (cfg\<lparr>Layers := ls @ image_layer (r @ CHR ''@'' # d) # ls'\<rparr>))"
  shows "run_build bt (cfg\<lparr>Layers := ls @ image_layer (r @ CHR ''@'' # d') # ls'\<rparr>) t =
      run_build bt (cfg\<lparr>Layers := ls @ image_layer (r @ CHR ''@'' # d) # ls'\<rparr>) t \<and>
    (Output cfg = [] \<longrightarrow>
      run_build bt (cfg\<lparr>Layers := ls @ image_layer (r @ CHR ''@'' # d') # ls'\<rparr>) t = (None, t))"
  using assms(2,3) pinned_path [OF assms(1), where bt = bt and cfg = cfg and ls = ls and ls' = ls' and d = d and d' = d'] by (simp add: run_build_def)

section \<open>Building into a layout again\<close>

lemma first_image_append:
  "first_image get ds = Inr img \<Longrightarrow> first_image get (ds @ ds') = Inr img"
  by (induction ds) (auto split: sum.splits)

lemma first_image_cong:
  "(\<And>d. d \<in> set ds \<Longrightarrow> get d = get' d) \<Longrightarrow> first_image get ds = first_image get' ds"
  by (induction ds) (simp_all split: sum.split)

text \<open>C35: A layout that is built into again keeps serving the old image: an existing layout is appended to, the
  index then lists the new image last, and the loader takes the first image it can read. \<open>lib\<close> and
  \<open>lib'\<close> are what the image library reads before and after.\<close>

theorem rebuilt_layout_stale:
  assumes "layout_from_path lw t dir = None"
    and "load_image lib dir SourceOCILayout = Inr old" "layout_manifests lib dir = Inr ds"
    and "layout_open lib' dir = None" "layout_index lib' dir = None"
    and "layout_manifests lib' dir = Inr (ds @ [d])"
    and "\<And>x. x \<in> set ds \<Longrightarrow> layout_image lib' dir x = layout_image lib dir x"
  shows "write_layout lw t dir img = append_to_layout lw t dir img \<and>
    load_image lib' dir SourceOCILayout = Inr old"
proof -
  have "first_image (layout_image lib dir) ds = Inr old"
    using assms(2,3) by (simp add: load_image_def split: option.splits)
  then have "first_image (layout_image lib' dir) (ds @ [d]) = Inr old"
    using first_image_cong [of ds "layout_image lib' dir" "layout_image lib dir"] assms(7)
    by (simp add: first_image_append)
  then show ?thesis using assms(1,4-6) by (simp add: write_layout_def load_image_def)
qed

section \<open>A machine\<close>

text \<open>No layers, a cache below \<open>/c\<close>, and a layout writer whose second step fails.\<close>

definition failing_layouts :: layout_writer where
  "failing_layouts =
     \<lparr>layout_from_path = (\<lambda>t dir. if cache_hit t dir then None else Some ENOENT),
      layout_init = (\<lambda>t dir. create_trunc t (comps (path_join [dir, ''index.json''])) 0x1A4 ''{}''),
      layout_append = (\<lambda>t dir img. (Some ENOSPC, t)),
      image_digest = (\<lambda>img. Inr ''d'')\<rparr>"

definition no_library :: image_library where
  "no_library =
     \<lparr>remote_image = (\<lambda>_. Inl BadReference), tarball_image = (\<lambda>_. Inl ENOENT), layout_open = (\<lambda>_. Some ENOENT),
      layout_index = (\<lambda>_. Some ENOENT), layout_manifests = (\<lambda>_. Inl ENOENT), layout_image = (\<lambda>_ _. Inl ENOENT)\<rparr>"

definition tools :: build_tools where
  "tools =
     \<lparr>builder = \<lparr>library = no_library, read_gzip_tar = (\<lambda>_. Inl EINVAL), read_tar = (\<lambda>_. []),
             device_bytes = [], copy_depth = 8\<rparr>,
      maker = plain_maker, layouts = failing_layouts,
      writers = \<lparr>tar_stream = (\<lambda>_ _. []), gzip_stream = (\<lambda>s. s)\<rparr>, sha256_hex = (\<lambda>_. ''k'')\<rparr>"

definition small_build :: config where
  "small_build = new_config\<lparr>Layers := [], CacheDir := ''/c'', WorkDir := ''/w'', Output := [],
     RootfsOutput := ''/r.tar'', NoCache := False\<rparr>"

definition machine :: fs where
  "machine = [([], NDir 0x1ED), ([''w''], NDir 0x1ED), ([''c''], NDir 0x1ED), ([''c'', ''builds''], NDir 0x1ED),
    ([''c'', ''builds'', ''k''], NDir 0x1ED)]"

definition indexed :: fs where
  "indexed = ([''c'', ''builds'', ''k'', ''index.json''], NFile 0x1A4 ''{}'') # machine"

lemma small_path: "cache_path tools small_build = ''/c/builds/k''"
  by code_simp

lemma small_steps:
  "clean_target machine ''/w'' = (None, machine)" "mkdir_all machine ''/w'' 0x1ED = (None, machine)"
  "mkdir_all machine ''/c/builds/k'' 0x1ED = (None, machine)" "is_ok (compose_image plain_maker machine ''/w'' None)"
  "\<not> cache_hit machine ''/c/builds/k''" "cache_hit indexed ''/c/builds/k''"
  "layout_init failing_layouts machine ''/c/builds/k'' = (None, indexed)"
  by code_simp+

theorem failed_cache_write_hits_witness:
  "run_build tools small_build machine = (Some (WriteCacheLayout (AppendImage ENOSPC)), indexed) \<and>
    run_build tools small_build indexed = (None, indexed)"
proof -
  obtain img where img: "compose_image plain_maker machine ''/w'' None = Inr img"
    using small_steps(4) by (auto simp: is_ok_iff)
  have b: "build (builder tools) machine [] ''/w'' =
      (Inr \<lparr>TargetDir = ''/w'', LayerCount = 0, build_result.Config = None\<rparr>, machine)"
    using small_steps(2) by (simp add: build_def)
  have c: "Layers small_build = []" "WorkDir small_build = ''/w''" "Output small_build = []" "\<not> NoCache small_build"
    "maker tools = plain_maker" "layouts tools = failing_layouts"
    by (simp_all add: small_build_def tools_def)
  have f: "layout_from_path failing_layouts machine ''/c/builds/k'' = Some ENOENT"
    "layout_append failing_layouts indexed ''/c/builds/k'' img = (Some ENOSPC, indexed)"
    using small_steps(5) by (simp_all add: failing_layouts_def)
  show ?thesis
    by (rule failed_cache_write_hits [of small_build machine tools machine
          "\<lparr>TargetDir = ''/w'', LayerCount = 0, build_result.Config = None\<rparr>" machine img machine ENOENT indexed])
       (use small_steps(5-) in \<open>simp_all add: cache_hit_def small_steps(1-3) small_path b c f img\<close>)
qed

definition image_of :: "string \<Rightarrow> oci_image" where
  "image_of d = \<lparr>img_layers = Inr [Inr [TarError (EOther (length d))]], img_config = Inr None\<rparr>"

definition layout_with :: "string list \<Rightarrow> image_library" where
  "layout_with ds = no_library\<lparr>layout_open := \<lambda>_. None, layout_index := \<lambda>_. None,
     layout_manifests := \<lambda>_. Inr ds, layout_image := \<lambda>_ d. Inr (image_of d)\<rparr>"

theorem rebuilt_layout_stale_witness:
  "load_image (layout_with [''old'', ''newer'']) ''/o'' SourceOCILayout = Inr (image_of ''old'')"
proof -
  have "load_image (layout_with [''old'']) ''/o'' SourceOCILayout = Inr (image_of ''old'')"
    by (simp add: load_image_def layout_with_def)
  then show ?thesis
    using rebuilt_layout_stale [of "failing_layouts\<lparr>layout_from_path := \<lambda>_ _. None\<rparr>" indexed "''/o''"
        "layout_with [''old'']" "image_of ''old''" "[''old'']" "layout_with [''old'', ''newer'']" "''newer''"]
    by (simp add: layout_with_def)
qed

definition pinned_build :: "string \<Rightarrow> config" where
  "pinned_build d = small_build\<lparr>Layers := [image_layer (''alpine'' @ CHR ''@'' # d)]\<rparr>"

theorem pinned_digest_ignored_witness:
  "cache_hit indexed (cache_path tools (pinned_build ''sha256:aa'')) \<and>
    run_build tools (pinned_build ''sha256:bb'') indexed = (None, indexed)"
proof -
  have p: "cache_path tools (pinned_build d) = ''/c/builds/k''" for d
    using small_path by (simp add: pinned_build_def cache_path_def compute_cache_key_def tools_def small_build_def)
  have c: "\<not> NoCache small_build" "Output small_build = []" by (simp_all add: small_build_def)
  have "CHR ''@'' \<notin> set ''alpine''" by simp
  from conjunct2 [OF pinned_digest_ignored [OF this c(1), of indexed tools "[]" "''sha256:aa''" "[]" "''sha256:bb''"]]
  show ?thesis using p small_steps(6) c(2) by (simp add: pinned_build_def)
qed

end
