(* ===== verification/Entry.thy ===== *)
theory Entry
  imports DryRun BuildRuns LogHandler PostPivot Trial ConfigProofs
begin

text \<open>
  The two ways into the binary (\<open>cmd/xmorph/main.go\<close>) and the commands \<open>pivot\<close> and \<open>build\<close>
  (\<open>internal/cli/root.go\<close>, \<open>pivot.go\<close>, \<open>build.go\<close>): parse, normalize, validate, run. The parsing of
  the command line itself is the flag library's.
\<close>

section \<open>Two ways in\<close>

datatype main_mode = Init_mode "string list" | Cli_mode

definition main_mode :: "string list \<Rightarrow> main_mode" where
  "main_mode args = (if length args > 1 \<and> args ! 1 = ''--init'' then Init_mode (drop 2 args) else Cli_mode)"

text \<open>What the pivot executes comes back in as the supervisor, with the entrypoint and its arguments.\<close>

lemma pivot_reenters: "main_mode (supervisor_argv entrypoint entryArgs) = Init_mode (entrypoint # entryArgs)"
  by (simp add: main_mode_def supervisor_argv_def)

section \<open>The commands\<close>

text \<open>\<open>PersistentPreRun\<close> of the root command.\<close>

definition set_verbosity :: "config \<Rightarrow> handler \<Rightarrow> handler" where
  "set_verbosity cfg h = (if Verbose cfg then set_level LevelDebug h else h)"

datatype configure_error = BadFlags flag_error | BadConfig config_error

datatype 'f command_error = BadCommandLine configure_error | Failed 'f

text \<open>From the flags to the configuration a command runs with; \<open>c0\<close> is what the flags are bound to.\<close>

definition configure ::
  "flag list \<Rightarrow> config \<Rightarrow> occurrence list \<Rightarrow> string list \<Rightarrow> (string \<Rightarrow> string option) \<Rightarrow>
   (configure_error, config) res" where
  "configure fs c0 occs positional env =
     (case parse_flags fs c0 occs of
        Inl e \<Rightarrow> Inl (BadFlags e)
      | Inr c \<Rightarrow>
          (let cfg = normalize_config (changed occs) positional env c
           in case validate_config cfg of Inl e \<Rightarrow> Inl (BadConfig e) | Inr _ \<Rightarrow> Inr cfg))"

definition pivot_command ::
  "converters \<Rightarrow> inputs \<Rightarrow> occurrence list \<Rightarrow> string list \<Rightarrow> (string \<Rightarrow> string option) \<Rightarrow>
   (failure command_error, outcome_kind) res io" where
  "pivot_command cv inp occs positional env =
     (case configure (bind_pivot cv) new_config occs positional env of
        Inl e \<Rightarrow> ret (Inl (BadCommandLine e))
      | Inr cfg \<Rightarrow> map_err Failed (run_pivot inp cfg))"

definition build_command ::
  "converters \<Rightarrow> build_tools \<Rightarrow> occurrence list \<Rightarrow> string list \<Rightarrow> (string \<Rightarrow> string option) \<Rightarrow> fs \<Rightarrow>
   build_cmd_error command_error option \<times> fs" where
  "build_command cv bt occs positional env t =
     (case configure (bind_build cv) build_defaults occs positional env of
        Inl e \<Rightarrow> (Some (BadCommandLine e), t)
      | Inr cfg \<Rightarrow> (case run_build bt cfg t of (r, t1) \<Rightarrow> (map_option Failed r, t1)))"

text \<open>The subcommands, and what \<open>xmorph version\<close> prints; \<open>linked\<close> is what the linker put in.\<close>

definition subcommands :: "string list" where
  "subcommands = [''pivot'', ''build'', ''idle'', ''version'']"

definition linked_version :: "string \<Rightarrow> string \<Rightarrow> string" where
  "linked_version linked helpers_version = (if linked \<noteq> ''dev'' then linked else helpers_version)"

definition version_text :: "string \<Rightarrow> string" where
  "version_text v = ''xmorph '' @ v @ [CHR 0x0A]"

section \<open>Well-formed configurations\<close>

text \<open>A layer is a tagged union spelled as a struct: only the field its kind names is set.\<close>

definition wf_layer :: "layer \<Rightarrow> bool" where
  "wf_layer l \<longleftrightarrow> (case layer.Kind l of LayerImage \<Rightarrow> layer.Path l = [] | LayerRootfs \<Rightarrow> Ref l = [])"

definition wf_config :: "config \<Rightarrow> bool" where
  "wf_config c \<longleftrightarrow>
     Layers c \<noteq> [] \<and> list_all wf_layer (Layers c) \<and> distinct (map layer_key (Layers c)) \<and>
     config.Timeout c \<noteq> 0 \<and>
     (WatchdogTimeout c = 0 \<or> sint (WatchdogTimeout c) \<ge> sint second) \<and>
     (ssh_enabled c \<longrightarrow> SSHPort c \<noteq> None) \<and>
     (SystemdMode c \<longrightarrow> Force c \<and> NoInitCoord c)"

lemma wf_layer_set [simp]: "wf_layer (image_layer s)" "wf_layer (rootfs_layer s)"
  by (simp_all add: wf_layer_def image_layer_def rootfs_layer_def)

lemma layer_args_wf: "list_all wf_layer (concat (map layer_arg occs))"
  by (induction occs) (auto simp: layer_arg_def split: prod.split option.split)

lemma normalize_layers_wf:
  assumes "list_all wf_layer (Layers c)"
  shows "list_all wf_layer (Layers (normalize_config ch pos env c))"
proof -
  have "set (deduplicate_layers ls) \<subseteq> set ls" for ls
    unfolding deduplicate_last using last_of_each_subseq [of ls] by (auto elim: list_emb_set)
  then show ?thesis
    using assms by (fastforce simp: normalize_config_def Let_def list_all_iff)
qed

lemma validate_ok:
  assumes "validate_config c = Inr ws"
  shows "config.Timeout c \<noteq> 0 \<and> (WatchdogTimeout c = 0 \<or> sint (WatchdogTimeout c) \<ge> sint second)"
  using assms by (auto simp: validate_config_def split: if_splits)

lemma normalize_wf_parts:
  "Layers (normalize_config ch pos env c) \<noteq> []" "distinct (map layer_key (Layers (normalize_config ch pos env c)))"
  "ssh_enabled (normalize_config ch pos env c) \<Longrightarrow> SSHPort (normalize_config ch pos env c) \<noteq> None"
  "SystemdMode (normalize_config ch pos env c) \<Longrightarrow>
    Force (normalize_config ch pos env c) \<and> NoInitCoord (normalize_config ch pos env c)"
  using normalize_config_invariant [of ch pos env c] unfolding Let_def by simp_all

lemma configure_wf:
  assumes "list_all appends_only fs" "Layers c0 = []" "configure fs c0 occs pos env = Inr cfg"
  shows "wf_config cfg"
proof -
  from assms(3) obtain c ws where c: "parse_flags fs c0 occs = Inr c"
      "cfg = normalize_config (changed occs) pos env c" "validate_config cfg = Inr ws"
    by (auto simp: configure_def Let_def split: sum.splits)
  have "list_all wf_layer (Layers c)"
    using parse_flags_appends [OF assms(1) c(1)] assms(2) layer_args_wf by simp
  then have "list_all wf_layer (Layers cfg)" unfolding c(2) by (rule normalize_layers_wf)
  with normalize_wf_parts [of "changed occs" pos env c] validate_ok [OF c(3)] show ?thesis
    unfolding wf_config_def c(2) by blast
qed

text \<open>No flag changes which subcommand it is.\<close>

definition keeps_subcommand :: "flag \<Rightarrow> bool" where
  "keeps_subcommand f \<longleftrightarrow> (\<forall>s c c'. set_value f s c = Inr c' \<longrightarrow> Subcommand c' = Subcommand c)"

lemma keeps_all: "list_all keeps_subcommand (bind_common cv)" "list_all keeps_subcommand (bind_pivot_only cv)"
  "list_all keeps_subcommand (bind_build_only @ bind_ssh @ bind_tailscale)"
  by (simp_all add: keeps_subcommand_def binder_defs setter_defs split: option.split sum.split)

lemma parse_flags_subcommand:
  "list_all keeps_subcommand fs \<Longrightarrow> parse_flags fs c occs = Inr c' \<Longrightarrow> Subcommand c' = Subcommand c"
proof (induction occs arbitrary: c)
  case (Cons occ occs)
  then obtain c1 where c1: "apply_flag fs c occ = Inr c1" "parse_flags fs c1 occs = Inr c'"
    by (auto simp: bind_res_eq_Inr)
  then obtain f s where f: "find (\<lambda>f. flag_name f = fst occ) fs = Some f" "set_value f s c = Inr c1"
    by (auto simp: apply_flag_def split: option.splits)
  then have "f \<in> set fs" by (auto simp: find_Some_iff)
  with f Cons.prems(1) have "Subcommand c1 = Subcommand c" by (auto simp: list_all_iff keeps_subcommand_def)
  with Cons.IH [OF Cons.prems(1) c1(2)] show ?case by simp
qed simp

lemma normalize_subcommand: "Subcommand (normalize_config ch pos env c) = Subcommand c"
proof -
  have "Subcommand (env_overrides ch env c) = Subcommand c" for c
    by (simp add: env_overrides_def Let_def split: option.split)
  moreover have "Subcommand (implied_port c) = Subcommand c" for c by (simp add: implied_port_def)
  ultimately show ?thesis by (simp add: normalize_config_def Let_def)
qed

lemma configure_subcommand:
  "list_all keeps_subcommand fs \<Longrightarrow> configure fs c0 occs pos env = Inr cfg \<Longrightarrow> Subcommand cfg = Subcommand c0"
  using parse_flags_subcommand
  by (auto simp: configure_def Let_def normalize_subcommand split: sum.splits)

text \<open>C28: Every accepted command line gives a well-typed configuration. Whatever flags, environment and
  arguments \<open>pivot\<close> or \<open>build\<close> accept, what they run with names its subcommand and is well formed:
  at least one layer, each with only the field of its kind set and no two with the same key, a
  positive timeout, a watchdog of at least a second or none, a port if SSH is enabled, and force
  without init coordination in systemd mode.\<close>

theorem accepted_config_well_typed:
  "(configure (bind_pivot cv) new_config occs pos env = Inr cfg \<longrightarrow>
      wf_config cfg \<and> subcommand_string (Subcommand cfg) = ''pivot'') \<and>
   (configure (bind_build cv) build_defaults occs pos env = Inr cfg \<longrightarrow>
      wf_config cfg \<and> subcommand_string (Subcommand cfg) = ''build'')"
proof -
  have "list_all appends_only (bind_pivot cv)" "list_all appends_only (bind_build cv)"
      "list_all keeps_subcommand (bind_pivot cv)" "list_all keeps_subcommand (bind_build cv)"
    using appends_common appends_pivot_only appends_rest keeps_all by (simp_all add: bind_pivot_def bind_build_def)
  moreover have "Layers new_config = []" "Layers build_defaults = []" "Subcommand new_config = SubcommandPivot"
      "Subcommand build_defaults = SubcommandBuild"
    by (simp_all add: build_defaults_def new_config_def)
  ultimately show ?thesis using configure_wf configure_subcommand by (metis subcommand_string.simps)
qed

section \<open>A dry run\<close>

lemma normalize_dry: "DryRun (normalize_config ch pos env c) = DryRun c" "Layers (normalize_config ch pos env c) \<noteq> []"
proof -
  have "DryRun (env_overrides ch env c) = DryRun c" for c by (simp add: env_overrides_def Let_def split: option.split)
  moreover have "DryRun (implied_port c) = DryRun c" for c by (simp add: implied_port_def)
  ultimately show "DryRun (normalize_config ch pos env c) = DryRun c" by (simp add: normalize_config_def Let_def)
  show "Layers (normalize_config ch pos env c) \<noteq> []"
    by (simp add: normalize_config_def Let_def deduplicate_nonempty)
qed

lemma detect_reads: "snd (detect w h) = h"
  by (simp add: detect_def detect_via_pid1_def bind_io_def ret_def ask_def split: option.split)

lemma print_dry_run_reads: "snd (print_dry_run sd cfg w h) = h"
  using detect_reads [of w h]
  by (cases "detect w h") (simp add: print_dry_run_def bind_io_def ask_def ret_def)

lemma print_dry_run_some: "Layers cfg \<noteq> [] \<Longrightarrow> fst (print_dry_run sd cfg w h) \<noteq> None"
  by (cases "Layers cfg")
     (simp_all add: print_dry_run_def dry_run_text_def plan_steps_def bind_io_def ask_def ret_def split: prod.split)

lemma configure_dry: "configure fs c0 occs pos env = Inr cfg \<Longrightarrow> Layers cfg \<noteq> []"
  using normalize_dry(2) by (auto simp: configure_def Let_def split: sum.splits)

text \<open>A dry run touches nothing and always has a plan: whatever the flags, once they are accepted with
  \<open>--dry-run\<close>, the command's only action is to print, and the plan it prints exists, since a
  normalized configuration has at least one layer; making it only reads.\<close>

theorem dry_run_only_prints:
  assumes "configure (bind_pivot cv) new_config occs positional env = Inr cfg" "DryRun cfg"
  shows "pivot_command cv inp occs positional env w h = (Inr Planned, h @ [(Print_plan, err_of w h Print_plan)]) \<and>
    (\<exists>plan. print_dry_run show_duration cfg w h = (Some plan, h))"
proof -
  have "map_err Failed (run_pivot inp cfg) w h = (Inr Planned, h @ [(Print_plan, err_of w h Print_plan)])"
    using assms(2) by (simp add: run_pivot_def map_err_def bind_io_def ret_def)
  then have "pivot_command cv inp occs positional env w h = (Inr Planned, h @ [(Print_plan, err_of w h Print_plan)])"
    using assms(1) by (simp add: pivot_command_def)
  moreover obtain plan where "fst (print_dry_run show_duration cfg w h) = Some plan"
    using print_dry_run_some [OF configure_dry [OF assms(1)], of show_duration w h] by blast
  ultimately show ?thesis using print_dry_run_reads [of show_duration cfg w h] by (metis prod.collapse)
qed

definition dry_config :: config where
  "dry_config = normalize_config (changed [(''dry-run'', None)]) [] (\<lambda>_. None) (new_config\<lparr>DryRun := True\<rparr>)"

lemma configure_dry_run:
  "configure (bind_pivot sample_converters) new_config [(''dry-run'', None)] [] (\<lambda>_. None) = Inr dry_config" "DryRun dry_config"
proof -
  have p: "parse_flags (bind_pivot sample_converters) new_config [(''dry-run'', None)] = Inr (new_config\<lparr>DryRun := True\<rparr>)"
    by (simp add: apply_flag_def bind_pivot_def binder_defs setter_defs sample_converters_def)
  have "config.Timeout dry_config = DefaultTimeout" "WatchdogTimeout dry_config = WatchdogTimeout new_config"
    by (simp_all add: dry_config_def normalize_config_def new_config_def env_overrides_def implied_port_def Let_def)
  then have "\<exists>ws. validate_config dry_config = Inr ws"
    by (simp add: validate_config_def new_config_def DefaultTimeout_def)
  with p show "configure (bind_pivot sample_converters) new_config [(''dry-run'', None)] [] (\<lambda>_. None) = Inr dry_config"
    by (auto simp: configure_def Let_def dry_config_def)
  show "DryRun dry_config" by (simp add: dry_config_def normalize_dry)
qed

theorem dry_run_only_prints_witness:
  "pivot_command sample_converters trial_inputs [(''dry-run'', None)] [] (\<lambda>_. None) calm [] =
    (Inr Planned, [(Print_plan, err_of calm [] Print_plan)])"
  using dry_run_only_prints [OF configure_dry_run, of trial_inputs calm "[]" "\<lambda>_. []"] by simp

theorem accepted_config_well_typed_witness: "wf_config dry_config \<and> subcommand_string (Subcommand dry_config) = ''pivot''"
  using accepted_config_well_typed [of sample_converters "[(''dry-run'', None)]" "[]" "\<lambda>_. None" dry_config]
    configure_dry_run(1) by simp

end
