(* ===== verification/Spec2Isabelle.thy ===== *)
theory Spec2Isabelle
  imports ExtractSafety ConfigProofs RootfsProofs MountProofs ProcessProofs PivotWatchdog PivotEnds
    PostPivotProofs SshdProofs SshdLoop SessionRun WatchdogPet LogProofs Usage Entry
begin

text \<open>
  xmorph replaces the running root file system of a Linux machine by one built in memory from OCI
  images and archives, and starts a program in it under its own supervisor. This development models
  the Go program under \<open>src/\<close> and proves what keeps the machine and its operator safe.

  \<^bold>\<open>The program\<close>

  One binary, two lives. \<open>cmd/xmorph/main.go\<close> looks at its second argument: \<open>--init\<close> is the life after
  the pivot, everything else the command line. \<open>xmorph build\<close> flattens layers into a work
  directory and packs the result; \<open>xmorph pivot\<close> builds too, stages the configuration and the binary
  in the new root, stops the services and processes of the old system, makes the mounts, calls
  \<open>pivot_root\<close> and executes itself with \<open>--init\<close>. That second life reads the configuration, starts
  the watchdog, the tailnet and an SSH server, supervises the entrypoint and reboots the machine
  when it ends.

  \<^bold>\<open>Two ways to model state\<close>

  The code that works on files runs over an explicit tree (\<open>FileSystem\<close>): directories, files, links
  and devices, with the kernel's path resolution written out, at most \<open>max_links\<close> = 40 links as in
  Linux. An operation takes the tree and gives back the error, if any, and the tree it leaves.
  The privileged code runs over a world (\<open>World\<close>): a program is a function of what the world
  answers and of the events so far, and the world answers as it likes, so that a theorem
  about all worlds covers every failure and every order of answers. Goroutines, signals and timers
  are step relations (\<open>Supervise\<close>, \<open>IdleServer\<close>, \<open>SshdLoop\<close>, \<open>SessionRun\<close>,
  \<open>WatchdogPet\<close>, \<open>LogHandler\<close>); their properties are
  invariants of the reachable states. Integers keep their width where it matters, errors are the
  left side of a sum, and a panic is a value.

  \<^bold>\<open>Theories and sources\<close>

  \<^item> \<open>Prelude\<close>, \<open>GoStrings\<close>, \<open>GoPath\<close>, \<open>FileSystem\<close>, \<open>WalkDir\<close>, \<open>World\<close>: results and errors, the parts of
    Go's \<open>strings\<close>, \<open>strconv\<close>, \<open>bufio\<close>, \<open>path/filepath\<close> and \<open>os\<close> the program uses, and its world.
  \<^item> \<open>Containment\<close>, \<open>SecureJoin\<close>, \<open>Confined\<close>, \<open>Extract\<close>, \<open>ExtractProofs\<close>, \<open>ExtractEffects\<close>, \<open>ExtractSafety\<close>:
    \<open>internal/oci/extract.go\<close> and \<open>device.go\<close>. What is extracted stays in its directory, with two
    exceptions that are stated and shown, and each kind of entry does what it should.
  \<^item> \<open>ImageRef\<close>, \<open>Config\<close>, \<open>ConfigProofs\<close>, \<open>Sizes\<close>: \<open>internal/config\<close>, \<open>internal/rootfs/cache.go\<close>,
    \<open>internal/sysmem\<close>. References, flags, normalization, validation, sizes, the check of the memory.
  \<^item> \<open>ImageConfig\<close>, \<open>Rootfs\<close>, \<open>RootfsProofs\<close>: \<open>internal/oci/config.go\<close>, \<open>source.go\<close>, \<open>load.go\<close> and
    \<open>internal/rootfs\<close>: loading images and building the root from layers.
  \<^item> \<open>TreeWalk\<close>, \<open>BuildCmd\<close>, \<open>BuildProofs\<close>, \<open>RoundTrip\<close>, \<open>BuildRuns\<close>, \<open>Usage\<close>: \<open>internal/cli/build.go\<close>,
    \<open>build_compose.go\<close>, \<open>internal/oci/layout.go\<close> and \<open>UsageBytes\<close> of \<open>internal/pivot/tmpfs.go\<close>.
    Packing the tree, the image made of it, the cache; packing and extracting give the tree again.
  \<^item> \<open>Mounts\<close>, \<open>MountProofs\<close>, \<open>Process\<close>, \<open>ProcessProofs\<close>, \<open>InitSys\<close>: \<open>internal/pivot\<close>,
    \<open>internal/process\<close>, \<open>internal/initsys\<close>. Which mounts exist when, which process is signalled, how
    long services are waited for.
  \<^item> \<open>Watchdog\<close>, \<open>Helpers\<close>, \<open>Tailnet\<close>, \<open>PostConfig\<close>, \<open>ResolvConf\<close>: what the pivot stages for its second
    life (\<open>internal/postpivot\<close>, \<open>internal/helpers\<close>, \<open>internal/passphrase\<close>, \<open>internal/tsnetauth\<close>).
  \<^item> \<open>RunPivot\<close>, \<open>RunPivotProofs\<close>, \<open>Trial\<close>, \<open>PivotSafety\<close>, \<open>PivotWatchdog\<close>, \<open>PivotEnds\<close>:
    \<open>internal/cli/pivot.go\<close>, stage by stage with every error return and both deferred clean-ups.
    Nothing is destroyed before everything is checked, an abort takes back what it set up, the
    watchdog is handed over running or left disarmed, and the pipeline comes back.
  \<^item> \<open>Channel\<close>, \<open>Progress\<close>, \<open>Supervise\<close>, \<open>SuperviseProofs\<close>, \<open>PostPivot\<close>, \<open>PostPivotProofs\<close>,
    \<open>Sshd\<close>, \<open>SshdLoop\<close>, \<open>SessionRun\<close>, \<open>IdleServer\<close>, \<open>SshdProofs\<close>, \<open>WatchdogPet\<close>: the second life (\<open>run.go\<close>, \<open>supervise.go\<close>, \<open>sshd_linux.go\<close>,
    \<open>reboot_linux.go\<close>, \<open>devices.go\<close>, \<open>firewall_linux.go\<close>, \<open>watchdog_linux.go\<close> of
    \<open>internal/postpivot\<close>). It carries out what was planned, removes the secrets first, forwards
    signals, reboots, admits only who is configured, tells a client all that its program wrote and
    how it ended, and feeds the watchdog in time.
  \<^item> \<open>LogHandler\<close>, \<open>LogProofs\<close>: \<open>internal/log/log.go\<close>. Concurrent logging through one handler refines
    logging in some order, and comes to an end.
  \<^item> \<open>DryRun\<close>, \<open>Entry\<close>: \<open>internal/cli/dryrun.go\<close>, \<open>root.go\<close> and \<open>main.go\<close>: the plan that is printed,
    what it discloses, and the way from the flags to a run.

  \<^bold>\<open>Interfaces\<close>

  \<open>confined_resolver\<close> is what the extractor needs of a path resolver, and \<open>secureJoin\<close> has it;
  \<open>dropping_channel\<close> is a buffered channel fed by Go's signal package, and those of the supervisor
  are such; \<open>ticking_clock\<close> is a clock on which sleeping makes progress; \<open>tree_reader\<close> is a walk that
  only reads, of which packing a directory and counting its blocks are two; \<open>finite_worker\<close>
  (\<open>Progress\<close>) is a step relation that does a bounded amount of work and is stuck only when it has
  finished, and the supervisor after its child's end, a session after its program's, the relaying of a
  session's input and the callers of the log are such.

  \<^bold>\<open>Bounds\<close>

  A polling loop has a number of rounds, and a theorem says which number is enough for the
  timeouts of the configuration. \<open>secureJoin\<close> gives up after 255 links, as the code does. A directory
  copy has a bound on its depth (\<open>copy_depth\<close>), since copying a directory into itself need not end; a
  walk that only reads takes the depth of the tree, which is proved enough. Everything else
  recurses on its data or on a measure.

  \<^bold>\<open>Parameters\<close>

  The image library (pulling, reading and writing layouts and saved images), the readers and
  writers of tar and gzip streams, SHA-256, JSON texts, IP addresses, floating-point numbers, the
  flag library's converters and the SSH library are arguments of the definitions that use
  them; a theorem that needs a law of one states it as a hypothesis and has a witness with a
  concrete instance.

  \<^bold>\<open>Not modelled\<close>

  The tree of commands beyond its names, with its help texts, and the stubs for systems other than
  Linux: they hold no logic. The handshake and the packets of the SSH server, which are the
  library's. Faults of the disk (\<open>ENOSPC\<close>, \<open>EIO\<close>) in the file tree; the world can give any error.
  A hard link has what the file holds when it is made, and later changes through one name do not
  show through the other; the extractor replaces files and never writes into one. The texts of
  error messages, which keep their class.
\<close>

end
